(* ===== verification/Peryx_Prelude.thy ===== *)
theory Peryx_Prelude
  imports Main "HOL-Library.Word" "HOL-Library.Char_ord" "HOL-Library.List_Lexorder"
    "HOL-Library.Finite_Map" "HOL-Library.FSet" "HOL-Library.Multiset"
begin

text \<open>
  Shared vocabulary of the development: the Rust number types, the collections the sources
  use, and the generic lemmas on them.

  \<^item> \<open>u64\<close> is a 64-bit word, so \<open>+ 1\<close> wraps the way a release build does (the workspace sets no
    \<open>overflow-checks\<close>); \<open>i64\<close> is an \<open>int\<close> with the saturation of \<open>saturating_add\<close> and
    \<open>saturating_sub\<close> written out; \<open>usize\<close> is \<open>nat\<close>.
  \<^item> \<open>String\<close> is \<open>string\<close>, a list of bytes; its order is the bytewise lexicographic order that
    Rust's \<open>str\<close> has, supplied by \<open>Char_ord\<close> and \<open>List_Lexorder\<close>.
  \<^item> \<open>BTreeMap\<close> and a redb table are \<open>fmap\<close>; \<open>BTreeSet\<close> is \<open>fset\<close>; iteration goes through
    \<open>sorted_list_of_fmap\<close> and \<open>sorted_list_of_fset\<close>. A \<open>HashMap\<close> that is only read and written by
    key is a map \<open>'k \<rightharpoonup> 'v\<close>.
  \<^item> \<open>Result\<close> is a sum with the error on the left.
\<close>

section \<open>Names of the model's types\<close>

type_synonym u16 = "16 word"
type_synonym u32 = "32 word"
type_synonym u64 = "64 word"
type_synonym i64 = int
type_synonym usize = nat
type_synonym duration = nat
type_synonym ('e, 'a) result = "'e + 'a"

named_theorems outcome_simps \<open>equations that say what an operation does to each part of its state\<close>
named_theorems inv_intros \<open>preservation facts of the component invariants\<close>

section \<open>Signed 64-bit time stamps\<close>

definition i64_min :: int where
  "i64_min = - (2 ^ 63)"

definition i64_max :: int where
  "i64_max = 2 ^ 63 - 1"

definition is_i64 :: "int \<Rightarrow> bool" where
  "is_i64 x \<longleftrightarrow> i64_min \<le> x \<and> x \<le> i64_max"

definition i64_clamp :: "int \<Rightarrow> int" where
  "i64_clamp x = max i64_min (min i64_max x)"

definition i64_saturating_add :: "int \<Rightarrow> int \<Rightarrow> int" where
  "i64_saturating_add a b = i64_clamp (a + b)"

definition i64_saturating_sub :: "int \<Rightarrow> int \<Rightarrow> int" where
  "i64_saturating_sub a b = i64_clamp (a - b)"

lemmas i64_defs = i64_min_def i64_max_def is_i64_def i64_clamp_def
  i64_saturating_add_def i64_saturating_sub_def

lemma i64_clamp_is_i64 [simp]: "is_i64 (i64_clamp x)"
  by (simp add: i64_defs)

lemma i64_clamp_id: "is_i64 x \<Longrightarrow> i64_clamp x = x"
  by (simp add: i64_defs)

lemma i64_clamp_mono: "x \<le> y \<Longrightarrow> i64_clamp x \<le> i64_clamp y"
  by (simp add: i64_defs)

lemma i64_saturating_add_mono: "x \<le> y \<Longrightarrow> i64_saturating_add x d \<le> i64_saturating_add y d"
  by (simp add: i64_saturating_add_def i64_clamp_mono)

text \<open>Adding a non-negative amount never moves a representable time stamp backwards.\<close>

lemma i64_saturating_add_ge: "is_i64 x \<Longrightarrow> 0 \<le> d \<Longrightarrow> x \<le> i64_saturating_add x d"
  by (simp add: i64_defs)

lemma i64_saturating_add_less_iff:
  "is_i64 x \<Longrightarrow> is_i64 y \<Longrightarrow> 0 \<le> d \<Longrightarrow> i64_saturating_add x d < y \<longleftrightarrow> x + d < y"
  by (auto simp: i64_defs)

section \<open>Unsigned 64-bit counters\<close>

abbreviation u64_max :: u64 where
  "u64_max \<equiv> - 1"

definition u64_checked_add :: "u64 \<Rightarrow> u64 \<Rightarrow> u64 option" where
  "u64_checked_add a b = (if unat a + unat b < 2 ^ 64 then Some (a + b) else None)"

definition u64_checked_sub :: "u64 \<Rightarrow> u64 \<Rightarrow> u64 option" where
  "u64_checked_sub a b = (if b \<le> a then Some (a - b) else None)"

definition u64_saturating_add :: "u64 \<Rightarrow> u64 \<Rightarrow> u64" where
  "u64_saturating_add a b = (if unat a + unat b < 2 ^ 64 then a + b else u64_max)"

definition u64_saturating_sub :: "u64 \<Rightarrow> u64 \<Rightarrow> u64" where
  "u64_saturating_sub a b = (if b \<le> a then a - b else 0)"

lemma unat_u64_less: "unat (a :: u64) < 2 ^ 64"
  using unsigned_less [of a] by simp

text \<open>The overflow tests in the form evaluation uses: a sum that wraps is below its first summand.\<close>

lemma u64_fits_iff: "unat (a :: u64) + unat b < 2 ^ 64 \<longleftrightarrow> a \<le> a + b"
  by (simp add: no_olen_add_nat)

lemma u64_checked_add_code [code]: "u64_checked_add a b = (let c = a + b in if a \<le> c then Some c else None)"
  by (simp only: u64_checked_add_def u64_fits_iff Let_def)

lemma u64_saturating_add_code [code]: "u64_saturating_add a b = (let c = a + b in if a \<le> c then c else u64_max)"
  by (simp only: u64_saturating_add_def u64_fits_iff Let_def)

lemma unat_u64_of_nat: "n < 2 ^ 64 \<Longrightarrow> unat (of_nat n :: u64) = n"
  by (simp add: unsigned_of_nat take_bit_nat_eq_self)

lemma u64_checked_add_Some: "u64_checked_add a b = Some c \<Longrightarrow> unat c = unat a + unat b"
  by (auto simp: u64_checked_add_def unat_word_ariths split: if_splits)

lemma unat_u64_max [simp]: "unat u64_max = 2 ^ 64 - 1"
  by (simp add: unsigned_minus_1_eq_mask mask_eq_exp_minus_1)

lemma unat_u64_saturating_add: "unat (u64_saturating_add a b) = min (2 ^ 64 - 1) (unat a + unat b)"
  by (auto simp: u64_saturating_add_def unat_word_ariths min_def)

lemma unat_u64_saturating_sub: "unat (u64_saturating_sub a b) = unat a - unat b"
  by (auto simp: u64_saturating_sub_def unat_sub_if_size word_le_nat_alt)

lemma u64_saturating_add_0 [simp]: "u64_saturating_add a 0 = a" "u64_saturating_add 0 a = a"
  using unat_u64_less [of a] by (simp_all add: u64_saturating_add_def)

lemma u64_saturating_add_commute: "u64_saturating_add a b = u64_saturating_add b a"
  by (simp add: u64_saturating_add_def add.commute)

lemma u64_saturating_add_assoc:
  "u64_saturating_add (u64_saturating_add a b) c = u64_saturating_add a (u64_saturating_add b c)"
proof -
  have "unat (u64_saturating_add (u64_saturating_add a b) c) =
      unat (u64_saturating_add a (u64_saturating_add b c))"
    by (simp add: unat_u64_saturating_add)
  then show ?thesis by (simp add: word_unat_eq_iff)
qed

text \<open>Incrementing a counter that is not at the top of its range is strict.\<close>

lemma u64_unat_plus_1: "(w :: u64) \<noteq> u64_max \<Longrightarrow> unat (w + 1) = Suc (unat w)"
  by (metis add.commute eq_neg_iff_add_eq_0 unatSuc)

lemma u64_less_plus_1: "(w :: u64) \<noteq> u64_max \<Longrightarrow> w < w + 1"
  by (simp add: word_less_nat_alt u64_unat_plus_1)

lemma u64_plus_1_nonzero: "(w :: u64) \<noteq> u64_max \<Longrightarrow> w + 1 \<noteq> 0"
  by (metis eq_neg_iff_add_eq_0)

section \<open>Ordered maps and sets\<close>

text \<open>\<open>BTreeMap::retain\<close>: keep the rows whose key and value satisfy the predicate.\<close>

definition fmretain :: "('k \<Rightarrow> 'v \<Rightarrow> bool) \<Rightarrow> ('k, 'v) fmap \<Rightarrow> ('k, 'v) fmap" where
  "fmretain P m = fmfilter (\<lambda>k. case fmlookup m k of None \<Rightarrow> False | Some v \<Rightarrow> P k v) m"

definition fm_is_empty :: "('k, 'v) fmap \<Rightarrow> bool" where
  "fm_is_empty m \<longleftrightarrow> fmdom m = {||}"

lemma fmlookup_retain [simp]:
  "fmlookup (fmretain P m) k = (case fmlookup m k of None \<Rightarrow> None | Some v \<Rightarrow> if P k v then Some v else None)"
  by (auto simp: fmretain_def split: option.splits)

lemma fm_is_empty_iff: "fm_is_empty m \<longleftrightarrow> (\<forall>k. fmlookup m k = None)"
  by (metis fm_is_empty_def fmdom_empty fmdom_notD fmdom_notI fmempty_lookup fmap_ext)

lemma fmretain_empty_iff:
  "fm_is_empty (fmretain P m) \<longleftrightarrow> (\<forall>k v. fmlookup m k = Some v \<longrightarrow> \<not> P k v)"
  by (auto simp: fm_is_empty_iff split: option.splits)

lemma fmretain_id: "(\<And>k v. fmlookup m k = Some v \<Longrightarrow> P k v) \<Longrightarrow> fmretain P m = m"
  by (rule fmap_ext) (auto split: option.splits)

lemma fmdrop_absent: "fmlookup m k = None \<Longrightarrow> fmdrop k m = m"
  by (rule fmap_ext) auto

section \<open>Results\<close>

text \<open>The \<open>?\<close> operator: go on with the value, or return the error.\<close>

fun and_then :: "('e, 'a) result \<Rightarrow> ('a \<Rightarrow> ('e, 'b) result) \<Rightarrow> ('e, 'b) result" where
  "and_then (Inl e) f = Inl e"
| "and_then (Inr a) f = f a"

fun map_err :: "('e \<Rightarrow> 'f) \<Rightarrow> ('e, 'a) result \<Rightarrow> ('f, 'a) result" where
  "map_err f (Inl e) = Inl (f e)"
| "map_err f (Inr a) = Inr a"

fun try_fold :: "('s \<Rightarrow> 'a \<Rightarrow> ('e, 's) result) \<Rightarrow> 's \<Rightarrow> 'a list \<Rightarrow> ('e, 's) result" where
  "try_fold f s [] = Inr s"
| "try_fold f s (x # xs) = and_then (f s x) (\<lambda>s'. try_fold f s' xs)"

lemma and_then_Inr_iff: "and_then r f = Inr b \<longleftrightarrow> (\<exists>a. r = Inr a \<and> f a = Inr b)"
  by (cases r) auto

lemma map_err_Inr_iff [simp]: "map_err f r = Inr a \<longleftrightarrow> r = Inr a"
  by (cases r) auto

text \<open>What every step of a fold keeps, the fold keeps.\<close>

lemma try_fold_keeps:
  assumes "try_fold f s xs = Inr s'" "\<And>s x s'. x \<in> set xs \<Longrightarrow> f s x = Inr s' \<Longrightarrow> Q s \<Longrightarrow> Q s'" "Q s"
  shows "Q s'"
  using assms
proof (induction xs arbitrary: s)
  case (Cons x xs)
  from Cons.prems(1) obtain s1 where "f s x = Inr s1" "try_fold f s1 xs = Inr s'"
    by (auto simp: and_then_Inr_iff)
  with Cons show ?case by auto
qed simp

end
