(* ===== verification/Contracts.thy ===== *)
theory Contracts
  imports Peryx_Prelude
begin

text \<open>
  The neutral availability contracts: the value types of \<open>peryx-core/src/availability.rs\<close> and
  \<open>peryx-identity/src/revocation.rs\<close> that the distributed layer exchanges, and the pure
  decisions of \<open>peryx-ha/src/lib.rs\<close> (modes, durability policies, transport failures, receipts,
  leases, control commands).
\<close>

section \<open>Availability modes and the resources they start\<close>

datatype availability_mode = ModeNone | ModeDc | ModeHa

datatype availability_resources = ResourcesNone | ResourcesDistributed

record durability_requirement =
  conditional_create :: bool
  checksum_verified :: bool

definition requirement_LOCAL :: durability_requirement where
  "requirement_LOCAL = \<lparr>conditional_create = False, checksum_verified = False\<rparr>"

definition requirement_REPLICATED :: durability_requirement where
  "requirement_REPLICATED = \<lparr>conditional_create = True, checksum_verified = True\<rparr>"

fun mode_as_str :: "availability_mode \<Rightarrow> string" where
  "mode_as_str ModeNone = ''none''"
| "mode_as_str ModeDc = ''dc''"
| "mode_as_str ModeHa = ''ha''"

fun mode_durability_requirement :: "availability_mode \<Rightarrow> durability_requirement" where
  "mode_durability_requirement ModeNone = requirement_LOCAL"
| "mode_durability_requirement ModeDc = requirement_REPLICATED"
| "mode_durability_requirement ModeHa = requirement_REPLICATED"

fun is_distributed :: "availability_mode \<Rightarrow> bool" where
  "is_distributed ModeDc = True"
| "is_distributed ModeHa = True"
| "is_distributed ModeNone = False"

fun mode_availability_resources :: "availability_mode \<Rightarrow> availability_resources" where
  "mode_availability_resources ModeNone = ResourcesNone"
| "mode_availability_resources ModeDc = ResourcesDistributed"
| "mode_availability_resources ModeHa = ResourcesDistributed"

definition has_distributed_state :: "availability_resources \<Rightarrow> bool" where
  "has_distributed_state r = (case r of ResourcesDistributed \<Rightarrow> True | _ \<Rightarrow> False)"

definition has_routes :: "availability_resources \<Rightarrow> bool" where
  "has_routes r = (case r of ResourcesDistributed \<Rightarrow> True | _ \<Rightarrow> False)"

definition has_metrics :: "availability_resources \<Rightarrow> bool" where
  "has_metrics r = (case r of ResourcesDistributed \<Rightarrow> True | _ \<Rightarrow> False)"

definition has_background_tasks :: "availability_resources \<Rightarrow> bool" where
  "has_background_tasks r = (case r of ResourcesDistributed \<Rightarrow> True | _ \<Rightarrow> False)"

definition replica_derived_view :: "availability_resources \<Rightarrow> bool \<Rightarrow> string option" where
  "replica_derived_view r is_replica =
     (if (case r of ResourcesDistributed \<Rightarrow> True | _ \<Rightarrow> False) \<and> is_replica then Some ''blob'' else None)"

text \<open>A single-node deployment installs nothing distributed; every distributed mode installs all of it.\<close>

lemma mode_resources:
  "has_distributed_state (mode_availability_resources m) \<longleftrightarrow> is_distributed m"
  "has_routes (mode_availability_resources m) \<longleftrightarrow> is_distributed m"
  "has_metrics (mode_availability_resources m) \<longleftrightarrow> is_distributed m"
  "has_background_tasks (mode_availability_resources m) \<longleftrightarrow> is_distributed m"
  "replica_derived_view (mode_availability_resources m) r \<noteq> None \<longleftrightarrow> is_distributed m \<and> r"
  "checksum_verified (mode_durability_requirement m) \<longleftrightarrow> is_distributed m"
  by (cases m; simp add: has_distributed_state_def has_routes_def has_metrics_def
      has_background_tasks_def replica_derived_view_def requirement_LOCAL_def
      requirement_REPLICATED_def)+

section \<open>Digests\<close>

text \<open>A \<open>Digest\<close> wraps the hexadecimal text; \<open>Sha256\<close> itself is a library and is not modelled.\<close>

type_synonym u8 = "8 word"
type_synonym digest = string
type_synonym artifact_digest = string

definition is_lower_hex :: "char \<Rightarrow> bool" where
  "is_lower_hex c \<longleftrightarrow> (CHR ''0'' \<le> c \<and> c \<le> CHR ''9'') \<or> (CHR ''a'' \<le> c \<and> c \<le> CHR ''f'')"

definition digest_from_hex :: "string \<Rightarrow> digest option" where
  "digest_from_hex hex = (if length hex = 64 \<and> list_all is_lower_hex hex then Some hex else None)"

definition HEX :: string where
  "HEX = ''0123456789abcdef''"

definition to_hex :: "u8 list \<Rightarrow> string" where
  "to_hex bytes =
     concat (map (\<lambda>byte. [HEX ! unat (drop_bit 4 byte), HEX ! unat (and byte 15)]) bytes)"

definition digest_from_sha256 :: "u8 list \<Rightarrow> digest" where
  "digest_from_sha256 bytes = to_hex bytes"

datatype artifact_digest_error = ArtifactDigestError

definition artifact_digest_from_sha256 :: "string \<Rightarrow> (artifact_digest_error, artifact_digest) result" where
  "artifact_digest_from_sha256 sha256 =
     (if length sha256 \<noteq> 64 \<or> \<not> list_all is_lower_hex sha256 then Inl ArtifactDigestError else Inr sha256)"

definition canonical :: "artifact_digest \<Rightarrow> string" where
  "canonical d = ''sha256:'' @ d"

definition strip_prefix :: "string \<Rightarrow> string \<Rightarrow> string option" where
  "strip_prefix p s = (if take (length p) s = p then Some (drop (length p) s) else None)"

definition artifact_digest_from_str :: "string \<Rightarrow> (artifact_digest_error, artifact_digest) result" where
  "artifact_digest_from_str v =
     (case strip_prefix ''sha256:'' v of
        None \<Rightarrow> Inl ArtifactDigestError
      | Some rest \<Rightarrow> artifact_digest_from_sha256 rest)"

lemma length_to_hex [simp]: "length (to_hex bytes) = 2 * length bytes"
  by (induction bytes) (simp_all add: to_hex_def)

lemma HEX_lower: "i < 16 \<Longrightarrow> is_lower_hex (HEX ! i)"
proof -
  assume i: "i < 16"
  have "list_all is_lower_hex HEX" by (simp add: HEX_def is_lower_hex_def less_eq_char_def)
  with i show ?thesis by (simp add: list_all_length HEX_def)
qed

lemma nibble_bounds: "unat (drop_bit 4 (b :: u8)) < 16" "unat (and (b :: u8) 15) < 16"
proof -
  have "unat b < 256" using unsigned_less [of b] by simp
  then show "unat (drop_bit 4 b) < 16" by (simp add: drop_bit_eq_div unat_div)
  have "unat (and b 15) \<le> unat (15 :: u8)"
    by (rule word_and_le1 [THEN word_le_nat_alt [THEN iffD1]])
  then show "unat (and b 15) < 16" by simp
qed

lemma to_hex_lower: "list_all is_lower_hex (to_hex bytes)"
  by (induction bytes) (simp_all add: to_hex_def HEX_lower nibble_bounds)

lemma canonical_inj [simp]: "canonical a = canonical b \<longleftrightarrow> a = b"
  by (simp add: canonical_def)

lemma strip_prefix_append [simp]: "strip_prefix p (p @ s) = Some s"
  by (simp add: strip_prefix_def)

lemma strip_prefix_Some_iff: "strip_prefix p s = Some r \<longleftrightarrow> s = p @ r"
  unfolding strip_prefix_def by (auto; metis append_take_drop_id)

section \<open>Durability evidence\<close>

datatype blob_durability = FilesystemScope | ObjectStoreScope

fun blob_durability_as_str :: "blob_durability \<Rightarrow> string" where
  "blob_durability_as_str FilesystemScope = ''filesystem''"
| "blob_durability_as_str ObjectStoreScope = ''object-store''"

datatype write_evidence = NodeLocal | ObjectStoreVerified | ObjectStoreUnverified

fun write_evidence_scope :: "write_evidence \<Rightarrow> blob_durability" where
  "write_evidence_scope NodeLocal = FilesystemScope"
| "write_evidence_scope ObjectStoreVerified = ObjectStoreScope"
| "write_evidence_scope ObjectStoreUnverified = ObjectStoreScope"

record observed_frontier =
  replica :: "u64 option"
  backup :: "u64 option"

definition covers :: "observed_frontier \<Rightarrow> u64 \<Rightarrow> bool" where
  "covers f required \<longleftrightarrow>
     (case replica f of Some frontier \<Rightarrow> frontier \<ge> required | None \<Rightarrow> True) \<and>
     (case backup f of Some frontier \<Rightarrow> frontier \<ge> required | None \<Rightarrow> True)"

lemma covers_mono: "covers f b \<Longrightarrow> a \<le> b \<Longrightarrow> covers f a"
  by (auto simp: covers_def split: option.splits)

datatype durability_policy = PolicyLocal | PolicyMajority | PolicyEverywhere | PolicyAtLeast usize

fun policy_as_str :: "durability_policy \<Rightarrow> string" where
  "policy_as_str PolicyLocal = ''local''"
| "policy_as_str PolicyMajority = ''majority''"
| "policy_as_str PolicyEverywhere = ''everywhere''"
| "policy_as_str (PolicyAtLeast _) = ''at_least''"

fun required_acks :: "durability_policy \<Rightarrow> usize \<Rightarrow> usize" where
  "required_acks PolicyLocal configured = 1"
| "required_acks PolicyMajority configured = configured div 2 + 1"
| "required_acks PolicyEverywhere configured = configured"
| "required_acks (PolicyAtLeast acks) configured = acks"

datatype byte_ack_decision =
  ByteAcknowledged (counted_nodes: "string list") (threshold: usize)
| BytePending (counted_nodes: "string list") (threshold: usize) (outstanding: usize)

definition byte_is_acknowledged :: "byte_ack_decision \<Rightarrow> bool" where
  "byte_is_acknowledged d = (case d of ByteAcknowledged _ _ \<Rightarrow> True | _ \<Rightarrow> False)"

datatype byte_evidence = EvidenceFilesystem byte_ack_decision | EvidenceObjectStore bool

fun evidence_is_durable :: "byte_evidence \<Rightarrow> bool" where
  "evidence_is_durable (EvidenceFilesystem decision) = byte_is_acknowledged decision"
| "evidence_is_durable (EvidenceObjectStore acknowledged) = acknowledged"

fun evidence_scope :: "byte_evidence \<Rightarrow> blob_durability" where
  "evidence_scope (EvidenceFilesystem _) = FilesystemScope"
| "evidence_scope (EvidenceObjectStore _) = ObjectStoreScope"

datatype deadline = Live | Expired

datatype dc_ack = DcDurable blob_durability | DcPending | DcUnknown

fun dc_ack_as_str :: "dc_ack \<Rightarrow> string" where
  "dc_ack_as_str (DcDurable _) = ''durable''"
| "dc_ack_as_str DcPending = ''pending''"
| "dc_ack_as_str DcUnknown = ''unknown''"

fun dc_ack_scope :: "dc_ack \<Rightarrow> blob_durability option" where
  "dc_ack_scope (DcDurable s) = Some s"
| "dc_ack_scope DcPending = None"
| "dc_ack_scope DcUnknown = None"

datatype write_durability = WriteConfirmed blob_durability | WritePending | WriteUnavailable

datatype write_ack_decision = AckConfirmed | AckPending | AckUnavailable

fun write_ack_decision_as_str :: "write_ack_decision \<Rightarrow> string" where
  "write_ack_decision_as_str AckConfirmed = ''confirmed''"
| "write_ack_decision_as_str AckPending = ''pending''"
| "write_ack_decision_as_str AckUnavailable = ''unavailable''"

section \<open>Transport failures\<close>

datatype transport_error =
  Disconnected
| Timeout
| Unauthenticated
| ServerError (status: u16) (asked_delay: "duration option")
| BadStatus (status: u16)
| CheckpointRequired
| CheckpointUnavailable
| Malformed
| FrameTooLarge u64 u64
| RecordTooLarge u64 u64
| TooManyOperations usize usize
| SourceChanged string string
| FrontierGap u64 u64
| EmptyBatch u64 u64
| DigestMismatch string string
| RangeMismatch string string
| BlobNotFound string
| AtCapacity
| ReceiptIdentity string string
| ReceiptSize u64 u64

definition retry_after :: "transport_error \<Rightarrow> duration option" where
  "retry_after e = (case e of ServerError _ d \<Rightarrow> d | _ \<Rightarrow> None)"

definition is_retryable :: "transport_error \<Rightarrow> bool" where
  "is_retryable e =
     (case e of Disconnected \<Rightarrow> True | Timeout \<Rightarrow> True | ServerError _ _ \<Rightarrow> True | AtCapacity \<Rightarrow> True
      | _ \<Rightarrow> False)"

fun terminal_reason :: "transport_error \<Rightarrow> string option" where
  "terminal_reason Disconnected = None"
| "terminal_reason Timeout = None"
| "terminal_reason (ServerError _ _) = None"
| "terminal_reason AtCapacity = None"
| "terminal_reason Unauthenticated = Some ''unauthenticated''"
| "terminal_reason (DigestMismatch _ _) = Some ''digest_mismatch''"
| "terminal_reason (RangeMismatch _ _) = Some ''range_mismatch''"
| "terminal_reason (BlobNotFound _) = Some ''blob_not_found''"
| "terminal_reason (BadStatus _) = Some ''bad_status''"
| "terminal_reason CheckpointRequired = Some ''checkpoint_required''"
| "terminal_reason CheckpointUnavailable = Some ''checkpoint_unavailable''"
| "terminal_reason Malformed = Some ''malformed''"
| "terminal_reason (FrameTooLarge _ _) = Some ''frame_too_large''"
| "terminal_reason (RecordTooLarge _ _) = Some ''record_too_large''"
| "terminal_reason (TooManyOperations _ _) = Some ''too_many_operations''"
| "terminal_reason (SourceChanged _ _) = Some ''source_changed''"
| "terminal_reason (FrontierGap _ _) = Some ''frontier_gap''"
| "terminal_reason (EmptyBatch _ _) = Some ''empty_batch''"
| "terminal_reason (ReceiptIdentity _ _) = Some ''receipt_identity''"
| "terminal_reason (ReceiptSize _ _) = Some ''receipt_size''"

definition requires_explicit_rearm :: "transport_error \<Rightarrow> bool" where
  "requires_explicit_rearm e =
     (case e of SourceChanged _ _ \<Rightarrow> True | FrontierGap _ _ \<Rightarrow> True | EmptyBatch _ _ \<Rightarrow> True | _ \<Rightarrow> False)"

record source_failure =
  failure_source :: string
  failure_reason :: string

definition source_failure_terminal :: "string \<Rightarrow> transport_error \<Rightarrow> source_failure option" where
  "source_failure_terminal source e =
     map_option (\<lambda>reason. \<lparr>failure_source = source, failure_reason = reason\<rparr>) (terminal_reason e)"

lemma retryable_iff_no_reason: "is_retryable e \<longleftrightarrow> terminal_reason e = None"
  by (cases e) (simp_all add: is_retryable_def)

lemma rearm_is_terminal: "requires_explicit_rearm e \<Longrightarrow> \<not> is_retryable e"
  by (cases e) (simp_all add: is_retryable_def requires_explicit_rearm_def)

lemma retry_after_only_retryable: "retry_after e = Some d \<Longrightarrow> is_retryable e"
  by (cases e) (simp_all add: is_retryable_def retry_after_def)

section \<open>Peer receipts\<close>

record receipt_request =
  request_digest :: digest
  request_size :: u64

record peer_receipt =
  receipt_node :: string
  receipt_digest :: digest
  receipt_size :: u64

definition receipt_verify :: "peer_receipt \<Rightarrow> string \<Rightarrow> receipt_request \<Rightarrow> (transport_error, unit) result" where
  "receipt_verify r node request =
     (if receipt_node r \<noteq> node then Inl (ReceiptIdentity node (receipt_node r))
      else if receipt_digest r \<noteq> request_digest request
        then Inl (DigestMismatch (request_digest request) (receipt_digest r))
      else if receipt_size r \<noteq> request_size request
        then Inl (ReceiptSize (request_size request) (receipt_size r))
      else Inr ())"

lemma receipt_verify_ok_iff:
  "receipt_verify r node req = Inr () \<longleftrightarrow>
     receipt_node r = node \<and> receipt_digest r = request_digest req \<and> receipt_size r = request_size req"
  by (simp add: receipt_verify_def)

lemma receipt_verify_err_terminal:
  "receipt_verify r node req = Inl e \<Longrightarrow> \<not> is_retryable e"
  by (auto simp: receipt_verify_def is_retryable_def split: if_splits)

section \<open>Leases\<close>

definition AUTHORITY_CLOCK_SKEW_SECS :: i64 where
  "AUTHORITY_CLOCK_SKEW_SECS = 5"

definition AUTHORITY_WRITE_LEASE_SECS :: i64 where
  "AUTHORITY_WRITE_LEASE_SECS = 30"

definition SINGLETON_LEASE_SECS :: i64 where
  "SINGLETON_LEASE_SECS = 30"

definition CONTROL_IDEMPOTENCY_SECS :: i64 where
  "CONTROL_IDEMPOTENCY_SECS = 900"

lemmas lease_consts = AUTHORITY_CLOCK_SKEW_SECS_def AUTHORITY_WRITE_LEASE_SECS_def
  SINGLETON_LEASE_SECS_def CONTROL_IDEMPOTENCY_SECS_def

record authority_write_lease =
  awl_authority :: string
  awl_epoch :: u64
  awl_id :: string
  awl_expires_at_unix :: i64

definition lease_admits :: "authority_write_lease \<Rightarrow> i64 \<Rightarrow> bool" where
  "lease_admits l now_unix \<longleftrightarrow>
     i64_saturating_add now_unix AUTHORITY_CLOCK_SKEW_SECS < awl_expires_at_unix l"

definition singleton_grant_admits :: "i64 \<Rightarrow> i64 \<Rightarrow> bool" where
  "singleton_grant_admits expires_at_unix now_unix \<longleftrightarrow>
     i64_saturating_add now_unix AUTHORITY_CLOCK_SKEW_SECS < expires_at_unix"

text \<open>
  The arithmetic core of both leases: a holder that still admits at its clock and an authority
  that has let the same deadline lapse at its clock read clocks more than twice the permitted
  error apart.
\<close>

lemma skew_windows_disjoint:
  assumes "is_i64 e" "is_i64 holder_now"
    and "i64_saturating_add holder_now AUTHORITY_CLOCK_SKEW_SECS < e"
    and "i64_saturating_add e AUTHORITY_CLOCK_SKEW_SECS \<le> authority_now" "is_i64 authority_now"
    and "authority_now < i64_max"
  shows "holder_now + 2 * AUTHORITY_CLOCK_SKEW_SECS < authority_now"
  using assms by (auto simp: i64_defs lease_consts)

section \<open>Control commands\<close>

record transfer_intent =
  ti_source :: string
  ti_actor :: string
  ti_reason :: string
  ti_barrier :: u64

datatype control_command =
  AddLearner (ctl_datacenter: string) (ctl_address: string)
| PromoteVoter (ctl_datacenter: string)
| RemoveVoter (ctl_datacenter: string)
| ReplaceVoter (ctl_remove: string) (ctl_datacenter: string) (ctl_address: string)
| TransferAuthority (ctl_authority: string) (ctl_new_home: string) (ctl_intent: "transfer_intent option")
| AdvanceEpoch (ctl_authority: string)
| CtlForgetAuthority (ctl_authority: string)

fun command_kind :: "control_command \<Rightarrow> string" where
  "command_kind (AddLearner _ _) = ''add_learner''"
| "command_kind (PromoteVoter _) = ''promote_voter''"
| "command_kind (RemoveVoter _) = ''remove_voter''"
| "command_kind (ReplaceVoter _ _ _) = ''replace_voter''"
| "command_kind (TransferAuthority _ _ _) = ''transfer_authority''"
| "command_kind (AdvanceEpoch _) = ''advance_epoch''"
| "command_kind (CtlForgetAuthority _) = ''forget_authority''"

fun command_target :: "control_command \<Rightarrow> string" where
  "command_target (AddLearner datacenter _) = datacenter"
| "command_target (PromoteVoter datacenter) = datacenter"
| "command_target (RemoveVoter datacenter) = datacenter"
| "command_target (ReplaceVoter _ datacenter _) = datacenter"
| "command_target (TransferAuthority authority _ _) = authority"
| "command_target (AdvanceEpoch authority) = authority"
| "command_target (CtlForgetAuthority authority) = authority"

record transfer_audit =
  ta_authority :: string
  ta_source :: string
  ta_target :: string
  ta_actor :: string
  ta_reason :: string
  ta_barrier :: u64
  ta_epoch :: u64
  ta_commit_term :: u64
  ta_commit_index :: u64

datatype command_outcome = OutcomeCommitted | OutcomeNoChange

fun command_outcome_as_str :: "command_outcome \<Rightarrow> string" where
  "command_outcome_as_str OutcomeCommitted = ''committed''"
| "command_outcome_as_str OutcomeNoChange = ''no_change''"

record command_receipt =
  cr_term :: u64
  cr_index :: u64
  cr_outcome :: command_outcome
  cr_old_voters :: "string list"
  cr_new_voters :: "string list"
  cr_transfer_audit :: "transfer_audit option"

text \<open>The command's wire tags are pairwise distinct, so a kind identifies the variant.\<close>

lemma command_kind_distinct:
  "command_kind (TransferAuthority a h i) = command_kind c \<Longrightarrow> \<exists>a' h' i'. c = TransferAuthority a' h' i'"
  "command_kind (AdvanceEpoch a) = command_kind c \<Longrightarrow> \<exists>a'. c = AdvanceEpoch a'"
  "command_kind (CtlForgetAuthority a) = command_kind c \<Longrightarrow> \<exists>a'. c = CtlForgetAuthority a'"
  by (cases c; simp)+

end
