(* ===== verification/Interfaces.thy ===== *)
theory Interfaces
  imports Peryx_Prelude
begin

text \<open>
  The contracts several components share, each a locale with the laws its provider promises and
  the lemmas its clients use:

  \<^item> \<open>guarded_log\<close> and \<open>ordered_log\<close>: a deterministic state machine driven by a log of commands;
  \<^item> \<open>fenced_decision\<close>: a decision on a stored record that carries the fence of its last owner;
  \<^item> \<open>optimistic_retry\<close>: a read, decide, compare-and-put loop that retries on conflict;
  \<^item> \<open>comparator\<close>: a total preorder given as a three-way comparison, with the stable sort on it;
  \<^item> \<open>page_loop\<close> and its lemmas: the cursor scans the metadata tables share.
\<close>

section \<open>Machines driven by a command log\<close>

fun run_ok :: "('s \<Rightarrow> 'c \<Rightarrow> 's) \<Rightarrow> ('s \<Rightarrow> 'c \<Rightarrow> bool) \<Rightarrow> 's \<Rightarrow> 'c list \<Rightarrow> bool" where
  "run_ok step ok s [] = True"
| "run_ok step ok s (c # cs) = (ok s c \<and> run_ok step ok (step s c) cs)"

locale guarded_log =
  fixes step :: "'s \<Rightarrow> 'c \<Rightarrow> 's" and ok :: "'s \<Rightarrow> 'c \<Rightarrow> bool" and inv :: "'s \<Rightarrow> bool"
  assumes inv_step: "inv s \<Longrightarrow> ok s c \<Longrightarrow> inv (step s c)"
begin

lemma inv_run: "inv s \<Longrightarrow> run_ok step ok s cs \<Longrightarrow> inv (foldl step s cs)"
  by (induction cs arbitrary: s) (auto intro: inv_step)

end

locale ordered_log = guarded_log step ok inv
  for step :: "'s \<Rightarrow> 'c \<Rightarrow> 's" and ok and inv +
  fixes rank :: "'s \<Rightarrow> 'o :: order"
  assumes rank_step: "inv s \<Longrightarrow> ok s c \<Longrightarrow> rank s \<le> rank (step s c)"
begin

lemma rank_run: "inv s \<Longrightarrow> run_ok step ok s cs \<Longrightarrow> rank s \<le> rank (foldl step s cs)"
proof (induction cs arbitrary: s)
  case Nil
  then show ?case by simp
next
  case (Cons c cs)
  then have "rank s \<le> rank (step s c)" by (simp add: rank_step)
  also have "\<dots> \<le> rank (foldl step (step s c) cs)"
    using Cons by (simp add: inv_step)
  finally show ?case by simp
qed

end

section \<open>Fenced records\<close>

text \<open>A rejected decision leaves the stored record as it was.\<close>

definition fenced_step ::
  "('r option \<Rightarrow> 'c \<Rightarrow> u64 \<Rightarrow> ('e, 'r) result) \<Rightarrow> 'r option \<Rightarrow> 'c \<times> u64 \<Rightarrow> 'r option" where
  "fenced_step decide prior cf =
     (case decide prior (fst cf) (snd cf) of Inl _ \<Rightarrow> prior | Inr r \<Rightarrow> Some r)"

locale fenced_decision =
  fixes decide :: "'r option \<Rightarrow> 'c \<Rightarrow> u64 \<Rightarrow> ('e, 'r) result" and fence_of :: "'r \<Rightarrow> u64"
  assumes stale_rejected: "f < fence_of r \<Longrightarrow> \<exists>e. decide (Some r) c f = Inl e"
    and fence_kept: "decide (Some r) c f = Inr r' \<Longrightarrow> fence_of r \<le> fence_of r'"
begin

lemma accepted_not_stale: "decide (Some r) c f = Inr r' \<Longrightarrow> fence_of r \<le> f"
  using stale_rejected [of f r c] by force

lemma step_fence: "fenced_step decide (Some r) cf = Some r' \<Longrightarrow> fence_of r \<le> fence_of r'"
  by (auto simp: fenced_step_def dest: fence_kept split: sum.splits)

lemma step_Some: "\<exists>r'. fenced_step decide (Some r) cf = Some r'"
  by (auto simp: fenced_step_def split: sum.splits)

lemma run_fence:
  "\<exists>r'. foldl (fenced_step decide) (Some r) cs = Some r' \<and> fence_of r \<le> fence_of r'"
proof (induction cs arbitrary: r)
  case Nil
  then show ?case by simp
next
  case (Cons c cs)
  obtain r1 where r1: "fenced_step decide (Some r) c = Some r1"
    using step_Some by blast
  from Cons.IH [of r1] r1 step_fence [OF r1] show ?case
    using order_trans by fastforce
qed

text \<open>An owner that was superseded stays fenced out, whatever happens in between.\<close>

lemma superseded_stays_rejected:
  assumes "f < fence_of r"
  shows "\<exists>e. decide (foldl (fenced_step decide) (Some r) cs) c f = Inl e"
proof -
  obtain r' where r': "foldl (fenced_step decide) (Some r) cs = Some r'" "fence_of r \<le> fence_of r'"
    using run_fence by blast
  with assms have "f < fence_of r'" by simp
  with r' show ?thesis by (simp add: stale_rejected)
qed

end

section \<open>Optimistic retry\<close>

text \<open>
  A loop that reads the store, decides, and writes only if what it read still stands. Between the
  read and the write other writers run: \<open>envs\<close> lists what they do in each iteration, so its
  length is the number of iterations the schedule covers. \<open>attempt\<close> gets the store at the read and
  the store at the write; \<open>None\<close> is a conflict, which goes round again.
\<close>

fun retry :: "('s \<Rightarrow> 's \<Rightarrow> 'r option \<times> 's) \<Rightarrow> ('s \<Rightarrow> 's) list \<Rightarrow> 's \<Rightarrow> 'r option \<times> 's" where
  "retry attempt [] s = (None, s)"
| "retry attempt (env # envs) s =
     (case attempt s (env s) of
        (Some r, s') \<Rightarrow> (Some r, s')
      | (None, s') \<Rightarrow> retry attempt envs s')"

text \<open>The stores a schedule visits: the store at each read and the store at each write.\<close>

fun retry_states :: "('s \<Rightarrow> 's \<Rightarrow> 'r option \<times> 's) \<Rightarrow> ('s \<Rightarrow> 's) list \<Rightarrow> 's \<Rightarrow> 's list" where
  "retry_states attempt [] s = []"
| "retry_states attempt (env # envs) s =
     s # env s # (case attempt s (env s) of (Some _, _) \<Rightarrow> [] | (None, s') \<Rightarrow> retry_states attempt envs s')"

text \<open>
  The contract: \<open>atomic\<close> is the same operation done in one indivisible step and \<open>view\<close> the part
  of the store it reads. An attempt either takes effect atomically at the write, or returns an
  answer that changes nothing and was right at the read; it conflicts only when what it read moved.
\<close>

locale optimistic_retry =
  fixes attempt :: "'s \<Rightarrow> 's \<Rightarrow> 'r option \<times> 's" and atomic :: "'s \<Rightarrow> 'r \<times> 's" and view :: "'s \<Rightarrow> 'v"
  assumes linear: "attempt s s1 = (Some r, s') \<Longrightarrow>
      (r, s') = atomic s1 \<or> (s' = s1 \<and> (r, s) = atomic s)"
    and conflict: "attempt s s1 = (None, s') \<Longrightarrow> s' = s1 \<and> view s \<noteq> view s1"
begin

text \<open>The answer and the final store are those of the atomic operation at a store the schedule visits.\<close>

lemma retry_linearizes:
  assumes "retry attempt envs s = (Some r, s')"
  shows "\<exists>t \<in> set (retry_states attempt envs s). (r, s') = atomic t \<or> (r, t) = atomic t"
  using assms
proof (induction envs arbitrary: s)
  case Nil
  then show ?case by simp
next
  case (Cons env envs)
  show ?case
  proof (cases "attempt s (env s)")
    case (Pair ro t)
    show ?thesis
    proof (cases ro)
      case None
      with Pair Cons show ?thesis by auto
    next
      case (Some r0)
      with Pair Cons.prems have "attempt s (env s) = (Some r, s')" by simp
      from linear [OF this] Pair Some show ?thesis by auto
    qed
  qed
qed

lemma quiet_attempt:
  assumes "view (env s) = view s"
  shows "\<exists>r s'. attempt s (env s) = (Some r, s')"
proof (cases "attempt s (env s)")
  case (Pair ro t)
  then show ?thesis using conflict [of s "env s" t] assms by (cases ro) auto
qed

text \<open>Without interference the loop runs once and is the atomic operation.\<close>

lemma retry_quiet:
  "retry attempt (id # envs) s = (Some (fst (atomic s)), snd (atomic s))"
proof -
  obtain r s' where a: "attempt s s = (Some r, s')"
    using quiet_attempt [of id s] by auto
  have at: "atomic s = (r, s')" using linear [OF a] by auto
  show ?thesis by (simp add: a at)
qed

text \<open>One quiet iteration anywhere in the schedule is enough for the loop to return.\<close>

lemma retry_returns:
  assumes "\<And>t. view (env t) = view t"
  shows "\<exists>r s'. retry attempt (pre @ env # post) s = (Some r, s')"
proof (induction pre arbitrary: s)
  case Nil
  obtain r s' where "attempt s (env s) = (Some r, s')"
    using quiet_attempt [of env s] assms by blast
  then show ?case by simp
next
  case (Cons e pre)
  show ?case
  proof (cases "attempt s (e s)")
    case (Pair ro t)
    then show ?thesis using Cons.IH [of t] by (cases ro) auto
  qed
qed

end

section \<open>Cursor scans\<close>

text \<open>
  The loop of the table scans: push rows until the page is full, and report the last pushed key as
  the cursor only when another row exists.
\<close>

fun page_loop ::
  "usize \<Rightarrow> ('k \<times> 'v) list \<Rightarrow> ('k \<times> 'v) list \<Rightarrow> 'k option \<Rightarrow> ('k \<times> 'v) list \<times> 'k option" where
  "page_loop limit [] records last_key = (records, None)"
| "page_loop limit ((k, v) # entries) records last_key =
     (if length records = limit then (records, last_key)
      else page_loop limit entries (records @ [(k, v)]) (Some k))"

definition rows_after :: "'k :: linorder option \<Rightarrow> ('k, 'v) fmap \<Rightarrow> ('k \<times> 'v) list" where
  "rows_after cursor table =
     (case cursor of
        None \<Rightarrow> sorted_list_of_fmap table
      | Some after \<Rightarrow> filter (\<lambda>(k, _). after < k) (sorted_list_of_fmap table))"

definition scan_page ::
  "'k :: linorder option \<Rightarrow> usize \<Rightarrow> ('k, 'v) fmap \<Rightarrow> ('k \<times> 'v) list \<times> 'k option" where
  "scan_page cursor limit table = page_loop limit (rows_after cursor table) [] None"

lemma page_loop_eq:
  assumes "length records \<le> limit" "0 < limit"
    "records \<noteq> [] \<longrightarrow> last_key = Some (fst (last records))"
  shows "page_loop limit entries records last_key =
     (records @ take (limit - length records) entries,
      if length records + length entries > limit
      then Some (fst (last (records @ take (limit - length records) entries))) else None)"
  using assms
proof (induction limit entries records last_key rule: page_loop.induct)
  case (1 limit records last_key)
  then show ?case by simp
next
  case (2 limit k v entries records last_key)
  show ?case
  proof (cases "length records = limit")
    case True
    with 2 show ?thesis by auto
  next
    case False
    with 2 have "page_loop limit ((k, v) # entries) records last_key =
      page_loop limit entries (records @ [(k, v)]) (Some k)" by simp
    also have "\<dots> = (let full = records @ take (limit - length records) ((k, v) # entries) in
        (full, if length records + length ((k, v) # entries) > limit
               then Some (fst (last full)) else None))"
    proof -
      have d: "limit - length records = Suc (limit - Suc (length records))"
        using False "2.prems" by simp
      show ?thesis
        using 2 False by (simp add: d Let_def)
    qed
    finally show ?thesis by (simp add: Let_def)
  qed
qed

lemma scan_page_eq:
  assumes "0 < limit"
  shows "scan_page cursor limit table =
     (let rows = rows_after cursor table in
      (take limit rows, if length rows > limit then Some (fst (rows ! (limit - 1))) else None))"
proof -
  have "fst (last (take limit rows)) = fst (rows ! (limit - 1))"
    if "length rows > limit" for rows :: "('a \<times> 'b) list"
    using that assms by (subst last_conv_nth) (auto simp: min_def)
  then show ?thesis
    using assms by (auto simp: scan_page_def page_loop_eq Let_def)
qed

text \<open>Following the cursors of successive scans of an unchanged table.\<close>

function walk_pages ::
  "'k :: linorder option \<Rightarrow> usize \<Rightarrow> ('k, 'v) fmap \<Rightarrow> ('k \<times> 'v) list" where
  "walk_pages cursor limit table =
     (case scan_page cursor limit table of
        (records, None) \<Rightarrow> records
      | (records, Some next) \<Rightarrow>
          if 0 < limit then records @ walk_pages (Some next) limit table else records)"
  by pat_completeness auto

lemma sorted_keys_fmap: "sorted_wrt (<) (map fst (sorted_list_of_fmap m))"
  by (simp add: sorted_list_of_fmap_def comp_def sorted_list_of_fset.rep_eq)

lemma in_sorted_list_of_fmap [simp]: "(k, v) \<in> set (sorted_list_of_fmap m) \<longleftrightarrow> fmlookup m k = Some v"
proof -
  have "distinct (map fst (sorted_list_of_fmap m))"
    using sorted_keys_fmap [of m] by (simp add: strict_sorted_iff)
  then show ?thesis by (simp add: map_of_eq_Some_iff flip: map_of_sorted_list)
qed

lemma in_map_filter: "y \<in> set (List.map_filter f xs) \<longleftrightarrow> (\<exists>x \<in> set xs. f x = Some y)"
  by (induction xs) (auto split: option.splits)

lemma rows_after_sorted: "sorted_wrt (<) (map fst (rows_after cursor table))"
  using sorted_keys_fmap [of table]
  by (auto simp: rows_after_def sorted_wrt_map sorted_wrt_filter split: option.splits)

lemma rows_after_Some_drop:
  fixes table :: "('k :: linorder, 'v) fmap"
  assumes "rows_after cursor table = xs" "n < length xs"
  shows "rows_after (Some (fst (xs ! n))) table = drop (Suc n) xs"
proof -
  let ?k = "fst (xs ! n)" and ?all = "sorted_list_of_fmap table"
  have sx: "sorted_wrt (<) (map fst xs)" using assms rows_after_sorted by blast
  obtain ys z zs where xs: "xs = ys @ z # zs" and n: "length ys = n"
    using id_take_nth_drop [OF assms(2)] assms(2) by (metis length_take min.absorb4)
  have keep: "filter (\<lambda>(k, _). ?k < k) xs = drop (Suc n) xs"
  proof -
    have lo: "\<forall>x \<in> set ys. fst x < fst z" and hi: "\<forall>x \<in> set zs. fst z < fst x"
      using sx by (auto simp: xs sorted_wrt_append)
    have "filter (\<lambda>(k, _). fst z < k) ys = []"
      using lo by (fastforce simp: filter_empty_conv)
    moreover have "filter (\<lambda>(k, _). fst z < k) zs = zs"
      using hi by (fastforce simp: filter_id_conv)
    ultimately show ?thesis
      using n by (simp add: xs nth_append case_prod_unfold)
  qed
  show ?thesis
  proof (cases cursor)
    case None
    with assms keep show ?thesis by (auto simp: rows_after_def)
  next
    case (Some c)
    have "set xs \<subseteq> {x. c < fst x}" using assms(1) Some by (auto simp: rows_after_def)
    then have "c < ?k" using nth_mem [OF assms(2)] by blast
    then have "filter (\<lambda>(k, _). ?k < k) ?all = filter (\<lambda>(k, _). ?k < k) (filter (\<lambda>(k, _). c < k) ?all)"
      by (auto simp: filter_filter case_prod_unfold intro!: filter_cong)
    with assms Some keep show ?thesis by (simp add: rows_after_def)
  qed
qed

termination walk_pages
proof (relation "measure (\<lambda>(cursor, limit, table). length (rows_after cursor table))", goal_cases)
  case 1
  show ?case by simp
next
  case (2 cursor limit table records next_opt nxt)
  let ?rows = "rows_after cursor table"
  have len: "length ?rows > limit" and nxt: "nxt = fst (?rows ! (limit - 1))"
    using 2 by (auto simp: scan_page_eq Let_def split: if_splits)
  then have "rows_after (Some nxt) table = drop limit ?rows"
    using rows_after_Some_drop [OF refl, of "limit - 1" cursor table] 2 by simp
  with len 2 show ?case by simp
qed

declare walk_pages.simps [simp del]

text \<open>Walking the pages visits every row after the cursor exactly once, in key order.\<close>

lemma walk_pages_complete:
  "0 < limit \<Longrightarrow> walk_pages cursor limit table = rows_after cursor table"
proof (induction cursor limit table rule: walk_pages.induct)
  case (1 cursor limit table)
  let ?rows = "rows_after cursor table"
  show ?case
  proof (cases "length ?rows > limit")
    case False
    with 1 show ?thesis by (simp add: walk_pages.simps [of cursor] scan_page_eq Let_def)
  next
    case True
    let ?k = "fst (?rows ! (limit - 1))"
    from True 1 have sp: "scan_page cursor limit table = (take limit ?rows, Some ?k)"
      by (simp add: scan_page_eq Let_def)
    have d: "rows_after (Some ?k) table = drop limit ?rows"
      using rows_after_Some_drop [OF refl, of "limit - 1" cursor table] True 1 by simp
    from 1 sp have "walk_pages (Some ?k) limit table = rows_after (Some ?k) table" by simp
    with sp 1 d show ?thesis by (simp add: walk_pages.simps [of cursor])
  qed
qed

section \<open>Comparators and stable sorting\<close>

text \<open>\<open>std::cmp::Ordering\<close>, \<open>Ord::cmp\<close>, \<open>Ordering::then_with\<close> and the stable \<open>slice::sort_by\<close>.\<close>

datatype ordering = Less | Equal | Greater

definition cmp :: "'a :: linorder \<Rightarrow> 'a \<Rightarrow> ordering" where
  "cmp a b = (if a < b then Less else if a = b then Equal else Greater)"

fun then_with :: "ordering \<Rightarrow> ordering \<Rightarrow> ordering" where
  "then_with Equal o2 = o2"
| "then_with o1 _ = o1"

fun insert_by :: "('a \<Rightarrow> 'a \<Rightarrow> ordering) \<Rightarrow> 'a \<Rightarrow> 'a list \<Rightarrow> 'a list" where
  "insert_by c x [] = [x]"
| "insert_by c x (y # ys) = (if c x y = Greater then y # insert_by c x ys else x # y # ys)"

definition sort_by :: "('a \<Rightarrow> 'a \<Rightarrow> ordering) \<Rightarrow> 'a list \<Rightarrow> 'a list" where
  "sort_by c xs = foldr (insert_by c) xs []"

lemma set_insert_by [simp]: "set (insert_by c x xs) = insert x (set xs)"
  by (induction xs) auto

lemma mset_insert_by [simp]: "mset (insert_by c x xs) = add_mset x (mset xs)"
  by (induction xs) auto

lemma mset_sort_by [simp]: "mset (sort_by c xs) = mset xs"
  by (induction xs) (simp_all add: sort_by_def)

lemma set_sort_by [simp]: "set (sort_by c xs) = set xs"
  using mset_sort_by [of c xs] by (metis set_mset_mset)

lemma length_sort_by [simp]: "length (sort_by c xs) = length xs"
  by (metis mset_sort_by size_mset)

locale comparator =
  fixes c :: "'a \<Rightarrow> 'a \<Rightarrow> ordering"
  assumes cmp_refl: "c x x = Equal"
    and cmp_flip: "c x y = Greater \<longleftrightarrow> c y x = Less"
    and cmp_trans: "c x y \<noteq> Greater \<Longrightarrow> c y z \<noteq> Greater \<Longrightarrow> c x z \<noteq> Greater"
begin

lemma cmp_total: "c x y \<noteq> Greater \<or> c y x \<noteq> Greater"
  using cmp_flip [of x y] by auto

lemma cmp_equal_sym: "c x y = Equal \<longleftrightarrow> c y x = Equal"
  using cmp_flip [of x y] cmp_flip [of y x] by (cases "c x y"; cases "c y x") auto

lemma less_le_trans: "c x y = Less \<Longrightarrow> c y z \<noteq> Greater \<Longrightarrow> c x z = Less"
  using cmp_trans [of x y z] cmp_trans [of y z x] cmp_flip [of y x] cmp_equal_sym [of x z]
  by (cases "c x z") auto

lemma le_less_trans: "c x y \<noteq> Greater \<Longrightarrow> c y z = Less \<Longrightarrow> c x z = Less"
  using cmp_trans [of x y z] cmp_trans [of z x y] cmp_flip [of z y] cmp_equal_sym [of x z]
  by (cases "c x z") auto

lemma sorted_insert_by:
  "sorted_wrt (\<lambda>a b. c a b \<noteq> Greater) xs \<Longrightarrow> sorted_wrt (\<lambda>a b. c a b \<noteq> Greater) (insert_by c x xs)"
proof (induction xs)
  case (Cons y ys)
  then show ?case
    using cmp_total [of x y] cmp_trans [of x y] by auto
qed simp

lemma sorted_sort_by: "sorted_wrt (\<lambda>a b. c a b \<noteq> Greater) (sort_by c xs)"
  by (induction xs) (simp_all add: sort_by_def sorted_insert_by)

text \<open>Where ties are equalities, the sorted order is a function of the multiset.\<close>

lemma sorted_unique:
  assumes "sorted_wrt (\<lambda>a b. c a b \<noteq> Greater) xs" "sorted_wrt (\<lambda>a b. c a b \<noteq> Greater) ys"
    and "mset xs = mset ys" "\<And>a b. a \<in> set xs \<Longrightarrow> b \<in> set xs \<Longrightarrow> c a b = Equal \<Longrightarrow> a = b"
  shows "xs = ys"
  using assms
proof (induction xs arbitrary: ys)
  case (Cons x xs)
  then obtain y ys' where ys: "ys = y # ys'" by (cases ys) auto
  have set: "set (x # xs) = set ys" using Cons.prems(3) by (metis set_mset_mset)
  have "c x y \<noteq> Greater" using Cons.prems(1) set ys cmp_refl [of x] by (cases "x = y") auto
  moreover have "c y x \<noteq> Greater" using Cons.prems(2) set ys cmp_refl [of x] by (cases "x = y") auto
  ultimately have "c x y = Equal" using cmp_flip [of y x] by (cases "c x y") auto
  moreover have "y \<in> set (x # xs)" using set ys by simp
  ultimately have xy: "x = y" using Cons.prems(4) [of x y] by simp
  with Cons.prems ys have "xs = ys'" by (intro Cons.IH) auto
  with xy ys show ?case by simp
qed simp

lemma sort_by_perm:
  assumes "mset xs = mset ys" "\<And>a b. a \<in> set xs \<Longrightarrow> b \<in> set xs \<Longrightarrow> c a b = Equal \<Longrightarrow> a = b"
  shows "sort_by c xs = sort_by c ys"
  by (rule sorted_unique) (use assms sorted_sort_by in \<open>auto\<close>)

end

lemma comparator_cmp: "comparator cmp"
  by unfold_locales (auto simp: cmp_def split: if_splits)

lemma comparator_on: "comparator c \<Longrightarrow> comparator (\<lambda>x y. c (f x) (f y))"
  unfolding comparator_def by blast

lemma comparator_rev: "comparator c \<Longrightarrow> comparator (\<lambda>x y. c y x)"
  unfolding comparator_def by metis

lemma then_with_Greater: "then_with a b = Greater \<longleftrightarrow> a = Greater \<or> (a = Equal \<and> b = Greater)"
  and then_with_Less: "then_with a b = Less \<longleftrightarrow> a = Less \<or> (a = Equal \<and> b = Less)"
  and then_with_Equal: "then_with a b = Equal \<longleftrightarrow> a = Equal \<and> b = Equal"
  by (cases a; simp)+

lemma comparator_then:
  assumes "comparator c1" "comparator c2"
  shows "comparator (\<lambda>x y. then_with (c1 x y) (c2 x y))"
proof
  show "then_with (c1 x x) (c2 x x) = Equal" for x
    using comparator.cmp_refl assms by (simp add: comparator.cmp_refl)
  show "then_with (c1 x y) (c2 x y) = Greater \<longleftrightarrow> then_with (c1 y x) (c2 y x) = Less" for x y
    using comparator.cmp_flip [OF assms(1), of x y] comparator.cmp_flip [OF assms(2), of x y]
      comparator.cmp_equal_sym [OF assms(1), of x y]
    by (simp add: then_with_Greater then_with_Less)
  show "then_with (c1 x z) (c2 x z) \<noteq> Greater"
    if "then_with (c1 x y) (c2 x y) \<noteq> Greater" "then_with (c1 y z) (c2 y z) \<noteq> Greater" for x y z
  proof (cases "c1 x y = Less \<or> c1 y z = Less")
    case True
    then have "c1 x z = Less"
      using that comparator.less_le_trans [OF assms(1), of x y z] comparator.le_less_trans [OF assms(1), of x y z]
      by (auto simp: then_with_Greater)
    then show ?thesis by (simp add: then_with_Greater)
  next
    case False
    then have "c1 x y = Equal" "c1 y z = Equal" using that ordering.exhaust by (metis then_with_Greater)+
    then show ?thesis
      using that comparator.cmp_trans [OF assms(1), of x y z] comparator.cmp_trans [OF assms(2), of x y z]
      by (auto simp: then_with_Greater)
  qed
qed

lemma cmp_eq_Equal [simp]: "cmp a b = Equal \<longleftrightarrow> a = b"
  by (auto simp: cmp_def)

section \<open>Range counts\<close>

lemma length_key_filter:
  "length (filter (\<lambda>(k, _). P k) (sorted_list_of_fmap m)) = card {k. fmlookup m k \<noteq> None \<and> P k}"
proof -
  let ?xs = "filter (\<lambda>(k, _). P k) (sorted_list_of_fmap m)"
  have "distinct (map fst (sorted_list_of_fmap m))"
    using sorted_keys_fmap [of m] by (simp add: strict_sorted_iff)
  then have d: "distinct (map fst ?xs)"
    by (simp add: distinct_map_filter)
  have "fst ` set ?xs = {k. fmlookup m k \<noteq> None \<and> P k}"
    by (force simp: image_iff)
  then show ?thesis using distinct_card [OF d] by simp
qed

lemma finite_fmlookup: "finite {k. fmlookup m k \<noteq> None \<and> P k}"
  by (rule finite_subset [of _ "fmdom' m"]) (auto simp: fmlookup_dom'_iff)

text \<open>Writing the rows of a table back one by one, in any table that does not hold them yet.\<close>

lemma lookup_foldl_fmupd:
  assumes "distinct (map fst es)"
  shows "fmlookup (foldl (\<lambda>m (k, v). fmupd k v m) m0 es) k =
    (case map_of es k of None \<Rightarrow> fmlookup m0 k | Some v \<Rightarrow> Some v)"
  using assms
proof (induction es arbitrary: m0)
  case (Cons e es)
  obtain a b where e: "e = (a, b)" by force
  show ?case
  proof (cases "k = a")
    case True
    then have "map_of es k = None" using Cons.prems e by (simp add: map_of_eq_None_iff)
    then show ?thesis using Cons True e by simp
  next
    case False
    then show ?thesis using Cons e by (auto split: option.splits)
  qed
qed simp

lemma distinct_sorted_list_of_fmap [simp]: "distinct (map fst (sorted_list_of_fmap m))"
  using sorted_keys_fmap [of m] by (simp add: strict_sorted_iff)

lemma map_of_sorted_list_of_fmap [simp]: "map_of (sorted_list_of_fmap m) k = fmlookup m k"
proof (cases "fmlookup m k")
  case None
  then have "k \<notin> fst ` set (sorted_list_of_fmap m)" by auto
  then show ?thesis using None map_of_eq_None_iff by metis
next
  case (Some v)
  then show ?thesis by simp
qed

lemma foldl_fmupd_rows: "foldl (\<lambda>m (k, v). fmupd k v m) fmempty (sorted_list_of_fmap m) = m"
  by (rule fmap_ext) (simp add: lookup_foldl_fmupd split: option.splits)

end
