(* ===== verification/Ownership.thy ===== *)
theory Ownership
  imports Contracts Interfaces
begin

text \<open>
  The replicated ownership state machine of \<open>peryx-ha-distributed/src/ownership.rs\<close>: which
  datacenter is the home of each authority and at which epoch, the quorum-issued write leases,
  the cluster-singleton grants, and the idempotency window of control commands. Every method of
  \<open>OwnershipState\<close> that a committed command reaches is a definition; each takes the state and
  returns the effect with the new state. Snapshots go through \<open>serde_json\<close>, which is a parameter.
\<close>

section \<open>Data\<close>

type_synonym authority_key = string
type_synonym datacenter_id = string
type_synonym authority_epoch = u64

definition UNASSIGNED :: authority_epoch where
  "UNASSIGNED = 0"

record applied_meta =
  am_term :: u64
  am_index :: u64

datatype assignment_cause = FirstPublish

record assignment =
  as_cause :: assignment_cause
  as_term :: u64
  as_index :: u64
  as_epoch :: authority_epoch

datatype ownership_command =
  AssignHome authority_key datacenter_id assignment_cause
| AdvanceAuthorityEpoch authority_key i64
| BeginEpochWrite authority_key authority_epoch string i64 i64
| FinishEpochWrite authority_key authority_epoch string
| RecordTransfer authority_key datacenter_id i64
| ForgetAuthority authority_key i64
| AcquireSingletonLease string string i64 i64
| RenewSingletonLease string string u64 u64 i64 i64
| ReleaseSingletonLease string string u64 u64 i64
| AttemptControl string control_command i64
| SettleControl string control_command command_receipt i64
| ReleaseControl string control_command i64
| CompleteTransferAudit string string

datatype rejection = NotAssigned | SameHome | EpochMismatch | InvalidLease | WritesInFlight | SingletonLost

datatype control_rejection = CtlNotAssigned | CtlWritesInFlight

datatype control_resolution =
  Committed command_receipt
| Replayed command_receipt
| Claimed
| CtlRejected control_rejection
| KeyReuse

datatype ownership_effect =
  Assigned datacenter_id authority_epoch
| AlreadyAssigned datacenter_id authority_epoch
| EpochAdvanced authority_epoch
| WriteLeased authority_epoch string i64
| WriteFinished
| Transferred datacenter_id datacenter_id authority_epoch
| Forgotten authority_epoch
| AlreadyForgotten
| SingletonAcquired string u64 u64 i64
| SingletonHeld string
| SingletonRenewed i64
| SingletonReleased
| Control control_resolution
| ControlSettled command_receipt
| ControlReleased
| TransferAuditCompleted
| Rejected rejection

record write_lease_record =
  wl_epoch :: authority_epoch
  wl_expires_at_unix :: i64

record authority_record =
  ar_home :: datacenter_id
  ar_epoch :: authority_epoch
  ar_assignment :: assignment
  ar_writes :: "(string, write_lease_record) fmap"

record singleton_hold =
  sh_holder :: string
  sh_term :: u64
  sh_expires_at_unix :: i64

record singleton_record =
  sr_generation :: u64
  sr_held :: "singleton_hold option"

record control_record =
  ct_command :: control_command
  ct_claimed_at_unix :: i64
  ct_receipt :: "command_receipt option"
  ct_audit :: "transfer_audit option"
  ct_audit_projectors :: "string fset"

record ownership_state =
  authorities :: "(authority_key, authority_record) fmap"
  singletons :: "(string, singleton_record) fmap"
  controls :: "(string, control_record) fmap"
  audit_projectors :: "string fset"

definition ownership_new :: ownership_state where
  "ownership_new = \<lparr>authorities = fmempty, singletons = fmempty, controls = fmempty, audit_projectors = {||}\<rparr>"

section \<open>Helpers\<close>

definition hold_lapsed :: "singleton_hold \<Rightarrow> i64 \<Rightarrow> bool" where
  "hold_lapsed h now_unix \<longleftrightarrow>
     now_unix \<ge> i64_saturating_add (sh_expires_at_unix h) AUTHORITY_CLOCK_SKEW_SECS"

definition hold_owned_by :: "singleton_hold \<Rightarrow> string \<Rightarrow> u64 \<Rightarrow> bool" where
  "hold_owned_by h holder term \<longleftrightarrow> sh_term h = term \<and> sh_holder h = holder"

definition bounded_singleton_lease :: "i64 \<Rightarrow> i64 \<Rightarrow> bool" where
  "bounded_singleton_lease now_unix expires_at_unix \<longleftrightarrow>
     expires_at_unix > now_unix \<and> i64_saturating_sub expires_at_unix now_unix \<le> SINGLETON_LEASE_SECS"

definition expire_writes :: "authority_record \<Rightarrow> i64 \<Rightarrow> authority_record" where
  "expire_writes record now_unix =
     record\<lparr>ar_writes := fmretain (\<lambda>_ lease.
        i64_saturating_add (wl_expires_at_unix lease) AUTHORITY_CLOCK_SKEW_SECS > now_unix) (ar_writes record)\<rparr>"

definition put_authority :: "authority_key \<Rightarrow> authority_record \<Rightarrow> ownership_state \<Rightarrow> ownership_state" where
  "put_authority a r s = s\<lparr>authorities := fmupd a r (authorities s)\<rparr>"

definition put_singleton :: "string \<Rightarrow> singleton_record \<Rightarrow> ownership_state \<Rightarrow> ownership_state" where
  "put_singleton j r s = s\<lparr>singletons := fmupd j r (singletons s)\<rparr>"

definition put_control :: "string \<Rightarrow> control_record \<Rightarrow> ownership_state \<Rightarrow> ownership_state" where
  "put_control k r s = s\<lparr>controls := fmupd k r (controls s)\<rparr>"

definition own_epoch :: "ownership_state \<Rightarrow> authority_key \<Rightarrow> authority_epoch" where
  "own_epoch s a = (case fmlookup (authorities s) a of None \<Rightarrow> UNASSIGNED | Some record \<Rightarrow> ar_epoch record)"

definition own_home :: "ownership_state \<Rightarrow> authority_key \<Rightarrow> datacenter_id option" where
  "own_home s a = map_option ar_home (fmlookup (authorities s) a)"

definition own_assignment :: "ownership_state \<Rightarrow> authority_key \<Rightarrow> assignment option" where
  "own_assignment s a = map_option ar_assignment (fmlookup (authorities s) a)"

section \<open>Authority commands\<close>

definition assign_home ::
  "ownership_state \<Rightarrow> authority_key \<Rightarrow> datacenter_id \<Rightarrow> assignment_cause \<Rightarrow> applied_meta \<Rightarrow>
   ownership_effect \<times> ownership_state" where
  "assign_home s authority home cause meta =
     (case fmlookup (authorities s) authority of
        Some record \<Rightarrow> (AlreadyAssigned (ar_home record) (ar_epoch record), s)
      | None \<Rightarrow>
          (let epoch = 1 in
           (Assigned home epoch,
            put_authority authority
              \<lparr>ar_home = home, ar_epoch = epoch,
               ar_assignment = \<lparr>as_cause = cause, as_term = am_term meta, as_index = am_index meta, as_epoch = epoch\<rparr>,
               ar_writes = fmempty\<rparr> s)))"

definition advance_epoch ::
  "ownership_state \<Rightarrow> authority_key \<Rightarrow> i64 \<Rightarrow> ownership_effect \<times> ownership_state" where
  "advance_epoch s authority now_unix =
     (case fmlookup (authorities s) authority of
        None \<Rightarrow> (Rejected NotAssigned, s)
      | Some record0 \<Rightarrow>
          (let record = expire_writes record0 now_unix in
           if \<not> fm_is_empty (ar_writes record)
           then (Rejected WritesInFlight, put_authority authority record s)
           else let epoch = ar_epoch record + 1 in
             (EpochAdvanced epoch, put_authority authority (record\<lparr>ar_epoch := epoch\<rparr>) s)))"

definition begin_write ::
  "ownership_state \<Rightarrow> authority_key \<Rightarrow> authority_epoch \<Rightarrow> string \<Rightarrow> i64 \<Rightarrow> i64 \<Rightarrow>
   ownership_effect \<times> ownership_state" where
  "begin_write s authority epoch write_id issued_at_unix expires_at_unix =
     (case fmlookup (authorities s) authority of
        None \<Rightarrow> (Rejected NotAssigned, s)
      | Some record0 \<Rightarrow>
          (let record = expire_writes record0 issued_at_unix;
               s1 = put_authority authority record s in
           if ar_epoch record \<noteq> epoch then (Rejected EpochMismatch, s1)
           else if expires_at_unix \<le> issued_at_unix
             \<or> i64_saturating_sub expires_at_unix issued_at_unix > AUTHORITY_WRITE_LEASE_SECS
             then (Rejected InvalidLease, s1)
           else (WriteLeased epoch write_id expires_at_unix,
                 put_authority authority
                   (record\<lparr>ar_writes := fmupd write_id \<lparr>wl_epoch = epoch, wl_expires_at_unix = expires_at_unix\<rparr>
                      (ar_writes record)\<rparr>) s)))"

definition finish_write ::
  "ownership_state \<Rightarrow> authority_key \<Rightarrow> authority_epoch \<Rightarrow> string \<Rightarrow> ownership_effect \<times> ownership_state" where
  "finish_write s authority epoch write_id =
     (case fmlookup (authorities s) authority of
        None \<Rightarrow> (Rejected NotAssigned, s)
      | Some record \<Rightarrow>
          (if (case fmlookup (ar_writes record) write_id of None \<Rightarrow> False | Some lease \<Rightarrow> wl_epoch lease \<noteq> epoch)
           then (Rejected EpochMismatch, s)
           else (WriteFinished, put_authority authority (record\<lparr>ar_writes := fmdrop write_id (ar_writes record)\<rparr>) s)))"

definition transfer ::
  "ownership_state \<Rightarrow> authority_key \<Rightarrow> datacenter_id \<Rightarrow> i64 \<Rightarrow> ownership_effect \<times> ownership_state" where
  "transfer s authority new_home now_unix =
     (case fmlookup (authorities s) authority of
        None \<Rightarrow> (Rejected NotAssigned, s)
      | Some record0 \<Rightarrow>
          (if ar_home record0 = new_home then (Rejected SameHome, s)
           else let record = expire_writes record0 now_unix in
             if \<not> fm_is_empty (ar_writes record)
             then (Rejected WritesInFlight, put_authority authority record s)
             else let epoch = ar_epoch record + 1 in
               (Transferred (ar_home record) new_home epoch,
                put_authority authority (record\<lparr>ar_home := new_home, ar_epoch := epoch\<rparr>) s)))"

definition forget ::
  "ownership_state \<Rightarrow> authority_key \<Rightarrow> i64 \<Rightarrow> ownership_effect \<times> ownership_state" where
  "forget s authority now_unix =
     (case fmlookup (authorities s) authority of
        None \<Rightarrow> (AlreadyForgotten, s)
      | Some record0 \<Rightarrow>
          (let record = expire_writes record0 now_unix in
           if \<not> fm_is_empty (ar_writes record)
           then (Rejected WritesInFlight, put_authority authority record s)
           else (Forgotten (ar_epoch record), s\<lparr>authorities := fmdrop authority (authorities s)\<rparr>)))"

section \<open>Singleton grants\<close>

definition singleton_default :: singleton_record where
  "singleton_default = \<lparr>sr_generation = 0, sr_held = None\<rparr>"

definition acquire_singleton ::
  "ownership_state \<Rightarrow> string \<Rightarrow> string \<Rightarrow> i64 \<Rightarrow> i64 \<Rightarrow> applied_meta \<Rightarrow> ownership_effect \<times> ownership_state" where
  "acquire_singleton s job holder now_unix expires_at_unix meta =
     (if \<not> bounded_singleton_lease now_unix expires_at_unix then (Rejected InvalidLease, s)
      else
        let record = (case fmlookup (singletons s) job of None \<Rightarrow> singleton_default | Some r \<Rightarrow> r);
            s1 = put_singleton job record s;
            grant =
              (let generation = sr_generation record + 1 in
               (SingletonAcquired holder (am_term meta) generation expires_at_unix,
                put_singleton job
                  \<lparr>sr_generation = generation,
                   sr_held = Some \<lparr>sh_holder = holder, sh_term = am_term meta, sh_expires_at_unix = expires_at_unix\<rparr>\<rparr> s1))
        in case sr_held record of
             Some held \<Rightarrow> if \<not> hold_lapsed held now_unix then (SingletonHeld (sh_holder held), s1) else grant
           | None \<Rightarrow> grant)"

definition owned_singleton ::
  "ownership_state \<Rightarrow> string \<Rightarrow> string \<Rightarrow> u64 \<Rightarrow> u64 \<Rightarrow> i64 \<Rightarrow> singleton_record option" where
  "owned_singleton s job holder term generation now_unix =
     (case fmlookup (singletons s) job of
        None \<Rightarrow> None
      | Some record \<Rightarrow>
          (if sr_generation record = generation
             \<and> (case sr_held record of None \<Rightarrow> False
                | Some held \<Rightarrow> hold_owned_by held holder term \<and> \<not> hold_lapsed held now_unix)
           then Some record else None))"

definition renew_singleton ::
  "ownership_state \<Rightarrow> string \<Rightarrow> string \<Rightarrow> u64 \<Rightarrow> u64 \<Rightarrow> i64 \<Rightarrow> i64 \<Rightarrow> ownership_effect \<times> ownership_state" where
  "renew_singleton s job holder term generation now_unix expires_at_unix =
     (if \<not> bounded_singleton_lease now_unix expires_at_unix then (Rejected InvalidLease, s)
      else case owned_singleton s job holder term generation now_unix of
             None \<Rightarrow> (Rejected SingletonLost, s)
           | Some record \<Rightarrow>
               (SingletonRenewed expires_at_unix,
                put_singleton job
                  (record\<lparr>sr_held := Some \<lparr>sh_holder = holder, sh_term = term, sh_expires_at_unix = expires_at_unix\<rparr>\<rparr>) s))"

definition release_singleton ::
  "ownership_state \<Rightarrow> string \<Rightarrow> string \<Rightarrow> u64 \<Rightarrow> u64 \<Rightarrow> i64 \<Rightarrow> ownership_effect \<times> ownership_state" where
  "release_singleton s job holder term generation now_unix =
     (case owned_singleton s job holder term generation now_unix of
        None \<Rightarrow> (Rejected SingletonLost, s)
      | Some record \<Rightarrow> (SingletonReleased, put_singleton job (record\<lparr>sr_held := None\<rparr>) s))"

section \<open>The control idempotency window\<close>

definition prune_controls :: "ownership_state \<Rightarrow> i64 \<Rightarrow> ownership_state" where
  "prune_controls s now_unix =
     s\<lparr>controls := fmretain (\<lambda>_ record.
        ct_audit record \<noteq> None
        \<or> i64_saturating_sub now_unix (ct_claimed_at_unix record) < CONTROL_IDEMPOTENCY_SECS) (controls s)\<rparr>"

definition bind_control ::
  "ownership_state \<Rightarrow> string \<Rightarrow> control_command \<Rightarrow> i64 \<Rightarrow> command_receipt option \<Rightarrow> transfer_audit option \<Rightarrow>
   string fset \<Rightarrow> ownership_state" where
  "bind_control s key command now_unix receipt audit projectors =
     put_control key
       \<lparr>ct_command = command, ct_claimed_at_unix = now_unix, ct_receipt = receipt, ct_audit = audit,
        ct_audit_projectors = projectors\<rparr> s"

fun control_outcome :: "ownership_effect \<Rightarrow> (control_rejection, command_outcome) result" where
  "control_outcome (Rejected SameHome) = Inr OutcomeNoChange"
| "control_outcome AlreadyForgotten = Inr OutcomeNoChange"
| "control_outcome (Rejected NotAssigned) = Inl CtlNotAssigned"
| "control_outcome (Rejected WritesInFlight) = Inl CtlWritesInFlight"
| "control_outcome _ = Inr OutcomeCommitted"

fun apply_control ::
  "ownership_state \<Rightarrow> control_command \<Rightarrow> i64 \<Rightarrow> (ownership_effect \<times> ownership_state) option" where
  "apply_control s (TransferAuthority authority new_home _) now_unix = Some (transfer s authority new_home now_unix)"
| "apply_control s (AdvanceEpoch authority) now_unix = Some (advance_epoch s authority now_unix)"
| "apply_control s (CtlForgetAuthority authority) now_unix = Some (forget s authority now_unix)"
| "apply_control s (AddLearner _ _) now_unix = None"
| "apply_control s (PromoteVoter _) now_unix = None"
| "apply_control s (RemoveVoter _) now_unix = None"
| "apply_control s (ReplaceVoter _ _ _) now_unix = None"

definition seal_transfer_audit ::
  "ownership_state \<Rightarrow> control_command \<Rightarrow> applied_meta \<Rightarrow> transfer_audit option" where
  "seal_transfer_audit s command meta =
     (case command of
        TransferAuthority authority new_home intent_opt \<Rightarrow>
          (case intent_opt of
             None \<Rightarrow> None
           | Some intent \<Rightarrow>
               Some \<lparr>ta_authority = authority, ta_source = ti_source intent, ta_target = new_home,
                     ta_actor = ti_actor intent, ta_reason = ti_reason intent, ta_barrier = ti_barrier intent,
                     ta_epoch = own_epoch s authority, ta_commit_term = am_term meta,
                     ta_commit_index = am_index meta\<rparr>)
      | _ \<Rightarrow> None)"

definition attempt_control ::
  "ownership_state \<Rightarrow> string \<Rightarrow> control_command \<Rightarrow> i64 \<Rightarrow> applied_meta \<Rightarrow> control_resolution \<times> ownership_state" where
  "attempt_control s0 key command now_unix meta =
     (let s = prune_controls s0 now_unix in
      case fmlookup (controls s) key of
        Some record \<Rightarrow>
          (if ct_command record \<noteq> command then (KeyReuse, s)
           else case ct_receipt record of None \<Rightarrow> (Claimed, s) | Some receipt \<Rightarrow> (Replayed receipt, s))
      | None \<Rightarrow>
          (case apply_control s command now_unix of
             None \<Rightarrow> (Claimed, bind_control s key command now_unix None None {||})
           | Some (effect, s1) \<Rightarrow>
               (case control_outcome effect of
                  Inl rejection \<Rightarrow> (CtlRejected rejection, s1)
                | Inr outcome \<Rightarrow>
                    (let audit = seal_transfer_audit s1 command meta;
                         projectors = (case audit of None \<Rightarrow> {||} | Some _ \<Rightarrow> audit_projectors s1);
                         receipt = \<lparr>cr_term = am_term meta, cr_index = am_index meta, cr_outcome = outcome,
                                    cr_old_voters = [], cr_new_voters = [], cr_transfer_audit = audit\<rparr>
                     in (Committed receipt, bind_control s1 key command now_unix (Some receipt) audit projectors)))))"

definition settle_control ::
  "ownership_state \<Rightarrow> string \<Rightarrow> control_command \<Rightarrow> command_receipt \<Rightarrow> i64 \<Rightarrow> command_receipt \<times> ownership_state" where
  "settle_control s0 key command receipt now_unix =
     (let s = prune_controls s0 now_unix;
          record = (case fmlookup (controls s) key of
                      Some record \<Rightarrow> record
                    | None \<Rightarrow> \<lparr>ct_command = command, ct_claimed_at_unix = now_unix, ct_receipt = None,
                               ct_audit = None, ct_audit_projectors = {||}\<rparr>);
          kept = (case ct_receipt record of Some r \<Rightarrow> r | None \<Rightarrow> receipt)
      in (kept, put_control key (record\<lparr>ct_receipt := Some kept\<rparr>) s))"

definition release_control :: "ownership_state \<Rightarrow> string \<Rightarrow> control_command \<Rightarrow> i64 \<Rightarrow> ownership_state" where
  "release_control s0 key command now_unix =
     (let s = prune_controls s0 now_unix in
      if (case fmlookup (controls s) key of None \<Rightarrow> False
          | Some record \<Rightarrow> ct_receipt record = None \<and> ct_command record = command)
      then s\<lparr>controls := fmdrop key (controls s)\<rparr> else s)"

definition complete_transfer_audit :: "ownership_state \<Rightarrow> string \<Rightarrow> string \<Rightarrow> ownership_state" where
  "complete_transfer_audit s key projector =
     (case fmlookup (controls s) key of
        None \<Rightarrow> s
      | Some record \<Rightarrow>
          (let projectors = ct_audit_projectors record |-| {|projector|};
               record1 = record\<lparr>ct_audit_projectors := projectors\<rparr>
           in put_control key (if projectors = {||} then record1\<lparr>ct_audit := None\<rparr> else record1) s))"

definition pending_transfer_audits :: "ownership_state \<Rightarrow> string \<Rightarrow> (string \<times> transfer_audit) list" where
  "pending_transfer_audits s projector =
     List.map_filter (\<lambda>(key, record).
        case ct_audit record of
          None \<Rightarrow> None
        | Some audit \<Rightarrow> if projector |\<in>| ct_audit_projectors record then Some (key, audit) else None)
      (sorted_list_of_fmap (controls s))"

definition reproject_record :: "string fset \<Rightarrow> control_record \<Rightarrow> control_record" where
  "reproject_record projectors record0 =
     (let record =
        (case (ct_audit record0, ct_receipt record0) of
           (Some audit, Some receipt) \<Rightarrow>
             (if cr_transfer_audit receipt = None
              then record0\<lparr>ct_receipt := Some (receipt\<lparr>cr_transfer_audit := Some audit\<rparr>)\<rparr> else record0)
         | _ \<Rightarrow> record0)
      in if projectors \<noteq> {||} then
           (if ct_audit record \<noteq> None \<and> ct_audit_projectors record = {||}
            then record\<lparr>ct_audit_projectors := projectors\<rparr>
            else let kept = ffilter (\<lambda>p. p |\<in>| projectors) (ct_audit_projectors record);
                     record1 = record\<lparr>ct_audit_projectors := kept\<rparr>
                 in if kept = {||} then record1\<lparr>ct_audit := None\<rparr> else record1)
         else record)"

definition set_audit_projectors :: "ownership_state \<Rightarrow> string fset \<Rightarrow> ownership_state" where
  "set_audit_projectors s projectors =
     s\<lparr>controls := fmmap (reproject_record projectors) (controls s), audit_projectors := projectors\<rparr>"

section \<open>The dispatcher\<close>

fun own_apply :: "ownership_state \<Rightarrow> ownership_command \<Rightarrow> applied_meta \<Rightarrow> ownership_effect \<times> ownership_state" where
  "own_apply s (AssignHome authority home cause) meta = assign_home s authority home cause meta"
| "own_apply s (AdvanceAuthorityEpoch authority now_unix) meta = advance_epoch s authority now_unix"
| "own_apply s (BeginEpochWrite authority epoch write_id issued_at_unix expires_at_unix) meta =
     begin_write s authority epoch write_id issued_at_unix expires_at_unix"
| "own_apply s (FinishEpochWrite authority epoch write_id) meta = finish_write s authority epoch write_id"
| "own_apply s (RecordTransfer authority new_home now_unix) meta = transfer s authority new_home now_unix"
| "own_apply s (ForgetAuthority authority now_unix) meta = forget s authority now_unix"
| "own_apply s (AcquireSingletonLease job holder now_unix expires_at_unix) meta =
     acquire_singleton s job holder now_unix expires_at_unix meta"
| "own_apply s (RenewSingletonLease job holder term generation now_unix expires_at_unix) meta =
     renew_singleton s job holder term generation now_unix expires_at_unix"
| "own_apply s (ReleaseSingletonLease job holder term generation now_unix) meta =
     release_singleton s job holder term generation now_unix"
| "own_apply s (AttemptControl key command now_unix) meta =
     (case attempt_control s key command now_unix meta of (resolution, s') \<Rightarrow> (Control resolution, s'))"
| "own_apply s (SettleControl key command receipt now_unix) meta =
     (case settle_control s key command receipt now_unix of (kept, s') \<Rightarrow> (ControlSettled kept, s'))"
| "own_apply s (ReleaseControl key command now_unix) meta =
     (ControlReleased, release_control s key command now_unix)"
| "own_apply s (CompleteTransferAudit key projector) meta =
     (TransferAuditCompleted, complete_transfer_audit s key projector)"

section \<open>Snapshots\<close>

text \<open>\<open>serde_json\<close> is the pair \<open>to_vec\<close>, \<open>from_slice\<close>; \<open>None\<close> is its decode error.\<close>

datatype ownership_error = SnapshotMalformed | ZeroEpoch string

definition own_snapshot :: "(ownership_state \<Rightarrow> 'bytes) \<Rightarrow> ownership_state \<Rightarrow> 'bytes" where
  "own_snapshot to_vec s = to_vec s"

definition own_restore :: "('bytes \<Rightarrow> ownership_state option) \<Rightarrow> 'bytes \<Rightarrow> (ownership_error, ownership_state) result" where
  "own_restore from_slice bytes =
     (case from_slice bytes of
        None \<Rightarrow> Inl SnapshotMalformed
      | Some state \<Rightarrow>
          (case find (\<lambda>(_, record). ar_epoch record = UNASSIGNED) (sorted_list_of_fmap (authorities state)) of
             Some (authority, _) \<Rightarrow> Inl (ZeroEpoch authority)
           | None \<Rightarrow> Inr state))"


section \<open>The replicated log\<close>

text \<open>
  The consensus adapter drives the machine with committed commands and, on a membership change,
  with the new projector roster.
\<close>

datatype own_input = OwnCommand ownership_command applied_meta | OwnProjectors "string fset"

fun own_step :: "ownership_state \<Rightarrow> own_input \<Rightarrow> ownership_state" where
  "own_step s (OwnCommand c m) = snd (own_apply s c m)"
| "own_step s (OwnProjectors ps) = set_audit_projectors s ps"

abbreviation own_run :: "ownership_state \<Rightarrow> own_input list \<Rightarrow> ownership_state" where
  "own_run \<equiv> foldl own_step"

text \<open>The clock a command carries; commands without one never let a lease lapse.\<close>

fun command_clock :: "ownership_command \<Rightarrow> i64 option" where
  "command_clock (AssignHome _ _ _) = None"
| "command_clock (AdvanceAuthorityEpoch _ now_unix) = Some now_unix"
| "command_clock (BeginEpochWrite _ _ _ issued_at_unix _) = Some issued_at_unix"
| "command_clock (FinishEpochWrite _ _ _) = None"
| "command_clock (RecordTransfer _ _ now_unix) = Some now_unix"
| "command_clock (ForgetAuthority _ now_unix) = Some now_unix"
| "command_clock (AcquireSingletonLease _ _ now_unix _) = Some now_unix"
| "command_clock (RenewSingletonLease _ _ _ _ now_unix _) = Some now_unix"
| "command_clock (ReleaseSingletonLease _ _ _ _ now_unix) = Some now_unix"
| "command_clock (AttemptControl _ _ now_unix) = Some now_unix"
| "command_clock (SettleControl _ _ _ now_unix) = Some now_unix"
| "command_clock (ReleaseControl _ _ now_unix) = Some now_unix"
| "command_clock (CompleteTransferAudit _ _) = None"

fun own_clock :: "own_input \<Rightarrow> i64 option" where
  "own_clock (OwnCommand c _) = command_clock c"
| "own_clock (OwnProjectors _) = None"

fun forgets :: "authority_key \<Rightarrow> own_input \<Rightarrow> bool" where
  "forgets a (OwnCommand (ForgetAuthority b _) _) = (a = b)"
| "forgets a (OwnCommand (AttemptControl _ (CtlForgetAuthority b) _) _) = (a = b)"
| "forgets a _ = False"

text \<open>The commands of the lease \<open>write_id\<close> itself: its end, or another grant under the same name.\<close>

fun touches_lease :: "authority_key \<Rightarrow> string \<Rightarrow> own_input \<Rightarrow> bool" where
  "touches_lease a write_id (OwnCommand (BeginEpochWrite b _ i _ _) _) = (a = b \<and> write_id = i)"
| "touches_lease a write_id (OwnCommand (FinishEpochWrite b _ i) _) = (a = b \<and> write_id = i)"
| "touches_lease a write_id _ = False"

subsection \<open>What an input does to the authority table\<close>

text \<open>Every input changes the authority table in one of these ways; the lemmas below rest on it.\<close>

inductive authority_step ::
  "own_input \<Rightarrow> (authority_key, authority_record) fmap \<Rightarrow> (authority_key, authority_record) fmap \<Rightarrow> bool" for i where
  keep: "authority_step i m m"
| expire: "fmlookup m a = Some r \<Longrightarrow> own_clock i = Some t \<Longrightarrow> authority_step i m (fmupd a (expire_writes r t) m)"
| assign: "fmlookup m a = None \<Longrightarrow> ar_epoch r = 1 \<Longrightarrow> as_epoch (ar_assignment r) = 1 \<Longrightarrow> ar_writes r = fmempty \<Longrightarrow>
    authority_step i m (fmupd a r m)"
| advance: "fmlookup m a = Some r \<Longrightarrow> own_clock i = Some t \<Longrightarrow> fm_is_empty (ar_writes (expire_writes r t)) \<Longrightarrow>
    authority_step i m (fmupd a (expire_writes r t\<lparr>ar_epoch := ar_epoch r + 1\<rparr>) m)"
| move: "fmlookup m a = Some r \<Longrightarrow> own_clock i = Some t \<Longrightarrow> fm_is_empty (ar_writes (expire_writes r t)) \<Longrightarrow>
    h \<noteq> ar_home r \<Longrightarrow>
    authority_step i m (fmupd a (expire_writes r t\<lparr>ar_home := h, ar_epoch := ar_epoch r + 1\<rparr>) m)"
| lease: "fmlookup m a = Some r \<Longrightarrow> own_clock i = Some t \<Longrightarrow> touches_lease a w i \<Longrightarrow> t < x \<Longrightarrow>
    authority_step i m (fmupd a (expire_writes r t\<lparr>ar_writes :=
      fmupd w \<lparr>wl_epoch = ar_epoch r, wl_expires_at_unix = x\<rparr> (ar_writes (expire_writes r t))\<rparr>) m)"
| finish: "fmlookup m a = Some r \<Longrightarrow> touches_lease a w i \<Longrightarrow>
    authority_step i m (fmupd a (r\<lparr>ar_writes := fmdrop w (ar_writes r)\<rparr>) m)"
| drop: "fmlookup m a = Some r \<Longrightarrow> own_clock i = Some t \<Longrightarrow> fm_is_empty (ar_writes (expire_writes r t)) \<Longrightarrow>
    forgets a i \<Longrightarrow> authority_step i m (fmdrop a m)"

lemma expire_writes_simps [simp]:
  "ar_home (expire_writes r t) = ar_home r"
  "ar_epoch (expire_writes r t) = ar_epoch r"
  "ar_assignment (expire_writes r t) = ar_assignment r"
  by (simp_all add: expire_writes_def)

lemma put_simps [simp]:
  "authorities (put_authority a r s) = fmupd a r (authorities s)"
  "singletons (put_authority a r s) = singletons s"
  "controls (put_authority a r s) = controls s"
  "audit_projectors (put_authority a r s) = audit_projectors s"
  "authorities (put_singleton j sr s) = authorities s"
  "singletons (put_singleton j sr s) = fmupd j sr (singletons s)"
  "controls (put_singleton j sr s) = controls s"
  "audit_projectors (put_singleton j sr s) = audit_projectors s"
  "authorities (put_control k cr s) = authorities s"
  "singletons (put_control k cr s) = singletons s"
  "controls (put_control k cr s) = fmupd k cr (controls s)"
  "audit_projectors (put_control k cr s) = audit_projectors s"
  "authorities (prune_controls s t) = authorities s"
  "singletons (prune_controls s t) = singletons s"
  "audit_projectors (prune_controls s t) = audit_projectors s"
  by (simp_all add: put_authority_def put_singleton_def put_control_def prune_controls_def)

text \<open>Each operation on one authority is a step of the table, whichever input carries its clock.\<close>

lemma advance_epoch_step:
  "own_clock i = Some t \<Longrightarrow> authority_step i (authorities s) (authorities (snd (advance_epoch s a t)))"
  by (auto simp: advance_epoch_def Let_def split: option.splits intro: authority_step.intros)

lemma transfer_step:
  "own_clock i = Some t \<Longrightarrow> authority_step i (authorities s) (authorities (snd (transfer s a h t)))"
  by (auto simp: transfer_def Let_def split: option.splits intro: authority_step.intros)

lemma forget_step:
  "own_clock i = Some t \<Longrightarrow> forgets a i \<Longrightarrow> authority_step i (authorities s) (authorities (snd (forget s a t)))"
  by (auto simp: forget_def Let_def split: option.splits intro: authority_step.intros)

lemma apply_control_authorities:
  assumes "apply_control s c t = Some (e, s')" "own_clock i = Some t"
    and "\<And>a. c = CtlForgetAuthority a \<Longrightarrow> forgets a i"
  shows "authority_step i (authorities s) (authorities s')"
proof (cases c)
  case (TransferAuthority a h intent)
  with assms(1,2) transfer_step [of i t s a h] show ?thesis by simp
next
  case (AdvanceEpoch a)
  with assms(1,2) advance_epoch_step [of i t s a] show ?thesis by simp
next
  case (CtlForgetAuthority a)
  with assms forget_step [of i t a s] show ?thesis by simp
qed (use assms(1) in simp_all)

lemma attempt_control_authorities:
  assumes "own_clock i = Some t" "\<And>a. c = CtlForgetAuthority a \<Longrightarrow> forgets a i"
  shows "authority_step i (authorities s) (authorities (snd (attempt_control s k c t m)))"
proof (cases "apply_control (prune_controls s t) c t")
  case None
  then show ?thesis
    by (auto simp: attempt_control_def Let_def bind_control_def split: option.splits intro: keep)
next
  case (Some p)
  obtain e s' where p: "p = (e, s')" by (cases p)
  with Some assms apply_control_authorities [of "prune_controls s t" c t e s' i]
  have "authority_step i (authorities s) (authorities s')" by simp
  with Some p show ?thesis
    by (auto simp: attempt_control_def Let_def bind_control_def split: option.splits sum.splits intro: keep)
qed

lemma own_step_authorities: "authority_step i (authorities s) (authorities (own_step s i))"
proof (cases i)
  case (OwnProjectors ps)
  then show ?thesis by (simp add: set_audit_projectors_def keep)
next
  case (OwnCommand c m)
  show ?thesis
  proof (cases c)
    case (AttemptControl k cc t)
    with OwnCommand attempt_control_authorities [of i t cc s k m] show ?thesis
      by (simp add: case_prod_unfold)
  next
    case (AdvanceAuthorityEpoch a t)
    with OwnCommand advance_epoch_step [of i t s a] show ?thesis by simp
  next
    case (RecordTransfer a h t)
    with OwnCommand transfer_step [of i t s a h] show ?thesis by simp
  next
    case (ForgetAuthority a t)
    with OwnCommand forget_step [of i t a s] show ?thesis by simp
  next
    case (BeginEpochWrite a e w t x)
    with OwnCommand show ?thesis
      by (auto simp: begin_write_def Let_def split: option.splits intro: expire keep lease)
  next
    case (FinishEpochWrite a e w)
    with OwnCommand show ?thesis
      by (auto simp: finish_write_def split: option.splits intro: keep finish)
  next
    case (AssignHome a h cause)
    with OwnCommand show ?thesis
      by (auto simp: assign_home_def Let_def split: option.splits intro: keep assign)
  next
    case (SettleControl k cc r t)
    with OwnCommand show ?thesis by (simp add: settle_control_def Let_def keep)
  qed (use OwnCommand in \<open>auto simp: acquire_singleton_def renew_singleton_def release_singleton_def
      release_control_def complete_transfer_audit_def Let_def keep split: option.splits\<close>)
qed

subsection \<open>What an input does to the singleton table\<close>

definition singleton_of :: "(string, singleton_record) fmap \<Rightarrow> string \<Rightarrow> singleton_record" where
  "singleton_of m j = (case fmlookup m j of None \<Rightarrow> singleton_default | Some r \<Rightarrow> r)"

definition generation :: "ownership_state \<Rightarrow> string \<Rightarrow> u64" where
  "generation s j = sr_generation (singleton_of (singletons s) j)"

definition grant_free :: "singleton_record \<Rightarrow> i64 \<Rightarrow> bool" where
  "grant_free r t = (case sr_held r of None \<Rightarrow> True | Some held \<Rightarrow> hold_lapsed held t)"

text \<open>The renewals and releases that present the generation \<open>g\<close> of the job \<open>j\<close>.\<close>

fun presents :: "string \<Rightarrow> u64 \<Rightarrow> own_input \<Rightarrow> bool" where
  "presents j g (OwnCommand (RenewSingletonLease j' _ _ g' _ _) _) = (j = j' \<and> g = g')"
| "presents j g (OwnCommand (ReleaseSingletonLease j' _ _ g' _) _) = (j = j' \<and> g = g')"
| "presents j g _ = False"

inductive singleton_step ::
  "own_input \<Rightarrow> (string, singleton_record) fmap \<Rightarrow> (string, singleton_record) fmap \<Rightarrow> bool" for i where
  same: "(\<And>j. singleton_of m' j = singleton_of m j) \<Longrightarrow> singleton_step i m m'"
| grant: "own_clock i = Some t \<Longrightarrow> grant_free (singleton_of m j) t \<Longrightarrow> m' = fmupd j r m \<Longrightarrow>
    sr_generation r = sr_generation (singleton_of m j) + 1 \<Longrightarrow> sr_held r \<noteq> None \<Longrightarrow> singleton_step i m m'"
| present: "presents j (sr_generation r) i \<Longrightarrow> fmlookup m j = Some r \<Longrightarrow> sr_held r \<noteq> None \<Longrightarrow>
    m' = fmupd j (r\<lparr>sr_held := h\<rparr>) m \<Longrightarrow> singleton_step i m m'"

lemma singleton_of_upd [simp]: "singleton_of (fmupd j r m) k = (if k = j then r else singleton_of m k)"
  by (simp add: singleton_of_def)

lemma acquire_singleton_step:
  assumes "own_clock i = Some t"
  shows "singleton_step i (singletons s) (singletons (snd (acquire_singleton s j h t x m)))"
proof (cases "bounded_singleton_lease t x")
  case False
  then show ?thesis by (simp add: acquire_singleton_def same)
next
  case True
  let ?r = "singleton_of (singletons s) j"
  have s1: "singletons (put_singleton j ?r s) = fmupd j ?r (singletons s)" by simp
  show ?thesis
  proof (cases "grant_free ?r t")
    case False
    then have "singletons (snd (acquire_singleton s j h t x m)) = fmupd j ?r (singletons s)"
      using True by (auto simp: acquire_singleton_def singleton_of_def grant_free_def Let_def split: option.splits)
    then show ?thesis by (auto intro: same)
  next
    case free: True
    let ?g = "\<lparr>sr_generation = sr_generation ?r + 1,
      sr_held = Some \<lparr>sh_holder = h, sh_term = am_term m, sh_expires_at_unix = x\<rparr>\<rparr>"
    have "singletons (snd (acquire_singleton s j h t x m)) = fmupd j ?g (singletons s)"
      using True free by (auto simp: acquire_singleton_def singleton_of_def grant_free_def Let_def split: option.splits)
    then show ?thesis using free assms by (auto intro: grant [OF assms free])
  qed
qed

lemma owned_singleton_Some:
  "owned_singleton s j h tm g t = Some r \<Longrightarrow> fmlookup (singletons s) j = Some r \<and> sr_generation r = g \<and> sr_held r \<noteq> None"
  by (auto simp: owned_singleton_def split: option.splits if_splits)

lemma apply_control_singletons: "apply_control s c t = Some (e, s') \<Longrightarrow> singletons s' = singletons s"
  by (cases c) (auto simp: transfer_def advance_epoch_def forget_def Let_def split: option.splits if_splits)

lemma own_step_singletons: "singleton_step i (singletons s) (singletons (own_step s i))"
proof (cases i)
  case (OwnProjectors ps)
  then show ?thesis by (simp add: set_audit_projectors_def same)
next
  case (OwnCommand c m)
  show ?thesis
  proof (cases c)
    case (AcquireSingletonLease j h t x)
    with OwnCommand acquire_singleton_step [of i t s j h x m] show ?thesis by simp
  next
    case (RenewSingletonLease j h tm g t x)
    with OwnCommand show ?thesis
      by (auto simp: renew_singleton_def same dest!: owned_singleton_Some split: option.splits intro: present)
  next
    case (ReleaseSingletonLease j h tm g t)
    with OwnCommand show ?thesis
      by (auto simp: release_singleton_def same dest!: owned_singleton_Some split: option.splits intro: present)
  next
    case (AttemptControl k cc t)
    with OwnCommand show ?thesis
      by (auto simp: attempt_control_def Let_def bind_control_def same
          split: option.splits sum.splits prod.splits dest!: apply_control_singletons)
  qed (use OwnCommand in \<open>auto simp: assign_home_def advance_epoch_def begin_write_def finish_write_def
      transfer_def forget_def settle_control_def release_control_def complete_transfer_audit_def
      Let_def same split: option.splits\<close>)
qed

subsection \<open>What an input does to the control table\<close>

inductive control_step ::
  "own_input \<Rightarrow> (string, control_record) fmap \<Rightarrow> (string, control_record) fmap \<Rightarrow> bool" for i where
  ckeep: "control_step i m m"
| cpruned: "own_clock i = Some t \<Longrightarrow> m1 = controls (prune_controls s t) \<Longrightarrow> controls s = m \<Longrightarrow> control_step i m m1"
| cbind: "own_clock i = Some t \<Longrightarrow> m1 = controls (prune_controls s t) \<Longrightarrow> controls s = m \<Longrightarrow>
    fmlookup m1 k = None \<Longrightarrow> ct_audit r = None \<longrightarrow> ct_audit_projectors r = {||} \<Longrightarrow>
    \<forall>a. ct_audit r = Some a \<longrightarrow> (\<exists>rc. ct_receipt r = Some rc \<and> cr_transfer_audit rc = Some a) \<Longrightarrow>
    control_step i m (fmupd k r m1)"
| csettle: "own_clock i = Some t \<Longrightarrow> m1 = controls (prune_controls s t) \<Longrightarrow> controls s = m \<Longrightarrow>
    fmlookup m1 k = Some r \<Longrightarrow> ct_receipt r = None \<Longrightarrow> control_step i m (fmupd k (r\<lparr>ct_receipt := Some rc\<rparr>) m1)"
| crelease: "own_clock i = Some t \<Longrightarrow> m1 = controls (prune_controls s t) \<Longrightarrow> controls s = m \<Longrightarrow>
    fmlookup m1 k = Some r \<Longrightarrow> ct_receipt r = None \<Longrightarrow> control_step i m (fmdrop k m1)"
| ccomplete: "i = OwnCommand (CompleteTransferAudit k p) meta \<Longrightarrow> fmlookup m k = Some r \<Longrightarrow>
    controls s = m \<Longrightarrow> control_step i m (controls (complete_transfer_audit s k p))"
| cproject: "i = OwnProjectors ps \<Longrightarrow> control_step i m (fmmap (reproject_record ps) m)"

lemma apply_control_controls: "apply_control s c t = Some (e, s') \<Longrightarrow> controls s' = controls s"
  by (cases c) (auto simp: transfer_def advance_epoch_def forget_def Let_def split: option.splits if_splits)

lemma fmupd_same: "fmlookup m k = Some r \<Longrightarrow> fmupd k r m = m"
  by (rule fmap_ext) auto

lemma attempt_control_controls:
  assumes t: "own_clock i = Some t"
  shows "control_step i (controls s) (controls (snd (attempt_control s k c t m)))"
proof (cases "fmlookup (controls (prune_controls s t)) k")
  case (Some r)
  then show ?thesis using cpruned [OF t refl refl]
    by (auto simp: attempt_control_def Let_def split: option.splits)
next
  case None
  show ?thesis
  proof (cases "apply_control (prune_controls s t) c t")
    case na: None
    show ?thesis using None na cbind [OF t refl refl None]
      by (simp add: attempt_control_def Let_def bind_control_def)
  next
    case (Some p)
    obtain e s1 where p: "p = (e, s1)" by (cases p)
    have c1: "controls s1 = controls (prune_controls s t)"
      using apply_control_controls Some p by simp
    show ?thesis
      using None Some p c1 cpruned [OF t refl refl] cbind [OF t refl refl None]
      by (auto simp: attempt_control_def Let_def bind_control_def split: sum.splits option.splits)
  qed
qed

lemma settle_control_controls:
  assumes t: "own_clock i = Some t"
  shows "control_step i (controls s) (controls (snd (settle_control s k c rc t)))"
proof (cases "fmlookup (controls (prune_controls s t)) k")
  case None
  then show ?thesis using cbind [OF t refl refl None]
    by (simp add: settle_control_def Let_def)
next
  case (Some r)
  show ?thesis
  proof (cases "ct_receipt r")
    case None
    then show ?thesis using Some csettle [OF t refl refl Some]
      by (simp add: settle_control_def Let_def)
  next
    case rc: (Some rc')
    then have "r\<lparr>ct_receipt := Some rc'\<rparr> = r" by simp
    then show ?thesis using Some rc cpruned [OF t refl refl]
      by (simp add: settle_control_def Let_def fmupd_same)
  qed
qed

lemma own_step_controls: "control_step i (controls s) (controls (own_step s i))"
proof (cases i)
  case (OwnProjectors ps)
  then show ?thesis by (simp add: set_audit_projectors_def cproject)
next
  case (OwnCommand c m)
  show ?thesis
  proof (cases c)
    case (AttemptControl k cc t)
    with OwnCommand attempt_control_controls [of i t s k cc m] show ?thesis
      by (simp add: case_prod_unfold)
  next
    case (SettleControl k cc rc t)
    with OwnCommand settle_control_controls [of i t s k cc rc] show ?thesis
      by (simp add: case_prod_unfold)
  next
    case (ReleaseControl k cc t)
    then have t: "own_clock i = Some t" using OwnCommand by simp
    from ReleaseControl OwnCommand show ?thesis
      using cpruned [OF t refl refl] crelease [OF t refl refl]
      by (auto simp: release_control_def Let_def split: option.splits)
  next
    case (CompleteTransferAudit k p)
    with OwnCommand show ?thesis
      using ccomplete [of i k p m "controls s" _ s]
      by (cases "fmlookup (controls s) k") (auto simp: complete_transfer_audit_def ckeep)
  qed (use OwnCommand in \<open>auto simp: assign_home_def advance_epoch_def begin_write_def finish_write_def
      transfer_def forget_def acquire_singleton_def renew_singleton_def release_singleton_def
      Let_def ckeep split: option.splits\<close>)
qed

section \<open>The invariant\<close>

definition authority_inv :: "authority_record \<Rightarrow> bool" where
  "authority_inv r \<longleftrightarrow> ar_epoch r \<noteq> UNASSIGNED \<and> as_epoch (ar_assignment r) = 1
     \<and> fmpred (\<lambda>_ l. wl_epoch l = ar_epoch r) (ar_writes r)"

definition singleton_inv :: "singleton_record \<Rightarrow> bool" where
  "singleton_inv r \<longleftrightarrow> (sr_held r \<noteq> None \<longrightarrow> sr_generation r \<noteq> 0)"

definition control_inv :: "control_record \<Rightarrow> bool" where
  "control_inv r \<longleftrightarrow>
     (case ct_audit r of
        None \<Rightarrow> ct_audit_projectors r = {||}
      | Some a \<Rightarrow> (case ct_receipt r of None \<Rightarrow> False | Some rc \<Rightarrow> cr_transfer_audit rc = Some a))"

definition own_inv :: "ownership_state \<Rightarrow> bool" where
  "own_inv s \<longleftrightarrow> fmpred (\<lambda>_. authority_inv) (authorities s) \<and> fmpred (\<lambda>_. singleton_inv) (singletons s)
     \<and> fmpred (\<lambda>_. control_inv) (controls s)"

text \<open>No counter is at the top of its range, so no increment wraps.\<close>

definition counters_ok :: "ownership_state \<Rightarrow> own_input \<Rightarrow> bool" where
  "counters_ok s i \<longleftrightarrow> fmpred (\<lambda>_ r. ar_epoch r \<noteq> u64_max) (authorities s)
     \<and> fmpred (\<lambda>_ r. sr_generation r \<noteq> u64_max) (singletons s)"

lemma fmpredI: "(\<And>k v. fmlookup m k = Some v \<Longrightarrow> P k v) \<Longrightarrow> fmpred P m"
  by (simp add: fmpred_iff)

lemma expire_writes_inv: "authority_inv r \<Longrightarrow> authority_inv (expire_writes r t)"
  by (auto simp: authority_inv_def expire_writes_def fmpred_iff split: option.splits if_splits)

lemma fmpred_empty_writes: "fm_is_empty m \<Longrightarrow> fmpred P m"
  by (simp add: fm_is_empty_iff fmpred_iff)

lemma authority_step_inv:
  assumes "authority_step i m m'" "fmpred (\<lambda>_. authority_inv) m" "fmpred (\<lambda>_ r. ar_epoch r \<noteq> u64_max) m"
  shows "fmpred (\<lambda>_. authority_inv) m'"
  using assms(1)
proof cases
  case (expire a r t)
  then show ?thesis using assms(2) expire_writes_inv by (auto simp: fmpred_iff)
next
  case (assign a r)
  then show ?thesis using assms(2) by (auto simp: fmpred_iff authority_inv_def UNASSIGNED_def)
next
  case (advance a r t)
  then show ?thesis using assms(2,3) u64_plus_1_nonzero [of "ar_epoch r"]
    by (auto simp: fmpred_iff authority_inv_def UNASSIGNED_def fm_is_empty_iff)
next
  case (move a r t h)
  then show ?thesis using assms(2,3) u64_plus_1_nonzero [of "ar_epoch r"]
    by (auto simp: fmpred_iff authority_inv_def UNASSIGNED_def fm_is_empty_iff)
next
  case (lease a r t w x)
  then have "authority_inv (expire_writes r t)" using assms(2) expire_writes_inv by (auto simp: fmpred_iff)
  then show ?thesis using lease assms(2) by (auto simp: fmpred_iff authority_inv_def)
next
  case (finish a r w)
  then show ?thesis using assms(2) by (auto simp: fmpred_iff authority_inv_def split: if_splits)
qed (use assms(2) in \<open>auto simp: fmpred_iff split: if_splits\<close>)

lemma fmpred_singleton_of: "fmpred (\<lambda>_. singleton_inv) m \<longleftrightarrow> (\<forall>j. singleton_inv (singleton_of m j))"
  by (auto simp: fmpred_iff singleton_of_def singleton_default_def singleton_inv_def split: option.splits)

lemma fmpred_generation_of:
  "fmpred (\<lambda>_ r. sr_generation r \<noteq> u64_max) m \<longleftrightarrow> (\<forall>j. sr_generation (singleton_of m j) \<noteq> u64_max)"
  by (auto simp: fmpred_iff singleton_of_def singleton_default_def split: option.splits)

lemma singleton_step_inv:
  assumes "singleton_step i m m'" "fmpred (\<lambda>_. singleton_inv) m" "fmpred (\<lambda>_ r. sr_generation r \<noteq> u64_max) m"
  shows "fmpred (\<lambda>_. singleton_inv) m'"
  using assms(1)
proof cases
  case (present j r h)
  then have "singleton_inv r" using assms(2) by (auto simp: fmpred_iff)
  then show ?thesis using present assms(2) unfolding fmpred_singleton_of
    by (auto simp: singleton_inv_def)
next
  case (grant t j r)
  then show ?thesis using assms(2,3) u64_plus_1_nonzero [of "sr_generation (singleton_of m j)"]
    unfolding fmpred_singleton_of fmpred_generation_of by (auto simp: singleton_inv_def)
qed (use assms(2) in \<open>simp add: fmpred_singleton_of\<close>)

lemma fmpred_prune: "fmpred (\<lambda>_. P) (controls s) \<Longrightarrow> fmpred (\<lambda>_. P) (controls (prune_controls s t))"
  by (auto simp: prune_controls_def fmpred_iff split: option.splits if_splits)

lemma reproject_inv: "control_inv r \<Longrightarrow> control_inv (reproject_record ps r)"
  by (auto simp: control_inv_def reproject_record_def Let_def split: option.splits)

lemma fmpred_upd: "fmpred (\<lambda>_. P) m \<Longrightarrow> P r \<Longrightarrow> fmpred (\<lambda>_. P) (fmupd k r m)"
  by (simp add: fmpred_iff)

lemma fmpred_at: "fmpred (\<lambda>_. P) m \<Longrightarrow> fmlookup m k = Some r \<Longrightarrow> P r"
  by (simp add: fmpred_iff)

lemma complete_record_inv:
  "control_inv r \<Longrightarrow> control_inv (r\<lparr>ct_audit_projectors := ct_audit_projectors r |-| {|p|}\<rparr>)"
  "ct_audit_projectors r |\<subseteq>| {|p|} \<Longrightarrow>
     control_inv (r\<lparr>ct_audit_projectors := ct_audit_projectors r |-| {|p|}, ct_audit := None\<rparr>)"
  by (auto simp: control_inv_def split: option.splits)

lemma complete_inv: "fmpred (\<lambda>_. control_inv) (controls s) \<Longrightarrow> fmpred (\<lambda>_. control_inv) (controls (complete_transfer_audit s k p))"
  by (auto simp: complete_transfer_audit_def Let_def split: option.split
      dest: fmpred_at intro!: fmpred_upd complete_record_inv)

lemma settle_record_inv: "control_inv r \<Longrightarrow> ct_receipt r = None \<Longrightarrow> control_inv (r\<lparr>ct_receipt := Some rc\<rparr>)"
  by (auto simp: control_inv_def split: option.splits)

lemma control_step_inv:
  assumes "control_step i m m'" "fmpred (\<lambda>_. control_inv) m"
  shows "fmpred (\<lambda>_. control_inv) m'"
  using assms(1)
proof cases
  case (cbind t m1 s k r)
  then have "fmpred (\<lambda>_. control_inv) m1" using assms(2) fmpred_prune by blast
  then show ?thesis using cbind by (auto simp: fmpred_iff control_inv_def split: option.splits)
next
  case (csettle t m1 s k r rc)
  then have "fmpred (\<lambda>_. control_inv) m1" using assms(2) fmpred_prune by blast
  then show ?thesis using csettle fmpred_at by (auto intro!: fmpred_upd settle_record_inv)
next
  case (crelease t m1 s k r)
  then have "fmpred (\<lambda>_. control_inv) m1" using assms(2) fmpred_prune by blast
  then show ?thesis using crelease by (auto simp: fmpred_iff split: if_splits)
next
  case (cproject ps)
  then show ?thesis using assms(2) reproject_inv by (auto simp: fmpred_iff)
qed (use assms(2) fmpred_prune complete_inv in auto)

interpretation own: guarded_log own_step counters_ok own_inv
proof
  fix s i
  assume "own_inv s" "counters_ok s i"
  then show "own_inv (own_step s i)"
    using authority_step_inv [OF own_step_authorities] singleton_step_inv [OF own_step_singletons]
      control_step_inv [OF own_step_controls]
    by (simp add: own_inv_def counters_ok_def)
qed

lemma own_inv_new: "own_inv ownership_new"
  by (simp add: own_inv_def ownership_new_def)

end
