(* ===== verification/Ownership_Safety.thy ===== *)
theory Ownership_Safety
  imports Ownership
begin

text \<open>
  What the ownership machine promises over whole command logs: the refinement to the abstract
  home table, one home per epoch, the protection a write lease gives, singleton fencing, and the
  exactly-once behaviour of control commands with their pending audits.
\<close>

section \<open>The abstract home table\<close>

type_synonym home_table = "authority_key \<rightharpoonup> datacenter_id \<times> authority_epoch"

definition own_view :: "ownership_state \<Rightarrow> home_table" where
  "own_view s = (\<lambda>a. map_option (\<lambda>r. (ar_home r, ar_epoch r)) (fmlookup (authorities s) a))"

inductive home_step :: "home_table \<Rightarrow> home_table \<Rightarrow> bool" where
  stutter: "home_step v v"
| spec_assign: "v a = None \<Longrightarrow> home_step v (v(a \<mapsto> (h, 1)))"
| spec_advance: "v a = Some (h, e) \<Longrightarrow> home_step v (v(a \<mapsto> (h, e + 1)))"
| spec_move: "v a = Some (h, e) \<Longrightarrow> h' \<noteq> h \<Longrightarrow> home_step v (v(a \<mapsto> (h', e + 1)))"
| spec_forget: "v a = Some (h, e) \<Longrightarrow> home_step v (v(a := None))"

definition view_of :: "(authority_key, authority_record) fmap \<Rightarrow> home_table" where
  "view_of m = (\<lambda>a. map_option (\<lambda>r. (ar_home r, ar_epoch r)) (fmlookup m a))"

lemma own_view_of: "own_view s = view_of (authorities s)"
  by (simp add: own_view_def view_of_def)

lemma view_of_upd: "view_of (fmupd a r m) = (view_of m)(a \<mapsto> (ar_home r, ar_epoch r))"
  by (auto simp: view_of_def)

lemma view_of_drop: "view_of (fmdrop a m) = (view_of m)(a := None)"
  by (auto simp: view_of_def)

lemma view_of_at: "fmlookup m a = Some r \<Longrightarrow> view_of m a = Some (ar_home r, ar_epoch r)"
  by (simp add: view_of_def)

lemma view_of_same: "fmlookup m a = Some r \<Longrightarrow> (view_of m)(a \<mapsto> (ar_home r, ar_epoch r)) = view_of m"
  by (auto simp: view_of_def)

lemma authority_step_refines:
  assumes "authority_step i m m'"
  shows "home_step (view_of m) (view_of m')"
  using assms
proof cases
  case (assign a r)
  have "view_of m a = None" using assign by (simp add: view_of_def)
  then show ?thesis using assign spec_assign by (simp add: view_of_upd)
next
  case (advance a r t)
  then show ?thesis using spec_advance [OF view_of_at] by (simp add: view_of_upd)
next
  case (move a r t h)
  then show ?thesis using spec_move [OF view_of_at] by (simp add: view_of_upd)
next
  case (drop a r t)
  then show ?thesis using spec_forget [OF view_of_at] by (simp add: view_of_drop)
qed (auto simp: view_of_upd view_of_same intro: stutter)

lemma own_step_refines: "home_step (own_view s) (own_view (own_step s i))"
  using authority_step_refines [OF own_step_authorities] by (simp add: own_view_of)

text \<open>C1: every log of ownership commands, run from the empty state, is step by step a run of the
  abstract home table. The table starts empty, and each command takes at most one abstract step: an
  authority is assigned at epoch one, and from then on its home and epoch change only by an advance,
  by a move to another home that takes the next epoch, or by being forgotten.\<close>

theorem own_run_refines:
  "own_view ownership_new = Map.empty \<and>
   home_step (own_view (own_run ownership_new is)) (own_view (own_run ownership_new (is @ [i])))"
  using own_step_refines [of "own_run ownership_new is" i] by (simp add: own_view_def ownership_new_def)

text \<open>C8: every state reached by a log whose counters have not reached the top of their range is well
  formed: no homed authority has the unassigned epoch, every live write lease carries the current
  epoch of its authority, a held singleton has a non-zero generation, and a pending audit is the one
  its receipt carries.\<close>

theorem own_reachable_inv:
  assumes "run_ok own_step counters_ok ownership_new is"
  shows "own_inv (own_run ownership_new is)"
  by (rule own.inv_run [OF own_inv_new assms])

section \<open>One home per epoch\<close>

definition keeps :: "authority_key \<Rightarrow> ownership_state \<Rightarrow> own_input \<Rightarrow> bool" where
  "keeps a s i \<longleftrightarrow> counters_ok s i \<and> \<not> forgets a i"

definition epoch_at :: "home_table \<Rightarrow> authority_key \<Rightarrow> authority_epoch" where
  "epoch_at v a = (case v a of None \<Rightarrow> UNASSIGNED | Some (_, e) \<Rightarrow> e)"

lemma own_epoch_view: "own_epoch s a = epoch_at (own_view s) a"
  by (simp add: own_epoch_def epoch_at_def own_view_def split: option.splits)

lemma own_home_view: "own_home s a = map_option fst (own_view s a)"
  by (simp add: own_home_def own_view_def option.map_comp comp_def)

lemma home_step_epoch:
  assumes "home_step v v'" "\<forall>b h e. v b = Some (h, e) \<longrightarrow> e \<noteq> u64_max" "v a \<noteq> None \<longrightarrow> v' a \<noteq> None"
  shows "epoch_at v a \<le> epoch_at v' a \<and> (epoch_at v' a = epoch_at v a \<longrightarrow> map_option fst (v' a) = map_option fst (v a))"
  using assms(1)
proof cases
  case (spec_assign b h)
  then show ?thesis by (auto simp: epoch_at_def UNASSIGNED_def)
next
  case (spec_advance b h e)
  then have "e < e + 1" using assms(2) u64_less_plus_1 by blast
  with spec_advance show ?thesis by (auto simp: epoch_at_def)
next
  case (spec_move b h e h')
  then have "e < e + 1" using assms(2) u64_less_plus_1 by blast
  with spec_move show ?thesis by (auto simp: epoch_at_def)
next
  case (spec_forget b h e)
  with assms(3) have "a \<noteq> b" by auto
  with spec_forget show ?thesis by (simp add: epoch_at_def)
qed simp

lemma own_step_not_forgotten:
  assumes "\<not> forgets a i" "own_view s a \<noteq> None"
  shows "own_view (own_step s i) a \<noteq> None"
proof -
  have "view_of m' a \<noteq> None" if "authority_step i m m'" "view_of m a \<noteq> None" for m m'
    using that assms(1) by cases (auto simp: view_of_def)
  from this [OF own_step_authorities] assms(2) show ?thesis by (simp add: own_view_of)
qed

lemma own_step_epoch:
  assumes "own_inv s" "keeps a s i"
  shows "own_epoch s a \<le> own_epoch (own_step s i) a \<and>
    (own_epoch (own_step s i) a = own_epoch s a \<longrightarrow> own_home (own_step s i) a = own_home s a)"
proof -
  have max: "\<forall>b h e. own_view s b = Some (h, e) \<longrightarrow> e \<noteq> u64_max"
    using assms(2) by (auto simp: keeps_def counters_ok_def fmpred_iff own_view_def)
  have "own_view s a \<noteq> None \<longrightarrow> own_view (own_step s i) a \<noteq> None"
    using assms(2) own_step_not_forgotten by (simp add: keeps_def)
  from home_step_epoch [OF own_step_refines max this] show ?thesis
    by (simp add: own_epoch_view own_home_view)
qed

interpretation own_epochs: ordered_log own_step "keeps a" own_inv "\<lambda>s. own_epoch s a" for a
proof
  show "own_inv (own_step s i)" if "own_inv s" "keeps a s i" for s i
    using that own.inv_step by (simp add: keeps_def)
  show "own_epoch s a \<le> own_epoch (own_step s i) a" if "own_inv s" "keeps a s i" for s i
    using own_step_epoch [OF that] by simp
qed

lemma run_same_epoch_same_home:
  assumes "own_inv s" "run_ok own_step (keeps a) s is" "own_epoch (own_run s is) a = own_epoch s a"
  shows "own_home (own_run s is) a = own_home s a"
  using assms
proof (induction "is" arbitrary: s)
  case (Cons i "is")
  let ?s1 = "own_step s i"
  have inv1: "own_inv ?s1" using Cons.prems own_epochs.inv_step by fastforce
  have step: "own_epoch s a \<le> own_epoch ?s1 a"
      "own_epoch ?s1 a = own_epoch s a \<longrightarrow> own_home ?s1 a = own_home s a"
    using own_step_epoch Cons.prems by auto
  have "own_epoch ?s1 a \<le> own_epoch (own_run ?s1 is) a"
    by (rule own_epochs.rank_run [OF inv1]) (use Cons.prems in simp)
  with step Cons.prems have eq: "own_epoch ?s1 a = own_epoch s a" by simp
  with step Cons.prems Cons.IH [OF inv1] show ?case by simp
qed simp

lemma run_ok_append: "run_ok step ok s (xs @ ys) \<longleftrightarrow> run_ok step ok s xs \<and> run_ok step ok (foldl step s xs) ys"
  by (induction xs arbitrary: s) auto

lemma run_ok_mono: "run_ok step ok s xs \<Longrightarrow> (\<And>s x. ok s x \<Longrightarrow> ok' s x) \<Longrightarrow> run_ok step ok' s xs"
  by (induction xs arbitrary: s) auto

text \<open>C2: as long as an authority is not forgotten, its epoch never decreases along the log, and two
  points of one log that agree on its epoch agree on its home: a home change always takes a higher
  epoch, so no epoch ever has two homes.\<close>

theorem one_home_per_epoch:
  assumes "run_ok own_step (keeps a) ownership_new (pre @ post)"
  shows "own_epoch (own_run ownership_new pre) a \<le> own_epoch (own_run ownership_new (pre @ post)) a \<and>
    (own_home (own_run ownership_new pre) a \<noteq> own_home (own_run ownership_new (pre @ post)) a \<longrightarrow>
     own_epoch (own_run ownership_new pre) a < own_epoch (own_run ownership_new (pre @ post)) a)"
proof -
  let ?s = "own_run ownership_new pre"
  have ok: "run_ok own_step (keeps a) ownership_new pre" "run_ok own_step (keeps a) ?s post"
    using assms by (simp_all add: run_ok_append)
  have inv: "own_inv ?s" using own_epochs.inv_run [OF own_inv_new ok(1)] .
  show ?thesis
    using own_epochs.rank_run [OF inv ok(2)] run_same_epoch_same_home [OF inv ok(2)] by force
qed

section \<open>Write leases\<close>

lemma lease_survives_expire:
  assumes "fmlookup (ar_writes r) w = Some l"
    and "t < i64_saturating_add (wl_expires_at_unix l) AUTHORITY_CLOCK_SKEW_SECS"
  shows "fmlookup (ar_writes (expire_writes r t)) w = Some l" "\<not> fm_is_empty (ar_writes (expire_writes r t))"
proof -
  show kept: "fmlookup (ar_writes (expire_writes r t)) w = Some l"
    using assms by (simp add: expire_writes_def)
  then show "\<not> fm_is_empty (ar_writes (expire_writes r t))"
    by (metis fm_is_empty_iff option.distinct(1))
qed

definition holds_lease ::
  "ownership_state \<Rightarrow> authority_key \<Rightarrow> datacenter_id \<Rightarrow> authority_epoch \<Rightarrow> string \<Rightarrow> write_lease_record \<Rightarrow> bool" where
  "holds_lease s a h e w l \<longleftrightarrow>
     (case fmlookup (authorities s) a of None \<Rightarrow> False
      | Some r \<Rightarrow> ar_home r = h \<and> ar_epoch r = e \<and> fmlookup (ar_writes r) w = Some l)"

lemma authority_step_lease:
  assumes "authority_step i m m'" "fmlookup m a = Some r" "fmlookup (ar_writes r) w = Some l"
    and "\<not> touches_lease a w i"
    and live: "\<forall>t. own_clock i = Some t \<longrightarrow> t < i64_saturating_add (wl_expires_at_unix l) AUTHORITY_CLOCK_SKEW_SECS"
  shows "\<exists>r'. fmlookup m' a = Some r' \<and> ar_home r' = ar_home r \<and> ar_epoch r' = ar_epoch r
    \<and> fmlookup (ar_writes r') w = Some l"
  using assms(1)
proof cases
  case (advance b rb t)
  then have "a \<noteq> b" using lease_survives_expire [OF assms(3)] live assms(2) by auto
  with advance assms(2,3) show ?thesis by simp
next
  case (move b rb t h')
  then have "a \<noteq> b" using lease_survives_expire [OF assms(3)] live assms(2) by auto
  with move assms(2,3) show ?thesis by simp
next
  case (drop b rb t)
  then have "a \<noteq> b" using lease_survives_expire [OF assms(3)] live assms(2) by auto
  with drop assms(2,3) show ?thesis by simp
next
  case (lease b rb t w' x)
  then show ?thesis using lease_survives_expire [OF assms(3)] live assms(2-4) by auto
next
  case (expire b rb t)
  then show ?thesis using lease_survives_expire [OF assms(3)] live assms(2,3) by auto
next
  case (finish b rb w')
  then show ?thesis using assms(2-4) by auto
qed (use assms(2,3) in auto)

lemma holds_lease_step:
  assumes "holds_lease s a h e w l" "\<not> touches_lease a w i"
    and "\<forall>t. own_clock i = Some t \<longrightarrow> t < i64_saturating_add (wl_expires_at_unix l) AUTHORITY_CLOCK_SKEW_SECS"
  shows "holds_lease (own_step s i) a h e w l"
proof -
  obtain r where r: "fmlookup (authorities s) a = Some r" "ar_home r = h" "ar_epoch r = e"
      "fmlookup (ar_writes r) w = Some l"
    using assms(1) by (auto simp: holds_lease_def split: option.splits)
  from authority_step_lease [OF own_step_authorities r(1,4) assms(2,3)] r show ?thesis
    by (auto simp: holds_lease_def)
qed

lemma holds_lease_run:
  assumes "holds_lease s a h e w l" "\<forall>i \<in> set is. \<not> touches_lease a w i"
    and "\<forall>i \<in> set is. \<forall>t. own_clock i = Some t \<longrightarrow>
      t < i64_saturating_add (wl_expires_at_unix l) AUTHORITY_CLOCK_SKEW_SECS"
  shows "holds_lease (own_run s is) a h e w l"
  using assms by (induction "is" arbitrary: s) (auto simp: holds_lease_step)

lemma begin_write_holds:
  assumes "begin_write s a e w t x = (WriteLeased e' w' x', s')"
  shows "\<exists>h. own_home s a = Some h \<and> holds_lease s' a h e w \<lparr>wl_epoch = e, wl_expires_at_unix = x\<rparr>"
  using assms by (auto simp: begin_write_def Let_def own_home_def holds_lease_def split: option.splits if_splits)

text \<open>C3: a write lease fences ownership changes. Once a lease is granted and while its own identifier is
  not finished or granted again, the authority can lose the leased epoch or its home only through a
  command whose clock is more than twice the permitted clock error ahead of any clock at which the
  holder still admits writes.\<close>

theorem write_lease_fences:
  assumes "own_apply s (BeginEpochWrite a e w t0 x) m = (WriteLeased e w x, s1)"
    and "\<forall>i \<in> set is. \<not> touches_lease a w i"
    and "is_i64 x" "is_i64 holder_now"
    and "lease_admits \<lparr>awl_authority = a, awl_epoch = e, awl_id = w, awl_expires_at_unix = x\<rparr> holder_now"
    and "own_epoch (own_run s1 is) a \<noteq> e \<or> own_home (own_run s1 is) a \<noteq> own_home s a"
  shows "\<exists>i \<in> set is. \<exists>t. own_clock i = Some t \<and>
    (holder_now + 2 * AUTHORITY_CLOCK_SKEW_SECS < t \<or> i64_max \<le> t)"
proof (rule ccontr)
  assume none: "\<not> ?thesis"
  obtain h where h: "own_home s a = Some h" "holds_lease s1 a h e w \<lparr>wl_epoch = e, wl_expires_at_unix = x\<rparr>"
    using begin_write_holds assms(1) by fastforce
  have "t < i64_saturating_add x AUTHORITY_CLOCK_SKEW_SECS" if "i \<in> set is" "own_clock i = Some t" for i t
    using none that assms(3-5) by (force simp: lease_admits_def i64_defs lease_consts)
  then have "holds_lease (own_run s1 is) a h e w \<lparr>wl_epoch = e, wl_expires_at_unix = x\<rparr>"
    using holds_lease_run [OF h(2) assms(2)] by simp
  with h(1) assms(6) show False
    by (auto simp: holds_lease_def own_epoch_def own_home_def split: option.splits)
qed

section \<open>Singleton grants\<close>

lemma singleton_step_generation:
  assumes "singleton_step i m m'" "fmpred (\<lambda>_ r. sr_generation r \<noteq> u64_max) m"
  shows "sr_generation (singleton_of m j) \<le> sr_generation (singleton_of m' j)"
  using assms(1)
proof cases
  case (grant t j' r)
  then show ?thesis
    using u64_less_plus_1 [of "sr_generation (singleton_of m j')"] assms(2)
    by (auto simp: fmpred_generation_of less_imp_le)
next
  case (present j' r h)
  then show ?thesis by (auto simp: singleton_of_def)
qed simp

interpretation own_generations: ordered_log own_step counters_ok own_inv "\<lambda>s. generation s j" for j
proof
  show "generation s j \<le> generation (own_step s i) j" if "own_inv s" "counters_ok s i" for s i
    using singleton_step_generation [OF own_step_singletons] that by (simp add: generation_def counters_ok_def)
qed

lemma acquire_singleton_grant:
  assumes "acquire_singleton s j h t x m = (SingletonAcquired h' tm g x', s')"
  shows "singleton_of (singletons s') j =
      \<lparr>sr_generation = g, sr_held = Some \<lparr>sh_holder = h, sh_term = am_term m, sh_expires_at_unix = x\<rparr>\<rparr>"
    and "g = generation s j + 1"
  using assms
  by (auto simp: acquire_singleton_def Let_def singleton_of_def generation_def split: option.splits if_splits)

text \<open>C7: a superseded singleton holder stays fenced out. After any log in which no counter wraps,
  a renewal or a release that presents a generation below the one granted is rejected and leaves the
  state as it was.\<close>

theorem singleton_superseded_rejected:
  assumes "own_inv s" "run_ok own_step counters_ok s (OwnCommand (AcquireSingletonLease j h t0 x0) m0 # is)"
    and "own_apply s (AcquireSingletonLease j h t0 x0) m0 = (SingletonAcquired h tm g x0, s1)"
    and "g' < g" "bounded_singleton_lease t x"
  shows "own_apply (own_run s1 is) (RenewSingletonLease j h' tm' g' t x) m = (Rejected SingletonLost, own_run s1 is) \<and>
    own_apply (own_run s1 is) (ReleaseSingletonLease j h' tm' g' t) m = (Rejected SingletonLost, own_run s1 is)"
proof -
  have s1: "own_step s (OwnCommand (AcquireSingletonLease j h t0 x0) m0) = s1"
    using assms(3) by simp
  have inv1: "own_inv s1"
    using own.inv_step [of s "OwnCommand (AcquireSingletonLease j h t0 x0) m0"] assms(1,2) s1 by simp
  have g: "generation s1 j = g"
    using acquire_singleton_grant(1) [of s j h t0 x0 m0 h tm g x0 s1] assms(3)
    by (simp add: generation_def)
  have "generation s1 j \<le> generation (own_run s1 is) j"
    by (rule own_generations.rank_run [OF inv1]) (use assms(2) s1 in simp)
  with g assms(4) have "generation (own_run s1 is) j \<noteq> g'" by auto
  then have "owned_singleton (own_run s1 is) j h' tm' g' t = None"
    by (auto simp: owned_singleton_def generation_def singleton_of_def split: option.splits)
  then show ?thesis
    using assms(5) by (simp add: renew_singleton_def release_singleton_def)
qed

lemma singleton_step_held:
  assumes "singleton_step i m m'" "singleton_of m j = r" "sr_held r = Some l" "\<not> presents j (sr_generation r) i"
    and "\<forall>t. own_clock i = Some t \<longrightarrow> \<not> hold_lapsed l t"
  shows "singleton_of m' j = r"
  using assms(1)
proof cases
  case (grant t j' r')
  then have "j \<noteq> j'" using assms(2,3,5) by (auto simp: grant_free_def)
  with grant assms(2) show ?thesis by simp
next
  case (present j' r' h)
  then have "j \<noteq> j'" using assms(2,4) by (auto simp: singleton_of_def)
  with present assms(2) show ?thesis by simp
qed (use assms(2) in simp)

lemma singleton_run_held:
  assumes "singleton_of (singletons s) j = r" "sr_held r = Some l"
    and "\<forall>i \<in> set is. \<not> presents j (sr_generation r) i \<and> (\<forall>t. own_clock i = Some t \<longrightarrow> \<not> hold_lapsed l t)"
  shows "singleton_of (singletons (own_run s is)) j = r"
  using assms
proof (induction "is" arbitrary: s)
  case (Cons i "is")
  have "singleton_of (singletons (own_step s i)) j = r"
    by (rule singleton_step_held [OF own_step_singletons Cons.prems(1,2)]) (use Cons.prems(3) in auto)
  with Cons show ?case by simp
qed simp


section \<open>Control commands\<close>

lemma prune_lookup:
  "fmlookup (controls (prune_controls s t)) k = (case fmlookup (controls s) k of None \<Rightarrow> None
     | Some r \<Rightarrow> if ct_audit r \<noteq> None \<or> i64_saturating_sub t (ct_claimed_at_unix r) < CONTROL_IDEMPOTENCY_SECS
              then Some r else None)"
  by (simp add: prune_controls_def split: option.splits)

definition bound_control :: "(string, control_record) fmap \<Rightarrow> string \<Rightarrow> control_command \<Rightarrow> i64 \<Rightarrow> command_receipt \<Rightarrow> bool" where
  "bound_control m k c t rc \<longleftrightarrow>
     (case fmlookup m k of None \<Rightarrow> False
      | Some r \<Rightarrow> control_inv r \<and> ct_command r = c \<and> ct_claimed_at_unix r = t \<and> ct_receipt r = Some rc)"

lemma reproject_receipt:
  assumes "control_inv r"
  shows "ct_command (reproject_record ps r) = ct_command r"
    "ct_claimed_at_unix (reproject_record ps r) = ct_claimed_at_unix r"
    "ct_receipt (reproject_record ps r) = ct_receipt r"
  using assms by (auto simp: control_inv_def reproject_record_def Let_def split: option.splits)

lemma bound_control_step:
  assumes "control_step i m m'" "bound_control m k c t0 rc"
    and "\<forall>t. own_clock i = Some t \<longrightarrow> i64_saturating_sub t t0 < CONTROL_IDEMPOTENCY_SECS"
  shows "bound_control m' k c t0 rc"
proof -
  obtain r where r: "fmlookup m k = Some r" "control_inv r" "ct_command r = c" "ct_claimed_at_unix r = t0"
      "ct_receipt r = Some rc"
    using assms(2) by (auto simp: bound_control_def split: option.splits)
  have kept: "fmlookup (controls (prune_controls s t)) k = Some r"
    if "controls s = m" "own_clock i = Some t" for s t
    using that r assms(3) by (auto simp: prune_lookup)
  show ?thesis
    using assms(1)
  proof cases
    case (ccomplete k' p meta r' s)
    then show ?thesis using r complete_record_inv
      by (auto simp: bound_control_def complete_transfer_audit_def Let_def control_inv_def split: option.splits)
  next
    case (cproject ps)
    then show ?thesis using r reproject_receipt reproject_inv by (auto simp: bound_control_def)
  qed (use r kept in \<open>auto simp: bound_control_def\<close>)
qed

lemma bound_control_run:
  assumes "bound_control (controls s) k c t0 rc"
    and "\<forall>i \<in> set is. \<forall>t. own_clock i = Some t \<longrightarrow> i64_saturating_sub t t0 < CONTROL_IDEMPOTENCY_SECS"
  shows "bound_control (controls (own_run s is)) k c t0 rc"
  using assms
proof (induction "is" arbitrary: s)
  case (Cons i "is")
  have "bound_control (controls (own_step s i)) k c t0 rc"
    by (rule bound_control_step [OF own_step_controls Cons.prems(1)]) (use Cons.prems(2) in simp)
  with Cons show ?case by simp
qed simp

text \<open>C4: control commands execute exactly once per idempotency key. After a committed attempt, and
  while every clock of the log is within the idempotency window of that attempt, a retry with the
  same command is answered with the recorded receipt, a different command under the same key is
  refused, and neither changes an authority, a singleton or the receipt.\<close>

theorem control_exactly_once:
  assumes "own_inv s" "own_apply s (AttemptControl k c t0) m0 = (Control (Committed rc), s1)"
    and "\<forall>i \<in> set is. \<forall>t. own_clock i = Some t \<longrightarrow> i64_saturating_sub t t0 < CONTROL_IDEMPOTENCY_SECS"
    and "i64_saturating_sub t t0 < CONTROL_IDEMPOTENCY_SECS"
  shows "own_apply (own_run s1 is) (AttemptControl k c' t) m =
    (Control (if c' = c then Replayed rc else KeyReuse), prune_controls (own_run s1 is) t)"
proof -
  have s1: "s1 = own_step s (OwnCommand (AttemptControl k c t0) m0)" using assms(2) by simp
  have inv1: "fmpred (\<lambda>_. control_inv) (controls s1)"
    unfolding s1 using control_step_inv [OF own_step_controls] assms(1) unfolding own_inv_def by blast
  have "\<exists>r. fmlookup (controls s1) k = Some r \<and> ct_command r = c \<and> ct_claimed_at_unix r = t0 \<and> ct_receipt r = Some rc"
    using assms(2) by (auto simp: attempt_control_def Let_def bind_control_def
        split: option.splits sum.splits prod.splits if_splits)
  then have "bound_control (controls s1) k c t0 rc"
    using fmpred_at [OF inv1] by (auto simp: bound_control_def)
  from bound_control_run [OF this assms(3)] assms(4) show ?thesis
    by (auto simp: bound_control_def attempt_control_def Let_def prune_lookup split: option.splits)
qed

subsection \<open>Transfer audits\<close>

fun discards_audit :: "string \<Rightarrow> string \<Rightarrow> own_input \<Rightarrow> bool" where
  "discards_audit k p (OwnCommand (CompleteTransferAudit k' p') _) = (k = k' \<and> p = p')"
| "discards_audit k p (OwnProjectors ps) = (ps \<noteq> {||} \<and> p |\<notin>| ps)"
| "discards_audit k p _ = False"

definition pending_at :: "(string, control_record) fmap \<Rightarrow> string \<Rightarrow> string \<Rightarrow> transfer_audit \<Rightarrow> bool" where
  "pending_at m k p au \<longleftrightarrow>
     (case fmlookup m k of None \<Rightarrow> False | Some r \<Rightarrow> ct_audit r = Some au \<and> p |\<in>| ct_audit_projectors r)"

lemma pending_at_iff: "(k, au) \<in> set (pending_transfer_audits s p) \<longleftrightarrow> pending_at (controls s) k p au"
proof -
  have sel: "(case ct_audit r of None \<Rightarrow> None | Some au' \<Rightarrow> if p |\<in>| ct_audit_projectors r then Some (k', au') else None) = Some (k, au)
      \<longleftrightarrow> k' = k \<and> ct_audit r = Some au \<and> p |\<in>| ct_audit_projectors r" for k' r
    by (auto split: option.splits)
  have "(k, au) \<in> set (pending_transfer_audits s p) \<longleftrightarrow>
      (\<exists>r. fmlookup (controls s) k = Some r \<and> ct_audit r = Some au \<and> p |\<in>| ct_audit_projectors r)"
    unfolding pending_transfer_audits_def in_map_filter Bex_def split_paired_Ex in_sorted_list_of_fmap prod.case sel
    by blast
  then show ?thesis by (simp add: pending_at_def split: option.splits)
qed

lemma pending_at_step:
  assumes "control_step i m m'" "pending_at m k p au" "\<not> discards_audit k p i" "fmpred (\<lambda>_. control_inv) m"
  shows "pending_at m' k p au"
proof -
  obtain r where r: "fmlookup m k = Some r" "ct_audit r = Some au" "p |\<in>| ct_audit_projectors r"
    using assms(2) by (auto simp: pending_at_def split: option.splits)
  have kept: "fmlookup (controls (prune_controls s t)) k = Some r" if "controls s = m" for s t
    using that r by (simp add: prune_lookup)
  show ?thesis
    using assms(1)
  proof cases
    case (ccomplete k' p' meta r' s)
    then show ?thesis using r assms(3)
      by (auto simp: pending_at_def complete_transfer_audit_def Let_def split: option.splits)
  next
    case (cproject ps)
    then show ?thesis using r assms(3)
      by (auto simp: pending_at_def reproject_record_def Let_def split: option.splits)
  next
    case (crelease t m1 s k' r')
    moreover have "ct_receipt r \<noteq> None"
      using fmpred_at [OF assms(4) r(1)] r(2) by (auto simp: control_inv_def split: option.splits)
    ultimately show ?thesis using r kept [of s t] by (auto simp: pending_at_def)
  qed (use r kept in \<open>auto simp: pending_at_def\<close>)
qed

lemma pending_at_run:
  assumes "pending_at (controls s) k p au" "fmpred (\<lambda>_. control_inv) (controls s)"
    and "\<forall>i \<in> set is. \<not> discards_audit k p i"
  shows "pending_at (controls (own_run s is)) k p au"
  using assms
proof (induction "is" arbitrary: s)
  case (Cons i "is")
  have "pending_at (controls (own_step s i)) k p au"
    by (rule pending_at_step [OF own_step_controls Cons.prems(1)]) (use Cons.prems in auto)
  moreover have "fmpred (\<lambda>_. control_inv) (controls (own_step s i))"
    using control_step_inv [OF own_step_controls] Cons.prems(2) by blast
  ultimately show ?case using Cons by simp
qed simp

lemma transfer_projectors [simp]: "audit_projectors (snd (transfer s a h t)) = audit_projectors s"
  by (simp add: transfer_def Let_def split: option.splits)

text \<open>C5: the audit of a committed transfer is never lost. From the commit on, however much time passes,
  the audit stays pending for every projector of the roster until that projector reports storing it
  or leaves the roster, and it names the epoch the transfer produced.\<close>

theorem transfer_audit_retained:
  assumes "own_inv s"
    and "own_apply s (AttemptControl k (TransferAuthority a h (Some intent)) t) m = (Control (Committed rc), s1)"
    and "p |\<in>| audit_projectors s" "\<forall>i \<in> set is. \<not> discards_audit k p i"
  shows "\<exists>au. cr_transfer_audit rc = Some au \<and> (k, au) \<in> set (pending_transfer_audits (own_run s1 is) p)
    \<and> ta_authority au = a \<and> ta_target au = h \<and> ta_epoch au = own_epoch s1 a"
proof -
  have s1: "s1 = own_step s (OwnCommand (AttemptControl k (TransferAuthority a h (Some intent)) t) m)"
    using assms(2) by simp
  have inv1: "fmpred (\<lambda>_. control_inv) (controls s1)"
    unfolding s1 using control_step_inv [OF own_step_controls] assms(1) unfolding own_inv_def by blast
  obtain e s0 where tr: "transfer (prune_controls s t) a h t = (e, s0)" by (cases "transfer (prune_controls s t) a h t")
  have ps: "audit_projectors s0 = audit_projectors s"
    using transfer_projectors [of "prune_controls s t" a h t] tr by simp
  obtain au where au: "cr_transfer_audit rc = Some au" "pending_at (controls s1) k p au"
      "ta_authority au = a" "ta_target au = h" "ta_epoch au = own_epoch s1 a"
    using assms(2,3) tr ps
    by (auto simp: attempt_control_def Let_def bind_control_def seal_transfer_audit_def pending_at_def
        own_epoch_def split: option.splits sum.splits if_splits)
  from pending_at_run [OF au(2) inv1 assms(4)] au show ?thesis
    by (auto simp: pending_at_iff)
qed

section \<open>Rejections\<close>

fun is_rejection :: "ownership_effect \<Rightarrow> bool" where
  "is_rejection (Rejected _) = True"
| "is_rejection (Control (CtlRejected _)) = True"
| "is_rejection (Control KeyReuse) = True"
| "is_rejection _ = False"

lemma view_put_expire:
  "fmlookup (authorities s) a = Some r \<Longrightarrow> own_view (put_authority a (expire_writes r t) s) = own_view s"
  by (simp add: own_view_of view_of_upd view_of_same)

lemma own_view_prune [simp]: "own_view (prune_controls s t) = own_view s"
  by (simp add: own_view_def)

lemma control_rejected_view:
  assumes "apply_control s c t = Some (e, s')" "control_outcome e = Inl r"
  shows "own_view s' = own_view s"
proof (cases c)
  case (TransferAuthority a h i)
  with assms show ?thesis
    by (auto simp: transfer_def Let_def view_put_expire split: option.splits if_splits)
next
  case (AdvanceEpoch a)
  with assms show ?thesis
    by (auto simp: advance_epoch_def Let_def view_put_expire split: option.splits if_splits)
next
  case (CtlForgetAuthority a)
  with assms show ?thesis
    by (auto simp: forget_def Let_def view_put_expire split: option.splits if_splits)
qed (use assms in simp_all)

text \<open>C9: a rejected command changes no home, no epoch and no singleton grant. What it may change is what a
  lapsed clock already ended: expired write leases and control records past their window.\<close>

theorem rejected_keeps_ownership:
  assumes "is_rejection (fst (own_apply s c m))"
  shows "own_view (snd (own_apply s c m)) = own_view s \<and> singletons (snd (own_apply s c m)) = singletons s"
proof (cases c)
  case (AttemptControl k cc t)
  show ?thesis
  proof (cases "apply_control (prune_controls s t) cc t")
    case None
    with AttemptControl assms show ?thesis
      by (auto simp: attempt_control_def Let_def split: option.splits)
  next
    case (Some p)
    obtain e s' where p: "p = (e, s')" by (cases p)
    with AttemptControl assms Some show ?thesis
      using control_rejected_view [of "prune_controls s t" cc t e s'] apply_control_singletons [of "prune_controls s t" cc t e s']
      by (auto simp: attempt_control_def Let_def split: option.splits sum.splits if_splits)
  qed
qed (use assms in \<open>auto simp: assign_home_def advance_epoch_def begin_write_def finish_write_def transfer_def
    forget_def acquire_singleton_def renew_singleton_def release_singleton_def Let_def view_put_expire
    split: option.splits if_splits prod.splits\<close>)


section \<open>Witnesses\<close>

text \<open>A first publish at one datacenter, a leased write, its end, and a move to another datacenter.\<close>

definition sample_meta :: applied_meta where
  "sample_meta = \<lparr>am_term = 1, am_index = 7\<rparr>"

definition sample_log :: "own_input list" where
  "sample_log =
    [OwnCommand (AssignHome ''pypi'' ''east'' FirstPublish) sample_meta,
     OwnCommand (BeginEpochWrite ''pypi'' 1 ''w1'' 100 120) sample_meta,
     OwnCommand (FinishEpochWrite ''pypi'' 1 ''w1'') sample_meta,
     OwnCommand (RecordTransfer ''pypi'' ''west'' 110) sample_meta]"

lemma own_reachable_inv_witness:
  "run_ok own_step counters_ok ownership_new sample_log \<and> own_inv (own_run ownership_new sample_log)"
proof -
  have "run_ok own_step counters_ok ownership_new sample_log" by code_simp
  then show ?thesis using own_reachable_inv [of sample_log] by blast
qed

lemma one_home_per_epoch_witness:
  "own_home (own_run ownership_new (take 3 sample_log)) ''pypi'' = Some ''east'' \<and>
   own_home (own_run ownership_new sample_log) ''pypi'' = Some ''west'' \<and>
   own_epoch (own_run ownership_new (take 3 sample_log)) ''pypi'' < own_epoch (own_run ownership_new sample_log) ''pypi''"
proof -
  have "run_ok own_step (keeps ''pypi'') ownership_new (take 3 sample_log @ drop 3 sample_log)"
    by code_simp
  note step = one_home_per_epoch [OF this]
  have h: "own_home (own_run ownership_new (take 3 sample_log)) ''pypi'' = Some ''east''"
    "own_home (own_run ownership_new sample_log) ''pypi'' = Some ''west''"
    by code_simp+
  from step h show ?thesis by simp
qed

text \<open>States for the other witnesses: an assigned authority with two audit projectors.\<close>

definition sample_assigned :: ownership_state where
  "sample_assigned = own_run ownership_new
     [OwnProjectors {|''east'', ''west''|}, OwnCommand (AssignHome ''pypi'' ''east'' FirstPublish) sample_meta]"

definition sample_begin :: ownership_command where
  "sample_begin = BeginEpochWrite ''pypi'' 1 ''w1'' 100 120"

definition sample_claim :: ownership_command where
  "sample_claim = AcquireSingletonLease ''gc'' ''node1'' 100 120"

definition sample_transfer :: control_command where
  "sample_transfer = TransferAuthority ''pypi'' ''west''
     (Some \<lparr>ti_source = ''east'', ti_actor = ''ops'', ti_reason = ''move'', ti_barrier = 3\<rparr>)"

lemma with_fst: "fst (own_apply s c m) = e \<Longrightarrow> own_apply s c m = (e, snd (own_apply s c m))"
  by (metis prod.collapse)

lemma sample_inv: "own_inv sample_assigned"
proof -
  have "run_ok own_step counters_ok ownership_new
     [OwnProjectors {|''east'', ''west''|}, OwnCommand (AssignHome ''pypi'' ''east'' FirstPublish) sample_meta]"
    by code_simp
  then show ?thesis unfolding sample_assigned_def by (rule own.inv_run [OF own_inv_new])
qed

lemma write_lease_fences_witness:
  "\<exists>i \<in> set [OwnCommand (RecordTransfer ''pypi'' ''west'' 200) sample_meta].
     \<exists>t. own_clock i = Some t \<and> (110 + 2 * AUTHORITY_CLOCK_SKEW_SECS < t \<or> i64_max \<le> t)"
proof (rule write_lease_fences [where holder_now = 110 and x = 120])
  show "own_apply sample_assigned (BeginEpochWrite ''pypi'' 1 ''w1'' 100 120) sample_meta =
      (WriteLeased 1 ''w1'' 120, snd (own_apply sample_assigned sample_begin sample_meta))"
    unfolding sample_begin_def by (rule with_fst) code_simp
  show "own_epoch (own_run (snd (own_apply sample_assigned sample_begin sample_meta))
      [OwnCommand (RecordTransfer ''pypi'' ''west'' 200) sample_meta]) ''pypi'' \<noteq> 1 \<or>
     own_home (own_run (snd (own_apply sample_assigned sample_begin sample_meta))
      [OwnCommand (RecordTransfer ''pypi'' ''west'' 200) sample_meta]) ''pypi'' \<noteq> own_home sample_assigned ''pypi''"
    by code_simp
qed (simp_all add: lease_admits_def i64_defs lease_consts)

lemma singleton_superseded_rejected_witness:
  "fst (own_apply (own_run (snd (own_apply sample_assigned sample_claim sample_meta)) sample_log)
     (RenewSingletonLease ''gc'' ''node0'' 1 0 101 110) sample_meta) = Rejected SingletonLost"
proof -
  have "own_apply sample_assigned sample_claim sample_meta =
      (SingletonAcquired ''node1'' 1 1 120, snd (own_apply sample_assigned sample_claim sample_meta))"
    by (rule with_fst) code_simp
  moreover have "run_ok own_step counters_ok sample_assigned (OwnCommand sample_claim sample_meta # sample_log)"
    by code_simp
  moreover have "bounded_singleton_lease 101 110" by code_simp
  ultimately show ?thesis
    using singleton_superseded_rejected [OF sample_inv, of "''gc''" "''node1''" 100 120 sample_meta sample_log 1 1
        "snd (own_apply sample_assigned sample_claim sample_meta)" 0 101 110 "''node0''" 1 sample_meta]
    by (simp add: sample_claim_def)
qed


lemma control_exactly_once_witness:
  "\<exists>rc. fst (own_apply sample_assigned (AttemptControl ''k'' sample_transfer 100) sample_meta) = Control (Committed rc)
    \<and> fst (own_apply (own_run (snd (own_apply sample_assigned (AttemptControl ''k'' sample_transfer 100) sample_meta)) sample_log)
        (AttemptControl ''k'' sample_transfer 999) sample_meta) = Control (Replayed rc)"
proof -
  let ?s1 = "snd (own_apply sample_assigned (AttemptControl ''k'' sample_transfer 100) sample_meta)"
  obtain rc where rc: "fst (own_apply sample_assigned (AttemptControl ''k'' sample_transfer 100) sample_meta) = Control (Committed rc)"
  proof -
    have "(case fst (own_apply sample_assigned (AttemptControl ''k'' sample_transfer 100) sample_meta) of
        Control (Committed rc) \<Rightarrow> True | _ \<Rightarrow> False)" by code_simp
    then show thesis using that by (simp split: ownership_effect.splits control_resolution.splits)
  qed
  have "own_apply (own_run ?s1 sample_log) (AttemptControl ''k'' sample_transfer 999) sample_meta =
    (Control (if sample_transfer = sample_transfer then Replayed rc else KeyReuse), prune_controls (own_run ?s1 sample_log) 999)"
    by (rule control_exactly_once [OF sample_inv with_fst [OF rc]])
      (simp_all add: sample_log_def i64_defs lease_consts)
  with rc show ?thesis by simp
qed

lemma transfer_audit_retained_witness:
  "\<exists>rc au. fst (own_apply sample_assigned (AttemptControl ''k'' sample_transfer 100) sample_meta) = Control (Committed rc)
    \<and> cr_transfer_audit rc = Some au
    \<and> (''k'', au) \<in> set (pending_transfer_audits
       (own_run (snd (own_apply sample_assigned (AttemptControl ''k'' sample_transfer 100) sample_meta))
         [OwnCommand (CompleteTransferAudit ''k'' ''east'') sample_meta,
          OwnCommand (ReleaseControl ''k'' sample_transfer 5000) sample_meta]) ''west'')"
proof -
  let ?a = "own_apply sample_assigned (AttemptControl ''k'' sample_transfer 100) sample_meta"
  obtain rc where rc: "fst ?a = Control (Committed rc)"
  proof -
    have "(case fst ?a of Control (Committed rc) \<Rightarrow> True | _ \<Rightarrow> False)" by code_simp
    then show thesis using that by (simp split: ownership_effect.splits control_resolution.splits)
  qed
  have "''west'' |\<in>| audit_projectors sample_assigned" by code_simp
  with transfer_audit_retained [OF sample_inv with_fst [OF rc, unfolded sample_transfer_def], of "''west''"
      "[OwnCommand (CompleteTransferAudit ''k'' ''east'') sample_meta,
        OwnCommand (ReleaseControl ''k'' sample_transfer 5000) sample_meta]"] rc
  show ?thesis by (auto simp: sample_transfer_def)
qed

lemma rejected_keeps_ownership_witness:
  "own_view (snd (own_apply (snd (own_apply sample_assigned sample_begin sample_meta))
      (RecordTransfer ''pypi'' ''west'' 110) sample_meta)) =
   own_view (snd (own_apply sample_assigned sample_begin sample_meta))"
proof -
  have "is_rejection (fst (own_apply (snd (own_apply sample_assigned sample_begin sample_meta))
      (RecordTransfer ''pypi'' ''west'' 110) sample_meta))" by code_simp
  from rejected_keeps_ownership [OF this] show ?thesis by blast
qed

text \<open>A rejected command may still drop an expired lease: the state is not left as it was.\<close>

lemma rejected_command_changes_state:
  "\<exists>s c m r. fst (own_apply s c m) = Rejected r \<and> snd (own_apply s c m) \<noteq> s"
proof (intro exI conjI)
  let ?s = "snd (own_apply sample_assigned sample_begin sample_meta)"
  let ?c = "BeginEpochWrite ''pypi'' 2 ''w2'' 200 210"
  show "fst (own_apply ?s ?c sample_meta) = Rejected EpochMismatch" by code_simp
  have "fmlookup (authorities (snd (own_apply ?s ?c sample_meta))) ''pypi'' \<noteq> fmlookup (authorities ?s) ''pypi''"
    by code_simp
  then show "snd (own_apply ?s ?c sample_meta) \<noteq> ?s" by metis
qed

end
