(* ===== verification/Blob_Placement.thy ===== *)
theory Blob_Placement
  imports Contracts Interfaces
begin

text \<open>
  Where the verified copies of a blob are: the key, record and transition decision of
  \<open>peryx-ha/src/placement.rs\<close>, the metadata table of \<open>peryx-storage/src/meta/blob_placement.rs\<close>
  with its range scans and compare-and-put, the retry loop and the routing of
  \<open>peryx-ha-distributed/src/placement_policy.rs\<close>, and the fetch and copy plans of
  \<open>blob_placement.rs\<close>, \<open>placement_planning.rs\<close> and \<open>copy_planning.rs\<close>. A table row is the decoded
  record; a transaction is one step on the table.
\<close>

section \<open>Keys\<close>

definition MAX_COMPONENT_BYTES :: usize where
  "MAX_COMPONENT_BYTES = 512"

definition MAX_PLACEMENTS_PER_DIGEST :: usize where
  "MAX_PLACEMENTS_PER_DIGEST = 64"

datatype placement_key_error = KeyEmpty string | KeyTooLong string | KeyContainsNul string

definition component :: "string \<Rightarrow> string \<Rightarrow> (placement_key_error, string) result" where
  "component field v =
     (if v = [] then Inl (KeyEmpty field)
      else if length v > MAX_COMPONENT_BYTES then Inl (KeyTooLong field)
      else if CHR 0x00 \<in> set v then Inl (KeyContainsNul field)
      else Inr v)"

definition backend_id_new :: "string \<Rightarrow> (placement_key_error, string) result" where
  "backend_id_new v = component ''backend'' v"

definition data_center_id_new :: "string \<Rightarrow> (placement_key_error, string) result" where
  "data_center_id_new v = component ''data center'' v"

definition backend_location_new :: "string \<Rightarrow> (placement_key_error, string) result" where
  "backend_location_new v = component ''location'' v"

definition backend_location_for_digest :: "artifact_digest \<Rightarrow> string" where
  "backend_location_for_digest d = d"

record blob_placement_key =
  bpk_digest :: artifact_digest
  bpk_backend :: string
  bpk_data_center :: string
  bpk_location :: string

section \<open>Records and transitions\<close>

datatype blob_placement_failure = SourceUnavailable | FailDigestMismatch | BackendRejected | TransferLimit

datatype blob_placement_state = Pending | Verified u64 | Failed blob_placement_failure | Revoked

datatype blob_placement_status = StatusPending | StatusVerified | StatusFailed | StatusRevoked

fun placement_status :: "blob_placement_state \<Rightarrow> blob_placement_status" where
  "placement_status Pending = StatusPending"
| "placement_status (Verified _) = StatusVerified"
| "placement_status (Failed _) = StatusFailed"
| "placement_status Revoked = StatusRevoked"

record blob_placement_record =
  bp_key :: blob_placement_key
  bp_state :: blob_placement_state
  bp_fence :: u64
  bp_transfer_attempt :: u64
  bp_generation :: u64
  bp_updated_at_unix :: i64

datatype blob_placement_transition =
  Stage
| Checkpoint u64
| Verify u64 artifact_digest u64
| Publish u64
| Fail u64 blob_placement_failure
| Invalidate
| Revoke

fun transition_label :: "blob_placement_transition \<Rightarrow> string" where
  "transition_label Stage = ''stage''"
| "transition_label (Checkpoint _) = ''checkpoint''"
| "transition_label (Verify _ _ _) = ''verify''"
| "transition_label (Publish _) = ''publish''"
| "transition_label (Fail _ _) = ''fail''"
| "transition_label Invalidate = ''invalidate''"
| "transition_label Revoke = ''revoke''"

fun transition_attempt :: "blob_placement_transition \<Rightarrow> u64 option" where
  "transition_attempt (Checkpoint attempt) = Some attempt"
| "transition_attempt (Verify attempt _ _) = Some attempt"
| "transition_attempt (Fail attempt _) = Some attempt"
| "transition_attempt Stage = None"
| "transition_attempt (Publish _) = None"
| "transition_attempt Invalidate = None"
| "transition_attempt Revoke = None"

datatype blob_placement_outcome = Applied blob_placement_record | Unchanged blob_placement_record

fun outcome_record :: "blob_placement_outcome \<Rightarrow> blob_placement_record" where
  "outcome_record (Applied record) = record"
| "outcome_record (Unchanged record) = record"

datatype blob_placement_decision_error =
  IllegalTransition blob_placement_status string
| MissingPlacement string
| StaleFence u64 u64
| StaleTransferAttempt u64 u64
| TransferAttemptFenceMismatch u64 u64
| TransferAttemptExhausted

datatype next_blob_placement_result = NextUnchanged blob_placement_record | NextApplied blob_placement_state

fun is_failed :: "blob_placement_state \<Rightarrow> bool" where
  "is_failed (Failed _) = True"
| "is_failed _ = False"

fun is_verified :: "blob_placement_state \<Rightarrow> bool" where
  "is_verified (Verified _) = True"
| "is_verified _ = False"

fun next_blob_placement ::
  "blob_placement_key \<Rightarrow> blob_placement_record option \<Rightarrow> blob_placement_transition \<Rightarrow> u64 \<Rightarrow>
   (blob_placement_decision_error, next_blob_placement_result) result" where
  "next_blob_placement key None Stage fence = Inr (NextApplied Pending)"
| "next_blob_placement key (Some record) Stage fence =
     (if is_failed (bp_state record) \<or> bp_state record = Revoked then Inr (NextApplied Pending)
      else if bp_state record = Pending \<and> fence > bp_fence record then Inr (NextApplied Pending)
      else if bp_state record = Pending then Inr (NextUnchanged record)
      else Inl (IllegalTransition (placement_status (bp_state record)) (transition_label Stage)))"
| "next_blob_placement key (Some record) (Checkpoint attempt) fence =
     (if bp_state record = Pending then Inr (NextApplied Pending)
      else Inl (IllegalTransition (placement_status (bp_state record)) (transition_label (Checkpoint attempt))))"
| "next_blob_placement key (Some record) (Verify attempt observed size') fence =
     (if bp_state record = Pending
      then Inr (NextApplied (if observed = bpk_digest key then Verified size' else Failed FailDigestMismatch))
      else Inl (IllegalTransition (placement_status (bp_state record)) (transition_label (Verify attempt observed size'))))"
| "next_blob_placement key (Some record) (Fail attempt class) fence =
     (if bp_state record = Pending then Inr (NextApplied (Failed class))
      else if is_failed (bp_state record) then Inr (NextUnchanged record)
      else Inl (IllegalTransition (placement_status (bp_state record)) (transition_label (Fail attempt class))))"
| "next_blob_placement key (Some record) (Publish size') fence =
     (if bp_state record = Verified size' \<and> fence = bp_fence record then Inr (NextUnchanged record)
      else Inr (NextApplied (Verified size')))"
| "next_blob_placement key None (Publish size') fence = Inr (NextApplied (Verified size'))"
| "next_blob_placement key (Some record) Invalidate fence =
     (if is_verified (bp_state record) then Inr (NextApplied (Failed FailDigestMismatch))
      else Inl (IllegalTransition (placement_status (bp_state record)) (transition_label Invalidate)))"
| "next_blob_placement key (Some record) Revoke fence =
     (if bp_state record = Revoked \<and> fence = bp_fence record then Inr (NextUnchanged record)
      else Inr (NextApplied Revoked))"
| "next_blob_placement key None transition fence = Inl (MissingPlacement (transition_label transition))"

definition next_transfer_attempt ::
  "blob_placement_record option \<Rightarrow> blob_placement_transition \<Rightarrow> (blob_placement_decision_error, u64) result" where
  "next_transfer_attempt prior transition =
     (if transition = Stage
      then (case prior of
              None \<Rightarrow> Inr 1
            | Some record \<Rightarrow>
                (case u64_checked_add (bp_transfer_attempt record) 1 of
                   None \<Rightarrow> Inl TransferAttemptExhausted
                 | Some attempt \<Rightarrow> Inr attempt))
      else Inr (case prior of None \<Rightarrow> 0 | Some record \<Rightarrow> bp_transfer_attempt record))"

definition admit_transition ::
  "blob_placement_record option \<Rightarrow> blob_placement_transition \<Rightarrow> u64 \<Rightarrow> (blob_placement_decision_error, unit) result" where
  "admit_transition prior transition fence =
     (case prior of
        None \<Rightarrow> Inr ()
      | Some record \<Rightarrow>
          if fence < bp_fence record then Inl (StaleFence (bp_fence record) fence)
          else (case transition_attempt transition of
                  None \<Rightarrow> Inr ()
                | Some attempt \<Rightarrow>
                    if fence \<noteq> bp_fence record then Inl (TransferAttemptFenceMismatch (bp_fence record) fence)
                    else if attempt \<noteq> bp_transfer_attempt record
                      then Inl (StaleTransferAttempt (bp_transfer_attempt record) attempt)
                    else Inr ()))"

definition decide_blob_placement ::
  "blob_placement_key \<Rightarrow> blob_placement_record option \<Rightarrow> blob_placement_transition \<Rightarrow> u64 \<Rightarrow> i64 \<Rightarrow>
   (blob_placement_decision_error, blob_placement_outcome) result" where
  "decide_blob_placement key prior transition fence now =
     (case admit_transition prior transition fence of
        Inl e \<Rightarrow> Inl e
      | Inr _ \<Rightarrow>
        (case next_blob_placement key prior transition fence of
           Inl e \<Rightarrow> Inl e
         | Inr (NextUnchanged record) \<Rightarrow> Inr (Unchanged record)
         | Inr (NextApplied state) \<Rightarrow>
             (case next_transfer_attempt prior transition of
                Inl e \<Rightarrow> Inl e
              | Inr attempt \<Rightarrow>
                  Inr (Applied
                    \<lparr>bp_key = key, bp_state = state,
                     bp_fence = (case prior of None \<Rightarrow> fence | Some record \<Rightarrow> max (bp_fence record) fence),
                     bp_transfer_attempt = attempt,
                     bp_generation = (case prior of None \<Rightarrow> 1 | Some record \<Rightarrow> bp_generation record + 1),
                     bp_updated_at_unix = now\<rparr>))))"

section \<open>The placement table\<close>

type_synonym placement_table = "(string, blob_placement_record) fmap"

datatype compare_write = Written | Conflict | CapacityExceeded

definition encoded_key :: "blob_placement_key \<Rightarrow> string" where
  "encoded_key key =
     canonical (bpk_digest key) @ [CHR 0x00] @ bpk_backend key @ [CHR 0x00] @ bpk_data_center key
       @ [CHR 0x00] @ bpk_location key"

definition digest_bounds :: "artifact_digest \<Rightarrow> string \<times> string" where
  "digest_bounds digest = (canonical digest @ [CHR 0x00], canonical digest @ [CHR 0x01])"

definition key_range :: "string \<times> string \<Rightarrow> (string, 'v) fmap \<Rightarrow> (string \<times> 'v) list" where
  "key_range bounds table = filter (\<lambda>(k, _). fst bounds \<le> k \<and> k < snd bounds) (sorted_list_of_fmap table)"

definition blob_placement :: "placement_table \<Rightarrow> blob_placement_key \<Rightarrow> blob_placement_record option" where
  "blob_placement table key = fmlookup table (encoded_key key)"

definition blob_placements :: "placement_table \<Rightarrow> artifact_digest \<Rightarrow> blob_placement_record list" where
  "blob_placements table digest = map snd (key_range (digest_bounds digest) table)"

definition placement_count :: "placement_table \<Rightarrow> artifact_digest \<Rightarrow> usize" where
  "placement_count table digest = length (key_range (digest_bounds digest) table)"

definition scan_blob_placements ::
  "placement_table \<Rightarrow> string option \<Rightarrow> usize \<Rightarrow> blob_placement_record list \<times> string option" where
  "scan_blob_placements table cursor limit =
     (case scan_page cursor limit table of (rows, next_cursor) \<Rightarrow> (map snd rows, next_cursor))"

fun group_loop ::
  "usize \<Rightarrow> blob_placement_record list \<Rightarrow> blob_placement_record list \<Rightarrow> blob_placement_record list list \<Rightarrow>
   blob_placement_record list list \<times> string option" where
  "group_loop limit [] grp groups = (if grp = [] then (groups, None) else (groups @ [grp], None))"
| "group_loop limit (record # entries) grp groups =
     (case grp of
        first # _ \<Rightarrow>
          if bpk_digest (bp_key first) \<noteq> bpk_digest (bp_key record)
          then (if length (groups @ [grp]) = limit
                then (groups @ [grp], Some (canonical (bpk_digest (bp_key first))))
                else group_loop limit entries [record] (groups @ [grp]))
          else group_loop limit entries (grp @ [record]) groups
      | [] \<Rightarrow> group_loop limit entries [record] groups)"

definition rows_from :: "string option \<Rightarrow> placement_table \<Rightarrow> (string \<times> blob_placement_record) list" where
  "rows_from resume table =
     (case resume of
        None \<Rightarrow> sorted_list_of_fmap table
      | Some after \<Rightarrow> filter (\<lambda>(k, _). after \<le> k) (sorted_list_of_fmap table))"

definition scan_blob_placement_groups ::
  "placement_table \<Rightarrow> string option \<Rightarrow> usize \<Rightarrow> blob_placement_record list list \<times> string option" where
  "scan_blob_placement_groups table cursor limit =
     group_loop limit (map snd (rows_from (map_option (\<lambda>digest. digest @ [CHR 0x01]) cursor) table)) [] []"

definition compare_and_put_blob_placement ::
  "placement_table \<Rightarrow> blob_placement_record option \<Rightarrow> blob_placement_record \<Rightarrow> compare_write \<times> placement_table" where
  "compare_and_put_blob_placement table expected replacement =
     (let key = encoded_key (bp_key replacement); current = fmlookup table key in
      if current \<noteq> expected then (Conflict, table)
      else if expected = None \<and> placement_count table (bpk_digest (bp_key replacement)) \<ge> MAX_PLACEMENTS_PER_DIGEST
        then (CapacityExceeded, table)
      else (Written, fmupd key replacement table))"

section \<open>Applying a transition\<close>

datatype blob_placement_error = Decision blob_placement_decision_error | TooManyPlacements

text \<open>One iteration of the loop: the table at the read, and the table the write transaction finds.\<close>

definition placement_attempt ::
  "blob_placement_key \<Rightarrow> blob_placement_transition \<Rightarrow> u64 \<Rightarrow> i64 \<Rightarrow> placement_table \<Rightarrow> placement_table \<Rightarrow>
   (blob_placement_error, blob_placement_outcome) result option \<times> placement_table" where
  "placement_attempt key transition fence now at_read at_write =
     (let prior = blob_placement at_read key in
      case decide_blob_placement key prior transition fence now of
        Inl e \<Rightarrow> (Some (Inl (Decision e)), at_write)
      | Inr (Unchanged record) \<Rightarrow> (Some (Inr (Unchanged record)), at_write)
      | Inr (Applied replacement) \<Rightarrow>
          (case compare_and_put_blob_placement at_write prior replacement of
             (Written, table) \<Rightarrow> (Some (Inr (Applied replacement)), table)
           | (Conflict, table) \<Rightarrow> (None, table)
           | (CapacityExceeded, table) \<Rightarrow> (Some (Inl TooManyPlacements), table)))"

definition apply_blob_placement ::
  "(placement_table \<Rightarrow> placement_table) list \<Rightarrow> placement_table \<Rightarrow> blob_placement_key \<Rightarrow> blob_placement_transition \<Rightarrow>
   u64 \<Rightarrow> i64 \<Rightarrow> (blob_placement_error, blob_placement_outcome) result option \<times> placement_table" where
  "apply_blob_placement envs table key transition fence now =
     retry (placement_attempt key transition fence now) envs table"

definition record_local_placement ::
  "(placement_table \<Rightarrow> placement_table) list \<Rightarrow> placement_table \<Rightarrow> string \<Rightarrow> string \<Rightarrow> artifact_digest \<Rightarrow> u64 \<Rightarrow>
   u64 \<Rightarrow> i64 \<Rightarrow> (blob_placement_error, blob_placement_outcome) result option \<times> placement_table" where
  "record_local_placement envs table backend data_center digest size' fence now =
     (let key = \<lparr>bpk_digest = digest, bpk_backend = backend, bpk_data_center = data_center,
                 bpk_location = backend_location_for_digest digest\<rparr>
      in apply_blob_placement envs table key (Publish size') fence now)"

section \<open>Routing and planning\<close>

record blob_placement_routing =
  rt_local :: "blob_placement_record list"
  rt_verified_remote :: "blob_placement_record list"
  rt_pending :: "blob_placement_record list"
  rt_failed :: "blob_placement_record list"
  rt_revoked :: "blob_placement_record list"

definition routing_default :: blob_placement_routing where
  "routing_default = \<lparr>rt_local = [], rt_verified_remote = [], rt_pending = [], rt_failed = [], rt_revoked = []\<rparr>"

definition is_serveable :: "blob_placement_routing \<Rightarrow> bool" where
  "is_serveable r \<longleftrightarrow> rt_local r \<noteq> [] \<or> rt_verified_remote r \<noteq> []"

definition routing_is_empty :: "blob_placement_routing \<Rightarrow> bool" where
  "routing_is_empty r \<longleftrightarrow>
     rt_local r = [] \<and> rt_verified_remote r = [] \<and> rt_pending r = [] \<and> rt_failed r = [] \<and> rt_revoked r = []"

definition route_one :: "string \<Rightarrow> blob_placement_routing \<Rightarrow> blob_placement_record \<Rightarrow> blob_placement_routing" where
  "route_one local_dc routing record =
     (case placement_status (bp_state record) of
        StatusVerified \<Rightarrow>
          (if bpk_data_center (bp_key record) = local_dc then routing\<lparr>rt_local := rt_local routing @ [record]\<rparr>
           else routing\<lparr>rt_verified_remote := rt_verified_remote routing @ [record]\<rparr>)
      | StatusPending \<Rightarrow> routing\<lparr>rt_pending := rt_pending routing @ [record]\<rparr>
      | StatusFailed \<Rightarrow> routing\<lparr>rt_failed := rt_failed routing @ [record]\<rparr>
      | StatusRevoked \<Rightarrow> routing\<lparr>rt_revoked := rt_revoked routing @ [record]\<rparr>)"

definition route_blob_placements :: "blob_placement_record list \<Rightarrow> string \<Rightarrow> blob_placement_routing" where
  "route_blob_placements records local_dc = foldl (route_one local_dc) routing_default records"

datatype placement_availability = AvailPending | AvailVerified | AvailFailed | AvailRevoked

fun availability_from_status :: "blob_placement_status \<Rightarrow> placement_availability" where
  "availability_from_status StatusPending = AvailPending"
| "availability_from_status StatusVerified = AvailVerified"
| "availability_from_status StatusFailed = AvailFailed"
| "availability_from_status StatusRevoked = AvailRevoked"

record placement_descriptor =
  pd_digest :: string
  pd_backend :: string
  pd_data_center :: string
  pd_location :: string
  pd_availability :: placement_availability
  pd_generation :: u64

definition placement_descriptor_from :: "blob_placement_record \<Rightarrow> placement_descriptor" where
  "placement_descriptor_from record =
     \<lparr>pd_digest = canonical (bpk_digest (bp_key record)), pd_backend = bpk_backend (bp_key record),
      pd_data_center = bpk_data_center (bp_key record), pd_location = bpk_location (bp_key record),
      pd_availability = availability_from_status (placement_status (bp_state record)),
      pd_generation = bp_generation record\<rparr>"

datatype fetch_plan = Sources "placement_descriptor list" | Unavailable

definition fetch_order :: "string \<Rightarrow> placement_descriptor \<Rightarrow> placement_descriptor \<Rightarrow> ordering" where
  "fetch_order local_dc a b =
     then_with (then_with (then_with (then_with
       (cmp (pd_data_center a \<noteq> local_dc) (pd_data_center b \<noteq> local_dc))
       (cmp (pd_generation b) (pd_generation a)))
       (cmp (pd_data_center a) (pd_data_center b)))
       (cmp (pd_location a) (pd_location b)))
       (cmp (pd_backend a) (pd_backend b))"

definition plan_blob_fetch :: "placement_descriptor list \<Rightarrow> string \<Rightarrow> fetch_plan" where
  "plan_blob_fetch placements local_dc =
     (let sources = filter (\<lambda>p. pd_availability p = AvailVerified) placements in
      if sources = [] then Unavailable else Sources (sort_by (fetch_order local_dc) sources))"

definition out_of_policy_placements :: "blob_placement_record list \<Rightarrow> string fset \<Rightarrow> blob_placement_key list" where
  "out_of_policy_placements records target_dcs =
     map bp_key (filter (\<lambda>record. is_verified (bp_state record)
        \<and> bpk_data_center (bp_key record) |\<notin>| target_dcs) records)"

record verified_source =
  vs_key :: blob_placement_key
  vs_generation :: u64
  vs_size :: u64

record copy_backlog =
  cb_digest :: artifact_digest
  cb_source :: verified_source

record cross_dc_copy =
  cc_target :: blob_placement_key
  cc_source :: blob_placement_key
  cc_size :: u64
  cc_fence :: u64

fun backlog_loop ::
  "string \<Rightarrow> u64 \<Rightarrow> blob_placement_record list \<Rightarrow> bool \<Rightarrow> verified_source list \<Rightarrow> bool \<times> verified_source list" where
  "backlog_loop local_dc fence [] local_settled sources = (local_settled, sources)"
| "backlog_loop local_dc fence (record # records) local_settled sources =
     (let is_local = (bpk_data_center (bp_key record) = local_dc) in
      case bp_state record of
        Verified size' \<Rightarrow>
          if \<not> is_local
          then backlog_loop local_dc fence records local_settled
                 (sources @ [\<lparr>vs_key = bp_key record, vs_generation = bp_generation record, vs_size = size'\<rparr>])
          else backlog_loop local_dc fence records True sources
      | Pending \<Rightarrow>
          if is_local \<and> bp_fence record \<ge> fence then backlog_loop local_dc fence records True sources
          else backlog_loop local_dc fence records local_settled sources
      | _ \<Rightarrow> backlog_loop local_dc fence records local_settled sources)"

text \<open>\<open>min_by_key\<close> on \<open>(Reverse(generation), index)\<close>: the first source of the highest generation.\<close>

fun newest_source :: "verified_source list \<Rightarrow> verified_source option" where
  "newest_source [] = None"
| "newest_source (s # rest) =
     (case newest_source rest of
        None \<Rightarrow> Some s
      | Some best \<Rightarrow> if vs_generation best > vs_generation s then Some best else Some s)"

definition copy_backlog_entry :: "blob_placement_record list \<Rightarrow> string \<Rightarrow> u64 \<Rightarrow> copy_backlog option" where
  "copy_backlog_entry records local_dc fence =
     (case backlog_loop local_dc fence records False [] of
        (local_settled, sources) \<Rightarrow>
          if local_settled then None
          else (case records of
                  [] \<Rightarrow> None
                | first # _ \<Rightarrow>
                    (case newest_source sources of
                       None \<Rightarrow> None
                     | Some source \<Rightarrow> Some \<lparr>cb_digest = bpk_digest (bp_key first), cb_source = source\<rparr>)))"

definition plan_cross_dc_copy :: "copy_backlog \<Rightarrow> string \<Rightarrow> string \<Rightarrow> u64 \<Rightarrow> cross_dc_copy" where
  "plan_cross_dc_copy entry local_dc target_backend fence =
     \<lparr>cc_target = \<lparr>bpk_digest = cb_digest entry, bpk_backend = target_backend, bpk_data_center = local_dc,
                   bpk_location = backend_location_for_digest (cb_digest entry)\<rparr>,
      cc_source = vs_key (cb_source entry), cc_size = vs_size (cb_source entry), cc_fence = fence\<rparr>"

end
