(* ===== verification/Placement_Safety.thy ===== *)
theory Placement_Safety
  imports Blob_Placement
begin

text \<open>
  What placement promises: superseded owners and attempts stay out, a copy becomes serveable only on
  evidence, the table keeps its keys and its bound per digest, the retry loop is linearizable and
  returns, and scans and plans are complete and deterministic.
\<close>

section \<open>Decisions\<close>

definition decide_step ::
  "blob_placement_key \<Rightarrow> blob_placement_record option \<Rightarrow> blob_placement_transition \<times> i64 \<Rightarrow> u64 \<Rightarrow>
   (blob_placement_decision_error, blob_placement_record) result" where
  "decide_step key prior tn fence = map_sum id outcome_record (decide_blob_placement key prior (fst tn) fence (snd tn))"

lemma decide_stale: "fence < bp_fence r \<Longrightarrow> decide_blob_placement key (Some r) tr fence now = Inl (StaleFence (bp_fence r) fence)"
  by (simp add: decide_blob_placement_def admit_transition_def)

lemma next_unchanged: "next_blob_placement key (Some r) tr fence = Inr (NextUnchanged r') \<Longrightarrow> r' = r"
  by (cases tr) (auto split: if_splits)

lemma admit_Inr:
  assumes "admit_transition (Some r) tr fence = Inr u"
  shows "bp_fence r \<le> fence"
    and "transition_attempt tr = Some a \<Longrightarrow> fence = bp_fence r \<and> a = bp_transfer_attempt r"
  using assms by (auto simp: admit_transition_def not_less split: if_splits option.splits)

lemma next_attempt_mono:
  assumes "next_transfer_attempt (Some r) tr = Inr a"
  shows "bp_transfer_attempt r \<le> a" "tr = Stage \<Longrightarrow> bp_transfer_attempt r < a"
  using assms u64_checked_add_Some [of "bp_transfer_attempt r" 1]
  by (auto simp: next_transfer_attempt_def word_le_nat_alt word_less_nat_alt split: if_splits option.splits)

text \<open>What an accepted decision on an existing row can be.\<close>

lemma decide_accepted:
  assumes "decide_blob_placement key (Some r) tr fence now = Inr out"
  obtains (unchanged) "out = Unchanged r" "bp_fence r \<le> fence"
  | (applied) r' where "out = Applied r'" "bp_fence r \<le> fence" "bp_fence r' = fence" "bp_key r' = key"
      "bp_generation r' = bp_generation r + 1" "bp_transfer_attempt r \<le> bp_transfer_attempt r'"
proof -
  have adm: "admit_transition (Some r) tr fence = Inr ()"
    using assms by (auto simp: decide_blob_placement_def split: sum.splits)
  note le = admit_Inr(1) [OF adm]
  show thesis
  proof (cases "next_blob_placement key (Some r) tr fence")
    case (Inl e)
    with assms adm show thesis by (simp add: decide_blob_placement_def)
  next
    case (Inr n)
    show thesis
    proof (cases n)
      case (NextUnchanged r')
      with assms adm Inr next_unchanged le unchanged show thesis by (auto simp: decide_blob_placement_def)
    next
      case (NextApplied st)
      with assms adm Inr obtain a where "next_transfer_attempt (Some r) tr = Inr a"
        by (auto simp: decide_blob_placement_def split: sum.splits)
      with assms adm Inr NextApplied le next_attempt_mono show thesis
        by (intro applied) (auto simp: decide_blob_placement_def)
    qed
  qed
qed

interpretation placement: fenced_decision "decide_step key" bp_fence for key
proof
  show "\<exists>e. decide_step key (Some r) c f = Inl e" if "f < bp_fence r" for f r c
    using decide_stale [OF that] by (simp add: decide_step_def)
  show "bp_fence r \<le> bp_fence r'" if "decide_step key (Some r) c f = Inr r'" for r c f r'
    using that by (auto simp: decide_step_def map_sum_def split: sum.splits elim!: decide_accepted)
qed

lemma fenced_step_attempt:
  assumes "fenced_step (decide_step key) (Some r) cf = Some r'"
  shows "bp_transfer_attempt r \<le> bp_transfer_attempt r'"
  using assms
  by (auto simp: fenced_step_def decide_step_def map_sum_def split: sum.splits elim!: decide_accepted)

lemma run_attempt:
  "\<exists>r'. foldl (fenced_step (decide_step key)) (Some r) cs = Some r' \<and> bp_transfer_attempt r \<le> bp_transfer_attempt r'"
proof (induction cs arbitrary: r)
  case (Cons c cs)
  obtain r1 where r1: "fenced_step (decide_step key) (Some r) c = Some r1"
    using placement.step_Some by blast
  from Cons.IH [of r1] r1 fenced_step_attempt [OF r1] show ?case
    using order_trans by fastforce
qed simp

text \<open>C10: a superseded owner or transfer attempt stays fenced out of a placement. Once the row carries a
  higher fence, or a higher transfer attempt, every later decision under the old fence, or carrying
  the old attempt, is rejected, whatever transitions were decided in between.\<close>

theorem placement_superseded_rejected:
  assumes "fence < bp_fence r \<or> (transition_attempt tr = Some a \<and> a < bp_transfer_attempt r)"
  shows "\<exists>e. decide_blob_placement key (foldl (fenced_step (decide_step key)) (Some r) cs) tr fence now = Inl e"
proof (cases "fence < bp_fence r")
  case True
  from placement.superseded_stays_rejected [OF this, of key cs "(tr, now)"] show ?thesis
    by (auto simp: decide_step_def map_sum_def split: sum.splits)
next
  case False
  obtain r' where r': "foldl (fenced_step (decide_step key)) (Some r) cs = Some r'"
      "bp_transfer_attempt r \<le> bp_transfer_attempt r'"
    using run_attempt by blast
  show ?thesis
  proof (cases "admit_transition (Some r') tr fence")
    case (Inl e)
    then show ?thesis by (simp add: r' decide_blob_placement_def)
  next
    case (Inr u)
    with False assms r' admit_Inr(2) [OF Inr, of a] show ?thesis by auto
  qed
qed

section \<open>Evidence\<close>

text \<open>The transitions that carry evidence that \<open>n\<close> bytes hash to the digest \<open>d\<close>.\<close>

fun evidence_for :: "artifact_digest \<Rightarrow> u64 \<Rightarrow> blob_placement_transition \<Rightarrow> bool" where
  "evidence_for d n (Publish size') = (size' = n)"
| "evidence_for d n (Verify _ observed size') = (observed = d \<and> size' = n)"
| "evidence_for d n _ = False"

lemma decide_verified:
  assumes "decide_blob_placement key prior tr fence now = Inr (Applied r')" "bp_state r' = Verified n"
  shows "evidence_for (bpk_digest key) n tr"
  using assms
  by (cases prior; cases tr)
    (auto simp: decide_blob_placement_def split: sum.splits if_splits next_blob_placement_result.splits)

lemma fenced_step_verified:
  assumes "fenced_step (decide_step key) prior ((tr, now), fence) = Some r'" "bp_state r' = Verified n"
  shows "evidence_for (bpk_digest key) n tr \<or> prior = Some r'"
proof (cases "decide_blob_placement key prior tr fence now")
  case (Inl e)
  with assms show ?thesis by (simp add: fenced_step_def decide_step_def)
next
  case (Inr out)
  show ?thesis
  proof (cases out)
    case (Applied r)
    with Inr assms decide_verified show ?thesis by (simp add: fenced_step_def decide_step_def)
  next
    case (Unchanged r)
    then obtain p where p: "prior = Some p"
      using Inr by (cases prior; cases tr) (auto simp: decide_blob_placement_def admit_transition_def
          next_transfer_attempt_def split: sum.splits)
    with Inr Unchanged have "r = p" by (auto elim: decide_accepted)
    with p Inr Unchanged assms show ?thesis by (simp add: fenced_step_def decide_step_def)
  qed
qed

text \<open>C12: a placement is verified, and so serveable, only on evidence. If a row that started absent is in
  the verified state with some size, then some transition in its history published that many locally
  committed bytes, or reported a transfer whose observed digest is the key's and whose size is that one.\<close>

theorem verified_has_evidence:
  assumes "foldl (fenced_step (decide_step key)) None cs = Some r" "bp_state r = Verified n"
  shows "\<exists>((tr, now), fence) \<in> set cs. evidence_for (bpk_digest key) n tr"
  using assms
proof (induction cs arbitrary: r rule: rev_induct)
  case (snoc c cs)
  obtain tr now fence where c: "c = ((tr, now), fence)" by (metis prod.collapse)
  show ?case
  proof (cases "evidence_for (bpk_digest key) n tr")
    case True
    with c show ?thesis by auto
  next
    case False
    with snoc.prems c have "foldl (fenced_step (decide_step key)) None cs = Some r"
      using fenced_step_verified [of key _ tr now fence r n] by auto
    with snoc show ?thesis by auto
  qed
qed simp

section \<open>The table\<close>

definition digest_ok :: "artifact_digest \<Rightarrow> bool" where
  "digest_ok d \<longleftrightarrow> length d = 64 \<and> list_all is_lower_hex d"

definition key_ok :: "blob_placement_key \<Rightarrow> bool" where
  "key_ok k \<longleftrightarrow> digest_ok (bpk_digest k)
     \<and> (case backend_id_new (bpk_backend k) of Inl _ \<Rightarrow> False | Inr _ \<Rightarrow> True)
     \<and> (case data_center_id_new (bpk_data_center k) of Inl _ \<Rightarrow> False | Inr _ \<Rightarrow> True)
     \<and> (case backend_location_new (bpk_location k) of Inl _ \<Rightarrow> False | Inr _ \<Rightarrow> True)"

lemma component_no_nul: "component f v = Inr w \<Longrightarrow> CHR 0x00 \<notin> set v"
  by (auto simp: component_def split: if_splits)

lemma key_ok_no_nul:
  assumes "key_ok k"
  shows "CHR 0x00 \<notin> set (bpk_backend k)" "CHR 0x00 \<notin> set (bpk_data_center k)" "CHR 0x00 \<notin> set (bpk_location k)"
  using assms component_no_nul
  by (auto simp: key_ok_def backend_id_new_def data_center_id_new_def backend_location_new_def split: sum.splits)

lemma canonical_no_nul: "digest_ok d \<Longrightarrow> CHR 0x00 \<notin> set (canonical d)"
proof -
  have "\<not> is_lower_hex (CHR 0x00)" by code_simp
  then show "digest_ok d \<Longrightarrow> CHR 0x00 \<notin> set (canonical d)"
    by (auto simp: digest_ok_def canonical_def list_all_iff)
qed

lemma length_canonical: "digest_ok d \<Longrightarrow> length (canonical d) = 71"
  by (simp add: digest_ok_def canonical_def)

lemma split_at_nul: "x \<notin> set a \<Longrightarrow> x \<notin> set c \<Longrightarrow> a @ x # b = c @ x # d \<longleftrightarrow> a = c \<and> b = d"
  by (induction a arbitrary: c; case_tac c) auto

lemma encoded_key_inj:
  assumes "key_ok k" "key_ok k'" "encoded_key k = encoded_key k'"
  shows "k = k'"
proof -
  have "digest_ok (bpk_digest k)" "digest_ok (bpk_digest k')" using assms by (auto simp: key_ok_def)
  with assms show ?thesis
    by (simp add: encoded_key_def split_at_nul canonical_no_nul key_ok_no_nul)
qed

lemma below_one: "x < CHR 0x01 \<longleftrightarrow> x = CHR 0x00"
proof
  assume "x < CHR 0x01"
  then have "of_char x < (of_char (CHR 0x01) :: nat)" by (simp add: less_char_def)
  then have "of_char x = (of_char (CHR 0x00) :: nat)" by simp
  then show "x = CHR 0x00" by (simp only: of_char_eq_iff)
qed (simp add: less_char_def)

lemma not_below_nul: "\<not> x < CHR 0x00"
  by (simp add: less_char_def)

lemma nul_range: "c @ [CHR 0x00] \<le> k \<and> k < c @ [CHR 0x01] \<longleftrightarrow> (\<exists>t. k = c @ CHR 0x00 # t)"
proof (induction c arbitrary: k)
  case Nil
  show ?case by (cases k) (auto simp: below_one not_below_nul)
next
  case (Cons x c)
  then show ?case by (cases k) auto
qed

lemma in_digest_range:
  assumes "key_ok k" "digest_ok d"
  shows "fst (digest_bounds d) \<le> encoded_key k \<and> encoded_key k < snd (digest_bounds d) \<longleftrightarrow> bpk_digest k = d"
proof -
  have "digest_ok (bpk_digest k)" using assms by (simp add: key_ok_def)
  then have "(\<exists>t. encoded_key k = canonical d @ CHR 0x00 # t) \<longleftrightarrow> bpk_digest k = d"
    using assms by (simp add: encoded_key_def split_at_nul canonical_no_nul)
  then show ?thesis by (simp add: digest_bounds_def nul_range)
qed

definition row_ok :: "string \<Rightarrow> blob_placement_record \<Rightarrow> bool" where
  "row_ok k r \<longleftrightarrow> k = encoded_key (bp_key r) \<and> key_ok (bp_key r)"

definition table_inv :: "placement_table \<Rightarrow> bool" where
  "table_inv table \<longleftrightarrow> fmpred row_ok table
     \<and> (\<forall>d. digest_ok d \<longrightarrow> placement_count table d \<le> MAX_PLACEMENTS_PER_DIGEST)"

definition put_step :: "placement_table \<Rightarrow> blob_placement_record option \<times> blob_placement_record \<Rightarrow> placement_table" where
  "put_step table er = snd (compare_and_put_blob_placement table (fst er) (snd er))"

definition put_ok :: "placement_table \<Rightarrow> blob_placement_record option \<times> blob_placement_record \<Rightarrow> bool" where
  "put_ok table er \<longleftrightarrow> key_ok (bp_key (snd er))"

definition digest_keys :: "placement_table \<Rightarrow> artifact_digest \<Rightarrow> string set" where
  "digest_keys table d = {k. fmlookup table k \<noteq> None \<and> fst (digest_bounds d) \<le> k \<and> k < snd (digest_bounds d)}"

lemma placement_count_card: "placement_count table d = card (digest_keys table d)"
  by (simp add: placement_count_def key_range_def digest_keys_def length_key_filter)

lemma digest_keys_upd:
  assumes "key_ok (bp_key r)" "digest_ok d"
  shows "digest_keys (fmupd (encoded_key (bp_key r)) r table) d =
    (if bpk_digest (bp_key r) = d then insert (encoded_key (bp_key r)) (digest_keys table d) else digest_keys table d)"
  using in_digest_range [OF assms] by (auto simp: digest_keys_def)

lemma digest_keys_finite: "finite (digest_keys table d)"
  unfolding digest_keys_def by (rule finite_fmlookup)

lemma put_count:
  assumes "key_ok (bp_key r)" "digest_ok d" "\<forall>d. digest_ok d \<longrightarrow> placement_count table d \<le> MAX_PLACEMENTS_PER_DIGEST"
  shows "placement_count (put_step table (expected, r)) d \<le> MAX_PLACEMENTS_PER_DIGEST"
proof (cases "fmlookup table (encoded_key (bp_key r)) = expected \<and>
    \<not> (expected = None \<and> placement_count table (bpk_digest (bp_key r)) \<ge> MAX_PLACEMENTS_PER_DIGEST)")
  case False
  then have "put_step table (expected, r) = table"
    by (auto simp: put_step_def compare_and_put_blob_placement_def Let_def)
  with assms show ?thesis by simp
next
  case True
  then have put: "put_step table (expected, r) = fmupd (encoded_key (bp_key r)) r table"
    by (auto simp: put_step_def compare_and_put_blob_placement_def Let_def)
  show ?thesis
  proof (cases "bpk_digest (bp_key r) = d \<and> expected = None")
    case new: True
    then have "card (digest_keys table d) < MAX_PLACEMENTS_PER_DIGEST"
      using True by (simp add: placement_count_card)
    then show ?thesis
      using put digest_keys_upd [OF assms(1,2)] card_insert_le_m1 digest_keys_finite [of table d]
      by (auto simp: placement_count_card card_insert_if)
  next
    case old: False
    have "digest_keys (fmupd (encoded_key (bp_key r)) r table) d = digest_keys table d"
      using digest_keys_upd [OF assms(1,2), of table] True old in_digest_range [OF assms(1,2)]
      by (auto simp: digest_keys_def)
    then show ?thesis using assms put by (simp add: placement_count_card)
  qed
qed

lemma put_rows:
  assumes "key_ok (bp_key r)" "fmpred row_ok table"
  shows "fmpred row_ok (put_step table (expected, r))"
  using assms by (auto simp: put_step_def compare_and_put_blob_placement_def Let_def fmpred_iff row_ok_def)

interpretation placement_log: guarded_log put_step put_ok table_inv
proof
  fix table er
  assume inv: "table_inv table" and ok: "put_ok table er"
  obtain expected r where er: "er = (expected, r)" by (cases er)
  show "table_inv (put_step table er)"
    using put_count [of r _ table expected] put_rows [of r table expected] inv ok er
    by (simp add: table_inv_def put_ok_def)
qed

lemma table_inv_empty: "table_inv fmempty"
  by (simp add: table_inv_def placement_count_card digest_keys_def)

lemma blob_placements_exact:
  assumes "fmpred row_ok table" "digest_ok d"
  shows "set (blob_placements table d) = {r. \<exists>k. fmlookup table k = Some r \<and> bpk_digest (bp_key r) = d}"
proof -
  have "fst (digest_bounds d) \<le> k \<and> k < snd (digest_bounds d) \<longleftrightarrow> bpk_digest (bp_key r) = d"
    if "fmlookup table k = Some r" for k r
    using in_digest_range [of "bp_key r" d] that assms by (auto simp: fmpred_iff row_ok_def)
  then show ?thesis by (force simp: blob_placements_def key_range_def image_iff)
qed

text \<open>C13: whatever sequence of compare-and-puts ran on the placement table, no digest has more than the
  permitted number of placements, and the range scan of a digest returns exactly the stored records
  of that digest: the NUL-separated keys never mix two digests.\<close>

theorem placement_table_bounded_exact:
  assumes "run_ok put_step put_ok fmempty ws" "digest_ok d"
  shows "length (blob_placements (foldl put_step fmempty ws) d) \<le> MAX_PLACEMENTS_PER_DIGEST
    \<and> set (blob_placements (foldl put_step fmempty ws) d) =
       {r. \<exists>k. fmlookup (foldl put_step fmempty ws) k = Some r \<and> bpk_digest (bp_key r) = d}"
proof -
  have inv: "table_inv (foldl put_step fmempty ws)"
    by (rule placement_log.inv_run [OF table_inv_empty assms(1)])
  then have "placement_count (foldl put_step fmempty ws) d \<le> MAX_PLACEMENTS_PER_DIGEST"
    using assms(2) by (simp add: table_inv_def)
  moreover have "set (blob_placements (foldl put_step fmempty ws) d) =
       {r. \<exists>k. fmlookup (foldl put_step fmempty ws) k = Some r \<and> bpk_digest (bp_key r) = d}"
    using blob_placements_exact [of "foldl put_step fmempty ws" d] inv assms(2) by (simp add: table_inv_def)
  ultimately show ?thesis by (simp add: placement_count_def blob_placements_def)
qed

section \<open>The retry loop\<close>

definition placement_atomic ::
  "blob_placement_key \<Rightarrow> blob_placement_transition \<Rightarrow> u64 \<Rightarrow> i64 \<Rightarrow> placement_table \<Rightarrow>
   (blob_placement_error, blob_placement_outcome) result \<times> placement_table" where
  "placement_atomic key tr fence now table =
     (case decide_blob_placement key (blob_placement table key) tr fence now of
        Inl e \<Rightarrow> (Inl (Decision e), table)
      | Inr (Unchanged r) \<Rightarrow> (Inr (Unchanged r), table)
      | Inr (Applied r) \<Rightarrow>
          (if blob_placement table key = None \<and> placement_count table (bpk_digest key) \<ge> MAX_PLACEMENTS_PER_DIGEST
           then (Inl TooManyPlacements, table)
           else (Inr (Applied r), fmupd (encoded_key key) r table)))"

lemma decide_applied_key: "decide_blob_placement key prior tr fence now = Inr (Applied r) \<Longrightarrow> bp_key r = key"
  by (auto simp: decide_blob_placement_def split: sum.splits next_blob_placement_result.splits)

interpretation placement_retry: optimistic_retry
  "placement_attempt key tr fence now" "placement_atomic key tr fence now" "\<lambda>table. blob_placement table key"
  for key tr fence now
proof
  fix s s1 s' :: placement_table and r
  assume a: "placement_attempt key tr fence now s s1 = (Some r, s')"
  show "(r, s') = placement_atomic key tr fence now s1 \<or> s' = s1 \<and> (r, s) = placement_atomic key tr fence now s"
  proof (cases "decide_blob_placement key (blob_placement s key) tr fence now")
    case (Inl e)
    with a show ?thesis by (simp add: placement_attempt_def placement_atomic_def)
  next
    case (Inr out)
    show ?thesis
    proof (cases out)
      case (Applied rep)
      with Inr have "bp_key rep = key" using decide_applied_key by blast
      with a Inr Applied show ?thesis
        by (auto simp: placement_attempt_def placement_atomic_def compare_and_put_blob_placement_def Let_def
            blob_placement_def split: if_splits)
    next
      case (Unchanged rep)
      with a Inr show ?thesis by (simp add: placement_attempt_def placement_atomic_def)
    qed
  qed
next
  fix s s1 s' :: placement_table
  assume "placement_attempt key tr fence now s s1 = (None, s')"
  then show "s' = s1 \<and> blob_placement s key \<noteq> blob_placement s1 key"
    using decide_applied_key [of key "blob_placement s key" tr fence now]
    by (auto simp: placement_attempt_def compare_and_put_blob_placement_def Let_def blob_placement_def
        split: sum.splits blob_placement_outcome.splits if_splits)
qed


text \<open>C15: the loop returns. One iteration in which the other writers leave the row of the key alone is
  enough, however many conflicts came before.\<close>

theorem apply_blob_placement_returns:
  assumes "\<And>t. blob_placement (env t) key = blob_placement t key"
  shows "\<exists>r table'. apply_blob_placement (pre @ env # post) table key tr fence now = (Some r, table')"
  unfolding apply_blob_placement_def by (rule placement_retry.retry_returns) (rule assms)

section \<open>Group scans\<close>

text \<open>The reference: consecutive records of one digest.\<close>

abbreviation digest_of :: "blob_placement_record \<Rightarrow> artifact_digest" where
  "digest_of r \<equiv> bpk_digest (bp_key r)"

function digest_groups :: "blob_placement_record list \<Rightarrow> blob_placement_record list list" where
  "digest_groups [] = []"
| "digest_groups (r # rs) =
     (r # takeWhile (\<lambda>x. digest_of x = digest_of r) rs) # digest_groups (dropWhile (\<lambda>x. digest_of x = digest_of r) rs)"
  by pat_completeness auto
termination
  by (relation "measure length") (auto simp: length_dropWhile_le less_Suc_eq_le)

lemma concat_digest_groups: "concat (digest_groups rs) = rs"
  by (induction rs rule: digest_groups.induct) simp_all

lemma digest_groups_Nil [simp]: "digest_groups rs = [] \<longleftrightarrow> rs = []"
  by (cases rs) simp_all

definition one_digest :: "blob_placement_record list \<Rightarrow> bool" where
  "one_digest g \<longleftrightarrow> (\<forall>x \<in> set g. digest_of x = digest_of (hd g))"

lemma one_digest_simps [simp]: "one_digest []" "one_digest [r]"
  by (simp_all add: one_digest_def)

lemma one_digest_snoc: "one_digest (x # xs) \<Longrightarrow> digest_of x = digest_of r \<Longrightarrow> one_digest (x # xs @ [r])"
  by (auto simp: one_digest_def)

lemma digest_groups_run:
  assumes "g \<noteq> []" "one_digest g"
  shows "digest_groups (g @ rs) =
    (g @ takeWhile (\<lambda>x. digest_of x = digest_of (hd g)) rs) # digest_groups (dropWhile (\<lambda>x. digest_of x = digest_of (hd g)) rs)"
proof -
  obtain x xs where g: "g = x # xs" using assms(1) by (cases g) auto
  have "\<forall>y \<in> set xs. digest_of y = digest_of x" using assms(2) g by (simp add: one_digest_def)
  then show ?thesis by (simp add: g takeWhile_append2 dropWhile_append2)
qed

definition page_of :: "usize \<Rightarrow> blob_placement_record list list \<Rightarrow> blob_placement_record list list \<times> string option" where
  "page_of limit gs =
     (take limit gs,
      if length gs > limit then Some (canonical (digest_of (hd (last (take limit gs))))) else None)"

lemma group_loop_eq:
  assumes "length groups < limit" "one_digest grp"
  shows "group_loop limit entries grp groups = page_of limit (groups @ digest_groups (grp @ entries))"
  using assms
proof (induction limit entries grp groups rule: group_loop.induct)
  case (1 limit grp groups)
  show ?case
  proof (cases "grp = []")
    case True
    with 1 show ?thesis by (simp add: page_of_def)
  next
    case False
    then have "digest_groups grp = [grp]"
      using digest_groups_run [of grp "[]"] 1 by simp
    with False 1 show ?thesis by (simp add: page_of_def)
  qed
next
  case (2 limit r entries grp groups)
  show ?case
  proof (cases grp)
    case Nil
    have "group_loop limit entries [r] groups = page_of limit (groups @ digest_groups ([r] @ entries))"
      by (rule "2.IH"(1)) (use Nil "2.prems" in simp_all)
    with Nil show ?thesis by simp
  next
    case (Cons x xs)
    show ?thesis
    proof (cases "digest_of x = digest_of r")
      case True
      have "group_loop limit entries (grp @ [r]) groups = page_of limit (groups @ digest_groups ((grp @ [r]) @ entries))"
        by (rule "2.IH"(3) [OF Cons]) (use Cons True "2.prems" one_digest_snoc in auto)
      with Cons True show ?thesis by simp
    next
      case False
      have grp: "digest_groups (grp @ r # entries) = grp # digest_groups (r # entries)"
        using digest_groups_run [of grp "r # entries"] Cons "2.prems" False by simp
      show ?thesis
      proof (cases "length (groups @ [grp]) = limit")
        case full: True
        then have l: "limit = Suc (length groups)" by simp
        obtain y ys where "digest_groups (r # entries) = y # ys" by (cases "digest_groups (r # entries)") auto
        then have "page_of limit (groups @ digest_groups (grp @ r # entries)) =
            (groups @ [grp], Some (canonical (digest_of x)))"
          unfolding grp using Cons by (simp add: page_of_def l)
        with full Cons False show ?thesis by (simp del: digest_groups.simps)
      next
        case more: False
        have "group_loop limit entries [r] (groups @ [grp]) = page_of limit ((groups @ [grp]) @ digest_groups ([r] @ entries))"
          by (rule "2.IH"(2) [OF Cons]) (use Cons False more "2.prems" in auto)
        then have "group_loop limit (r # entries) grp groups = page_of limit ((groups @ [grp]) @ digest_groups ([r] @ entries))"
          using Cons False more by simp
        then show ?thesis unfolding grp by simp
      qed
    qed
  qed
qed

fun walk_groups :: "nat \<Rightarrow> placement_table \<Rightarrow> string option \<Rightarrow> usize \<Rightarrow> blob_placement_record list list option" where
  "walk_groups 0 table cursor limit = None"
| "walk_groups (Suc fuel) table cursor limit =
     (case scan_blob_placement_groups table cursor limit of
        (groups, None) \<Rightarrow> Some groups
      | (groups, Some next_cursor) \<Rightarrow> map_option ((@) groups) (walk_groups fuel table (Some next_cursor) limit))"

lemma eq_len_less: "length a = length b \<Longrightarrow> a @ [CHR 0x01] \<le> b @ CHR 0x00 # t \<longleftrightarrow> a < b"
proof (induction a b rule: list_induct2)
  case Nil
  then show ?case by (simp add: less_char_def)
qed auto

lemma resume_key:
  assumes "key_ok k" "digest_ok d"
  shows "canonical d @ [CHR 0x01] \<le> encoded_key k \<longleftrightarrow> canonical d < canonical (bpk_digest k)"
  using assms eq_len_less [of "canonical d" "canonical (bpk_digest k)"]
  by (simp add: encoded_key_def length_canonical key_ok_def)

definition by_digest :: "blob_placement_record list \<Rightarrow> bool" where
  "by_digest rs \<longleftrightarrow> sorted_wrt (\<lambda>a b. digest_of a \<le> digest_of b) rs"

lemma by_digest_tail: "by_digest (r # rs) \<Longrightarrow> by_digest (dropWhile Q rs)"
  by (metis by_digest_def sorted_wrt.simps(2) dropWhile_eq_drop sorted_wrt_drop)

lemma by_digest_rest:
  assumes "by_digest (r # rs)" "x \<in> set (dropWhile (\<lambda>x. digest_of x = digest_of r) rs)"
  shows "digest_of r < digest_of x"
proof -
  let ?rest = "dropWhile (\<lambda>x. digest_of x = digest_of r) rs"
  obtain y ys where rest: "?rest = y # ys" using assms(2) by (cases ?rest) auto
  have y: "digest_of y \<noteq> digest_of r" using rest by (metis (mono_tags, lifting) dropWhile_eq_Cons_conv)
  have "y \<in> set rs" using rest by (metis list.set_intros(1) set_dropWhileD)
  then have "digest_of r < digest_of y" using assms(1) y by (simp add: by_digest_def order.strict_iff_order)
  moreover have "digest_of y \<le> digest_of x"
    using by_digest_tail [OF assms(1), of "\<lambda>x. digest_of x = digest_of r"] assms(2) rest by (auto simp: by_digest_def)
  ultimately show ?thesis by simp
qed

lemma digest_groups_nonempty: "g \<in> set (digest_groups rs) \<Longrightarrow> g \<noteq> [] \<and> one_digest g"
proof (induction rs rule: digest_groups.induct)
  case (2 r rs)
  have "one_digest (r # takeWhile (\<lambda>x. digest_of x = digest_of r) rs)"
    unfolding one_digest_def by (metis (mono_tags, lifting) list.sel(1) set_ConsD set_takeWhileD)
  with 2 show ?case by auto
qed simp

lemma digest_groups_drop: "digest_groups (concat (drop n (digest_groups rs))) = drop n (digest_groups rs)"
proof (induction rs arbitrary: n rule: digest_groups.induct)
  case (2 r rs)
  show ?case
  proof (cases n)
    case 0
    have "digest_groups (concat (digest_groups (r # rs))) = digest_groups (r # rs)"
      by (simp only: concat_digest_groups)
    with 0 show ?thesis by simp
  next
    case (Suc m)
    with 2 show ?thesis by simp
  qed
qed simp

lemma filter_above_group:
  assumes "by_digest rs" "n < length (digest_groups rs)"
  shows "filter (\<lambda>x. digest_of (hd (digest_groups rs ! n)) < digest_of x) rs = concat (drop (Suc n) (digest_groups rs))"
  using assms
proof (induction rs arbitrary: n rule: digest_groups.induct)
  case (2 r rs)
  let ?same = "\<lambda>x. digest_of x = digest_of r"
  let ?rest = "dropWhile ?same rs"
  have eq: "digest_of x = digest_of r" if "x \<in> set (takeWhile ?same rs)" for x
    using set_takeWhileD [OF that] by simp
  have gt: "digest_of r < digest_of x" if "x \<in> set ?rest" for x
    using by_digest_rest [OF "2.prems"(1) that] .
  have keep: "filter (\<lambda>x. d < digest_of x) (r # rs) = filter (\<lambda>x. d < digest_of x) ?rest"
    if "digest_of r \<le> d" for d
  proof -
    have "\<not> d < digest_of x" if "x \<in> set (takeWhile ?same rs)" for x
      using eq [OF that] \<open>digest_of r \<le> d\<close> by (metis leD)
    then have "filter (\<lambda>x. d < digest_of x) (takeWhile ?same rs) = []"
      by (simp add: filter_empty_conv)
    moreover have "filter (\<lambda>x. d < digest_of x) rs =
        filter (\<lambda>x. d < digest_of x) (takeWhile ?same rs) @ filter (\<lambda>x. d < digest_of x) ?rest"
      by (simp only: takeWhile_dropWhile_id flip: filter_append)
    moreover have "\<not> d < digest_of r" using that by simp
    ultimately show ?thesis by simp
  qed
  show ?case
  proof (cases n)
    case 0
    have "filter (\<lambda>x. digest_of r < digest_of x) ?rest = ?rest" using gt by (simp add: filter_id_conv)
    with 0 keep [of "digest_of r"] show ?thesis by (simp add: concat_digest_groups)
  next
    case (Suc m)
    let ?g = "hd (digest_groups ?rest ! m)"
    have m: "m < length (digest_groups ?rest)" using "2.prems"(2) Suc by simp
    then have "digest_groups ?rest ! m \<noteq> []" using digest_groups_nonempty nth_mem by blast
    then have "?g \<in> set (concat (digest_groups ?rest))" using m by (metis UN_I hd_in_set nth_mem set_concat)
    then have "digest_of r < digest_of ?g" using gt by (simp add: concat_digest_groups)
    with Suc m "2.IH" [of m] by_digest_tail [OF "2.prems"(1)] keep [of "digest_of ?g"] show ?thesis by simp
  qed
qed simp

lemma digest_groups_distinct: "by_digest rs \<Longrightarrow> distinct (map (\<lambda>g. digest_of (hd g)) (digest_groups rs))"
proof (induction rs rule: digest_groups.induct)
  case (2 r rs)
  let ?rest = "dropWhile (\<lambda>x. digest_of x = digest_of r) rs"
  have "digest_of r < digest_of (hd g)" if "g \<in> set (digest_groups ?rest)" for g
  proof -
    have "hd g \<in> set (concat (digest_groups ?rest))"
      using digest_groups_nonempty [OF that] that by (metis UN_I hd_in_set set_concat)
    then show ?thesis using by_digest_rest [OF "2.prems"] by (simp add: concat_digest_groups)
  qed
  then show ?case using 2 by_digest_tail [OF "2.prems"] by fastforce
qed simp

lemma append_less_cancel: "(c :: string) @ a < c @ b \<longleftrightarrow> a < b"
  by (induction c) auto

lemma append_less_mono: "length (a :: string) = length b \<Longrightarrow> a < b \<Longrightarrow> a @ s < b @ t"
  by (induction a b rule: list_induct2) auto

lemma canonical_less: "canonical a < canonical b \<longleftrightarrow> a < b"
  by (simp only: canonical_def append_less_cancel)

definition all_records :: "placement_table \<Rightarrow> blob_placement_record list" where
  "all_records table = map snd (sorted_list_of_fmap table)"

lemma all_records_by_digest:
  assumes "fmpred row_ok table"
  shows "by_digest (all_records table)"
proof -
  have "digest_of (snd x) \<le> digest_of (snd y)"
    if "fst x < fst y" "x \<in> set (sorted_list_of_fmap table)" "y \<in> set (sorted_list_of_fmap table)" for x y
  proof (rule ccontr)
    assume "\<not> ?thesis"
    then have lt: "canonical (digest_of (snd y)) < canonical (digest_of (snd x))" by (simp add: canonical_less)
    have ok: "row_ok (fst x) (snd x)" "row_ok (fst y) (snd y)"
      using that assms by (metis fmpred_iff in_sorted_list_of_fmap prod.collapse)+
    then have "length (canonical (digest_of (snd y))) = length (canonical (digest_of (snd x)))"
      by (simp add: row_ok_def key_ok_def length_canonical)
    from append_less_mono [OF this lt] ok have "fst y < fst x" by (simp add: row_ok_def encoded_key_def)
    with that(1) show False by simp
  qed
  then show ?thesis
    using sorted_keys_fmap [of table] unfolding by_digest_def all_records_def sorted_wrt_map
    by (auto intro: sorted_wrt_mono_rel [rotated])
qed

definition above :: "artifact_digest option \<Rightarrow> blob_placement_record \<Rightarrow> bool" where
  "above d r = (case d of None \<Rightarrow> True | Some d \<Rightarrow> d < digest_of r)"

lemma scan_groups_eq:
  assumes "fmpred row_ok table" "\<forall>d0. d = Some d0 \<longrightarrow> digest_ok d0" "0 < limit"
  shows "scan_blob_placement_groups table (map_option canonical d) limit =
    page_of limit (digest_groups (filter (above d) (all_records table)))"
proof -
  have "map snd (rows_from (map_option (\<lambda>digest. digest @ [CHR 0x01]) (map_option canonical d)) table) =
      filter (above d) (all_records table)"
  proof (cases d)
    case None
    have "above None = (\<lambda>_. True)" by (simp add: above_def fun_eq_iff)
    with None show ?thesis by (simp add: rows_from_def all_records_def)
  next
    case (Some d0)
    have "canonical d0 @ [CHR 0x01] \<le> fst x \<longleftrightarrow> d0 < digest_of (snd x)"
      if "x \<in> set (sorted_list_of_fmap table)" for x
    proof -
      have "row_ok (fst x) (snd x)"
        using that assms(1) by (metis fmpred_iff in_sorted_list_of_fmap prod.collapse)
      then show ?thesis
        using resume_key [of "bp_key (snd x)" d0] assms(2) Some by (simp add: row_ok_def canonical_less)
    qed
    then have "filter (\<lambda>(k, _). canonical d0 @ [CHR 0x01] \<le> k) (sorted_list_of_fmap table) =
        filter (\<lambda>x. above (Some d0) (snd x)) (sorted_list_of_fmap table)"
      by (intro filter_cong refl) (simp add: above_def case_prod_unfold)
    then show ?thesis using Some by (simp add: rows_from_def all_records_def filter_map comp_def)
  qed
  then show ?thesis
    using group_loop_eq [of "[]" limit "[]"] assms(3) by (simp add: scan_blob_placement_groups_def)
qed

lemma digest_groups_length: "length (digest_groups rs) \<le> length rs"
proof (induction rs rule: digest_groups.induct)
  case (2 r rs)
  then show ?case using length_dropWhile_le [of "\<lambda>x. digest_of x = digest_of r" rs] by simp
qed simp

lemma walk_groups_from:
  assumes "fmpred row_ok table" "\<forall>d0. d = Some d0 \<longrightarrow> digest_ok d0" "0 < limit"
    and "length (digest_groups (filter (above d) (all_records table))) < fuel"
  shows "walk_groups fuel table (map_option canonical d) limit = Some (digest_groups (filter (above d) (all_records table)))"
  using assms
proof (induction fuel arbitrary: d)
  case (Suc fuel)
  let ?rs = "filter (above d) (all_records table)"
  let ?gs = "digest_groups ?rs"
  note scan = scan_groups_eq [OF Suc.prems(1-3)]
  show ?case
  proof (cases "length ?gs > limit")
    case False
    then show ?thesis using scan by (simp add: page_of_def)
  next
    case True
    let ?d = "digest_of (hd (?gs ! (limit - 1)))"
    have n: "limit - 1 < length ?gs" "Suc (limit - 1) = limit" using True Suc.prems(3) by simp_all
    have last: "last (take limit ?gs) = ?gs ! (limit - 1)"
      using True Suc.prems(3) by (subst last_conv_nth) (auto simp: min_def)
    have sorted: "by_digest ?rs"
      using all_records_by_digest [OF Suc.prems(1)] by (simp add: by_digest_def sorted_wrt_filter)
    have mem: "hd (?gs ! (limit - 1)) \<in> set ?rs"
      using digest_groups_nonempty [OF nth_mem [OF n(1)]] nth_mem [OF n(1)] concat_digest_groups [of ?rs]
      by (metis UN_I hd_in_set set_concat)
    then have "above d (hd (?gs ! (limit - 1)))" by simp
    then have "filter (above (Some ?d)) (all_records table) = filter (above (Some ?d)) ?rs"
      by (auto simp: above_def filter_filter intro!: filter_cong split: option.splits)
    also have "\<dots> = concat (drop limit ?gs)"
      using filter_above_group [OF sorted n(1)] n(2) by (simp add: above_def)
    finally have nxt: "digest_groups (filter (above (Some ?d)) (all_records table)) = drop limit ?gs"
      by (simp only: digest_groups_drop)
    have "\<exists>k. fmlookup table k = Some (hd (?gs ! (limit - 1)))"
      using mem by (auto simp: all_records_def)
    then have "digest_ok ?d"
      using Suc.prems(1) by (auto simp: fmpred_iff row_ok_def key_ok_def)
    moreover have "length (drop limit ?gs) < fuel" using Suc.prems(3,4) True by simp
    ultimately have "walk_groups fuel table (map_option canonical (Some ?d)) limit = Some (drop limit ?gs)"
      using Suc.IH [of "Some ?d"] Suc.prems(1,3) nxt by simp
    then show ?thesis using scan True last by (simp add: page_of_def)
  qed
qed simp

text \<open>C16: following the cursors of the grouped scan visits the whole placement table. The pages,
  concatenated, are every stored record in key order; each group is one digest, and no digest is
  split over two groups or two pages.\<close>

theorem walk_groups_complete:
  assumes "fmpred row_ok table" "0 < limit" "length (sorted_list_of_fmap table) < fuel"
  shows "\<exists>groups. walk_groups fuel table None limit = Some groups
    \<and> concat groups = map snd (sorted_list_of_fmap table)
    \<and> distinct (map (\<lambda>g. bpk_digest (bp_key (hd g))) groups)
    \<and> (\<forall>g \<in> set groups. g \<noteq> [] \<and> (\<forall>r \<in> set g. bpk_digest (bp_key r) = bpk_digest (bp_key (hd g))))"
proof -
  have all: "filter (above None) (all_records table) = all_records table"
    by (simp add: above_def)
  have "length (digest_groups (all_records table)) < fuel"
    using digest_groups_length [of "all_records table"] assms(3) by (simp add: all_records_def)
  then have "walk_groups fuel table None limit = Some (digest_groups (all_records table))"
    using walk_groups_from [OF assms(1), of None limit fuel] assms(2) by (simp add: all)
  moreover have "concat (digest_groups (all_records table)) = map snd (sorted_list_of_fmap table)"
    by (simp only: concat_digest_groups all_records_def)
  ultimately show ?thesis
    using digest_groups_nonempty digest_groups_distinct [OF all_records_by_digest [OF assms(1)]]
    unfolding one_digest_def by blast
qed

section \<open>Routing and fetch plans\<close>

lemma route_fold:
  "foldl (route_one dc) rt rs = rt
     \<lparr>rt_local := rt_local rt @ filter (\<lambda>r. is_verified (bp_state r) \<and> bpk_data_center (bp_key r) = dc) rs,
      rt_verified_remote := rt_verified_remote rt @ filter (\<lambda>r. is_verified (bp_state r) \<and> bpk_data_center (bp_key r) \<noteq> dc) rs,
      rt_pending := rt_pending rt @ filter (\<lambda>r. bp_state r = Pending) rs,
      rt_failed := rt_failed rt @ filter (\<lambda>r. is_failed (bp_state r)) rs,
      rt_revoked := rt_revoked rt @ filter (\<lambda>r. bp_state r = Revoked) rs\<rparr>"
proof (induction rs arbitrary: rt)
  case (Cons r rs)
  then show ?case by (cases "bp_state r") (simp_all add: route_one_def)
qed simp

lemma route_serveable:
  "is_serveable (route_blob_placements rs dc) \<longleftrightarrow> (\<exists>r \<in> set rs. is_verified (bp_state r))"
  by (auto simp: route_blob_placements_def route_fold is_serveable_def routing_default_def filter_empty_conv)

lemma route_empty: "routing_is_empty (route_blob_placements rs dc) \<longleftrightarrow> rs = []"
proof (cases rs)
  case (Cons r rs')
  then show ?thesis
    by (cases "bp_state r")
      (auto simp: route_blob_placements_def route_fold route_one_def routing_is_empty_def routing_default_def)
qed (simp add: route_blob_placements_def routing_is_empty_def routing_default_def)

interpretation fetch: comparator "fetch_order local_dc" for local_dc
  unfolding fetch_order_def
  by (intro comparator_then comparator_rev [OF comparator_on [OF comparator_cmp, of pd_generation]]
      comparator_on [OF comparator_cmp, of "\<lambda>p. pd_data_center p \<noteq> local_dc"]
      comparator_on [OF comparator_cmp, of pd_data_center] comparator_on [OF comparator_cmp, of pd_location]
      comparator_on [OF comparator_cmp, of pd_backend])

lemma fetch_order_tie:
  assumes "fetch_order dc a b = Equal"
  shows "pd_data_center a = pd_data_center b" "pd_location a = pd_location b" "pd_backend a = pd_backend b"
    "pd_generation a = pd_generation b"
  using assms by (auto simp: fetch_order_def then_with_Equal)

lemma fetch_order_local_first:
  assumes "fetch_order dc a b \<noteq> Greater" "pd_data_center b = dc"
  shows "pd_data_center a = dc \<and> pd_generation b \<le> pd_generation a"
  using assms by (auto simp: fetch_order_def then_with_Greater cmp_def split: if_splits)


section \<open>Copy plans\<close>

definition remote_sources :: "string \<Rightarrow> blob_placement_record list \<Rightarrow> verified_source list" where
  "remote_sources dc rs = List.map_filter (\<lambda>r. case bp_state r of
     Verified n \<Rightarrow> if bpk_data_center (bp_key r) = dc then None
                   else Some \<lparr>vs_key = bp_key r, vs_generation = bp_generation r, vs_size = n\<rparr>
   | _ \<Rightarrow> None) rs"

definition settles_locally :: "string \<Rightarrow> u64 \<Rightarrow> blob_placement_record \<Rightarrow> bool" where
  "settles_locally dc fence r \<longleftrightarrow> bpk_data_center (bp_key r) = dc
     \<and> (is_verified (bp_state r) \<or> bp_state r = Pending \<and> bp_fence r \<ge> fence)"

lemma backlog_loop_eq:
  "backlog_loop dc fence rs settled sources = (settled \<or> (\<exists>r \<in> set rs. settles_locally dc fence r), sources @ remote_sources dc rs)"
proof (induction rs arbitrary: settled sources)
  case (Cons r rs)
  then show ?case
    by (cases "bp_state r") (auto simp: settles_locally_def remote_sources_def Let_def List.map_filter_simps)
qed (simp add: remote_sources_def List.map_filter_simps)

lemma newest_source_None: "newest_source ss = None \<longleftrightarrow> ss = []"
  by (cases ss) (auto split: option.splits)

lemma newest_source_max:
  "newest_source ss = Some s \<Longrightarrow> s \<in> set ss \<and> (\<forall>x \<in> set ss. vs_generation x \<le> vs_generation s)"
proof (induction ss arbitrary: s)
  case (Cons a ss)
  show ?case
  proof (cases "newest_source ss")
    case None
    with Cons.prems show ?thesis by (simp add: newest_source_None)
  next
    case (Some b)
    with Cons.IH have b: "b \<in> set ss" "\<forall>x \<in> set ss. vs_generation x \<le> vs_generation b" by blast+
    show ?thesis
    proof (cases "vs_generation b > vs_generation a")
      case True
      with Some Cons.prems b show ?thesis by simp
    next
      case False
      with Some Cons.prems b have "s = a" by simp
      with b False show ?thesis by (auto intro: order_trans)
    qed
  qed
qed simp

lemma copy_backlog_entry_eq:
  "copy_backlog_entry rs dc fence =
     (if \<exists>r \<in> set rs. settles_locally dc fence r then None
      else map_option (\<lambda>s. \<lparr>cb_digest = bpk_digest (bp_key (hd rs)), cb_source = s\<rparr>) (newest_source (remote_sources dc rs)))"
  by (cases rs) (auto simp: copy_backlog_entry_def backlog_loop_eq remote_sources_def List.map_filter_simps
      split: option.splits)

lemma in_remote_sources:
  "s \<in> set (remote_sources dc rs) \<longleftrightarrow> (\<exists>r \<in> set rs. bp_state r = Verified (vs_size s)
      \<and> bpk_data_center (bp_key r) \<noteq> dc \<and> vs_key s = bp_key r \<and> vs_generation s = bp_generation r)"
  unfolding remote_sources_def in_map_filter
  by (rule bex_cong [OF refl]) (auto split: blob_placement_state.splits if_splits intro: verified_source.equality)

lemma is_verified_iff: "is_verified st \<longleftrightarrow> (\<exists>n. st = Verified n)"
  by (cases st) auto

lemma remote_sources_empty:
  "remote_sources dc rs = [] \<longleftrightarrow> \<not> (\<exists>r \<in> set rs. is_verified (bp_state r) \<and> bpk_data_center (bp_key r) \<noteq> dc)"
  unfolding remote_sources_def
  by (induction rs) (auto simp: List.map_filter_simps is_verified_iff split: blob_placement_state.splits if_splits)

text \<open>C18: a cross-datacenter copy is planned exactly when a verified copy exists in another datacenter and
  this datacenter neither holds a verified copy nor runs a transfer at the caller's fence or above. The
  plan copies the newest verified remote copy, at its recorded size, into this datacenter under the
  caller's fence.\<close>

theorem copy_plan_correct:
  "(copy_backlog_entry rs dc fence = None \<longleftrightarrow>
      \<not> (\<exists>r \<in> set rs. is_verified (bp_state r) \<and> bpk_data_center (bp_key r) \<noteq> dc)
      \<or> (\<exists>r \<in> set rs. bpk_data_center (bp_key r) = dc
            \<and> (is_verified (bp_state r) \<or> bp_state r = Pending \<and> bp_fence r \<ge> fence)))
   \<and> (\<forall>entry copy. copy_backlog_entry rs dc fence = Some entry \<and> copy = plan_cross_dc_copy entry dc backend fence \<longrightarrow>
        (\<exists>r \<in> set rs. bp_key r = cc_source copy \<and> bp_state r = Verified (cc_size copy)
          \<and> bpk_data_center (bp_key r) \<noteq> dc
          \<and> (\<forall>q \<in> set rs. is_verified (bp_state q) \<and> bpk_data_center (bp_key q) \<noteq> dc \<longrightarrow>
               bp_generation q \<le> bp_generation r))
        \<and> cc_fence copy = fence \<and> bpk_data_center (cc_target copy) = dc
        \<and> bpk_digest (cc_target copy) = bpk_digest (bp_key (hd rs)))"
proof (intro conjI allI impI)
  show "copy_backlog_entry rs dc fence = None \<longleftrightarrow>
      \<not> (\<exists>r \<in> set rs. is_verified (bp_state r) \<and> bpk_data_center (bp_key r) \<noteq> dc)
      \<or> (\<exists>r \<in> set rs. bpk_data_center (bp_key r) = dc
            \<and> (is_verified (bp_state r) \<or> bp_state r = Pending \<and> bp_fence r \<ge> fence))"
    unfolding copy_backlog_entry_eq settles_locally_def
    by (simp add: newest_source_None remote_sources_empty) blast
next
  fix entry copy
  assume "copy_backlog_entry rs dc fence = Some entry \<and> copy = plan_cross_dc_copy entry dc backend fence"
  then obtain s where s: "newest_source (remote_sources dc rs) = Some s" "cb_source entry = s"
      "cb_digest entry = bpk_digest (bp_key (hd rs))" and copy: "copy = plan_cross_dc_copy entry dc backend fence"
    unfolding copy_backlog_entry_eq by (auto split: if_splits)
  from newest_source_max [OF s(1)] obtain r where r: "r \<in> set rs" "bp_state r = Verified (vs_size s)"
      "bpk_data_center (bp_key r) \<noteq> dc" "vs_key s = bp_key r" "vs_generation s = bp_generation r"
    by (auto simp: in_remote_sources)
  have "bp_generation q \<le> bp_generation r"
    if "q \<in> set rs" "is_verified (bp_state q)" "bpk_data_center (bp_key q) \<noteq> dc" for q
  proof -
    from that(2) obtain n where "bp_state q = Verified n" by (auto simp: is_verified_iff)
    then have "\<lparr>vs_key = bp_key q, vs_generation = bp_generation q, vs_size = n\<rparr> \<in> set (remote_sources dc rs)"
      using that by (auto simp: in_remote_sources)
    with newest_source_max [OF s(1)] r show ?thesis by fastforce
  qed
  with r s copy show "\<exists>r \<in> set rs. bp_key r = cc_source copy \<and> bp_state r = Verified (cc_size copy)
          \<and> bpk_data_center (bp_key r) \<noteq> dc
          \<and> (\<forall>q \<in> set rs. is_verified (bp_state q) \<and> bpk_data_center (bp_key q) \<noteq> dc \<longrightarrow>
               bp_generation q \<le> bp_generation r)"
    by (auto simp: plan_cross_dc_copy_def)
  show "cc_fence copy = fence" "bpk_data_center (cc_target copy) = dc"
    "bpk_digest (cc_target copy) = bpk_digest (bp_key (hd rs))"
    using s copy by (simp_all add: plan_cross_dc_copy_def)
qed

section \<open>Witnesses\<close>

definition sample_key :: "string \<Rightarrow> blob_placement_key" where
  "sample_key dc = \<lparr>bpk_digest = replicate 64 CHR ''a'', bpk_backend = ''fs'', bpk_data_center = dc,
     bpk_location = replicate 64 CHR ''a''\<rparr>"

definition sample_record :: "string \<Rightarrow> blob_placement_state \<Rightarrow> blob_placement_record" where
  "sample_record dc st = \<lparr>bp_key = sample_key dc, bp_state = st, bp_fence = 3, bp_transfer_attempt = 2,
     bp_generation = 4, bp_updated_at_unix = 100\<rparr>"

definition sample_table :: placement_table where
  "sample_table = foldl put_step fmempty
     [(None, sample_record ''east'' (Verified 9)), (None, sample_record ''west'' Pending)]"

lemma sample_puts: "run_ok put_step put_ok fmempty
     [(None, sample_record ''east'' (Verified 9)), (None, sample_record ''west'' Pending)]"
  by code_simp

lemma sample_digest: "digest_ok (replicate 64 CHR ''a'')"
  by code_simp

lemma placement_superseded_rejected_witness:
  "\<exists>e. decide_blob_placement (sample_key ''east'')
     (foldl (fenced_step (decide_step (sample_key ''east''))) (Some (sample_record ''east'' (Failed SourceUnavailable)))
        [((Stage, 110), 3)]) (Verify 1 (replicate 64 CHR ''a'') 9) 3 120 = Inl e"
  by (rule placement_superseded_rejected [where a = 1]) (simp add: sample_record_def)

lemma verified_has_evidence_witness:
  "\<exists>((tr, now), fence) \<in> set [((Stage, 100), 1 :: u64), ((Verify 1 (replicate 64 CHR ''a'') 9, 110 :: i64), 1)].
     evidence_for (bpk_digest (sample_key ''east'')) 9 tr"
proof -
  let ?cs = "[((Stage, 100), 1), ((Verify 1 (replicate 64 CHR ''a'') 9, 110), 1)]"
  have st: "map_option bp_state (foldl (fenced_step (decide_step (sample_key ''east''))) None ?cs) = Some (Verified 9)"
    by code_simp
  then obtain r where "foldl (fenced_step (decide_step (sample_key ''east''))) None ?cs = Some r" "bp_state r = Verified 9"
    by (auto simp only: map_option_eq_Some)
  then show ?thesis by (rule verified_has_evidence)
qed

lemma placement_table_bounded_exact_witness:
  "length (blob_placements sample_table (replicate 64 CHR ''a'')) \<le> MAX_PLACEMENTS_PER_DIGEST
   \<and> set (blob_placements sample_table (replicate 64 CHR ''a'')) =
      {r. \<exists>k. fmlookup sample_table k = Some r \<and> bpk_digest (bp_key r) = replicate 64 CHR ''a''}"
  unfolding sample_table_def by (rule placement_table_bounded_exact [OF sample_puts sample_digest])


lemma apply_blob_placement_returns_witness:
  "\<exists>r table'. apply_blob_placement ([\<lambda>_. fmempty] @ id # []) sample_table (sample_key ''west'') Stage 4 200 = (Some r, table')"
  by (rule apply_blob_placement_returns) simp

lemma walk_groups_complete_witness:
  "\<exists>groups. walk_groups 3 sample_table None 1 = Some groups
    \<and> concat groups = map snd (sorted_list_of_fmap sample_table)
    \<and> distinct (map (\<lambda>g. bpk_digest (bp_key (hd g))) groups)
    \<and> (\<forall>g \<in> set groups. g \<noteq> [] \<and> (\<forall>r \<in> set g. bpk_digest (bp_key r) = bpk_digest (bp_key (hd g))))"
proof (rule walk_groups_complete)
  show "fmpred row_ok sample_table"
    using placement_log.inv_run [OF table_inv_empty sample_puts] by (simp add: table_inv_def sample_table_def)
  show "length (sorted_list_of_fmap sample_table) < 3" by code_simp
qed simp


lemma copy_plan_correct_witness:
  "copy_backlog_entry [sample_record ''east'' (Verified 9), sample_record ''west'' Pending] ''west'' 4 \<noteq> None"
proof -
  let ?rs = "[sample_record ''east'' (Verified 9), sample_record ''west'' Pending]"
  have "copy_backlog_entry ?rs ''west'' 4 = None \<longleftrightarrow>
      \<not> (\<exists>r \<in> set ?rs. is_verified (bp_state r) \<and> bpk_data_center (bp_key r) \<noteq> ''west'')
      \<or> (\<exists>r \<in> set ?rs. bpk_data_center (bp_key r) = ''west''
            \<and> (is_verified (bp_state r) \<or> bp_state r = Pending \<and> bp_fence r \<ge> 4))"
    using copy_plan_correct [of ?rs "''west''" 4] by blast
  then show ?thesis by (simp add: sample_record_def sample_key_def)
qed

end
