(* ===== verification/Revocation.thy ===== *)
theory Revocation
  imports Contracts Interfaces
begin

text \<open>
  The digest revocation tables of \<open>peryx-storage/src/meta/revocation.rs\<close>: the revocation rows, the status
  index and the active count that every writer keeps in step, and the queries that read the index or the
  count instead of the rows. A table that was never opened for writing is absent (\<open>None\<close>), because the
  active check tells an absent table from an empty one. The writers that also journal are in \<open>Journal\<close>.
\<close>

section \<open>Rows\<close>

text \<open>The errors of the metadata store that do not come from redb itself (\<open>meta/error.rs\<close>).\<close>

datatype meta_error =
  DecodeError
| BlobReclaiming string
| ReplicaSerialConflict u64 u64
| ArtifactPlacementRevisionOverflow
| DriverPrecondition string
| StaleCheckpointGeneration u64 u64
| CheckpointGenerationExpired u64
| CheckpointReferences string
| CheckpointBlobSizesMissing "string list"

type_synonym revocation_reason = string
type_synonym user_id = string

datatype digest_revocation_status = StatusActive | StatusLifted

datatype digest_revocation_state = RevActive | RevLifted (lifted_by: user_id) (lifted_at_unix: i64)

fun revocation_status :: "digest_revocation_state \<Rightarrow> digest_revocation_status" where
  "revocation_status RevActive = StatusActive"
| "revocation_status (RevLifted _ _) = StatusLifted"

fun index_prefix :: "digest_revocation_status \<Rightarrow> string" where
  "index_prefix StatusActive = ''active'' @ [CHR 0x00]"
| "index_prefix StatusLifted = ''lifted'' @ [CHR 0x00]"

record digest_revocation =
  dr_digest :: artifact_digest
  dr_reason :: revocation_reason
  dr_created_by :: user_id
  dr_created_at_unix :: i64
  dr_state :: digest_revocation_state
  dr_revision :: u64

abbreviation row_status :: "digest_revocation \<Rightarrow> digest_revocation_status" where
  "row_status r \<equiv> revocation_status (dr_state r)"

record revocation_tables =
  rt_rows :: "(string, digest_revocation) fmap option"
  rt_by_status :: "string fset option"
  rt_state :: "u64 option option"

definition revocation_tables_absent :: revocation_tables where
  "revocation_tables_absent = \<lparr>rt_rows = None, rt_by_status = None, rt_state = None\<rparr>"

text \<open>Opening a table for writing creates it; the count row counts as zero while it is missing.\<close>

definition open_rows :: "revocation_tables \<Rightarrow> (string, digest_revocation) fmap" where
  "open_rows t = (case rt_rows t of None \<Rightarrow> fmempty | Some rows \<Rightarrow> rows)"

definition open_index :: "revocation_tables \<Rightarrow> string fset" where
  "open_index t = (case rt_by_status t of None \<Rightarrow> {||} | Some idx \<Rightarrow> idx)"

definition active_count :: "revocation_tables \<Rightarrow> u64" where
  "active_count t = (case rt_state t of Some (Some n) \<Rightarrow> n | _ \<Rightarrow> 0)"

definition index_key :: "digest_revocation_status \<Rightarrow> string \<Rightarrow> string" where
  "index_key st digest = index_prefix st @ digest"

section \<open>Writers\<close>

definition count_active :: "digest_revocation list \<Rightarrow> u64" where
  "count_active rows = foldl (\<lambda>n r. if row_status r = StatusActive then n + 1 else n) 0 rows"

definition index_of_rows :: "(string \<times> digest_revocation) list \<Rightarrow> string fset" where
  "index_of_rows rows = foldl (\<lambda>idx (k, r). finsert (index_key (row_status r) k) idx) {||} rows"

definition backfill_digest_revocation_state :: "revocation_tables \<Rightarrow> revocation_tables" where
  "backfill_digest_revocation_state t =
     (let rows = open_rows t; entries = sorted_list_of_fmap rows; idx = open_index t;
          active = foldl (\<lambda>n (_, r). if dr_state r = RevActive then n + 1 else n) 0 entries;
          indexed = list_all (\<lambda>(k, r). index_key (row_status r) k |\<in>| idx) entries
      in \<lparr>rt_rows = Some rows,
          rt_by_status = Some (if \<not> indexed \<or> fcard idx \<noteq> fcard (fmdom rows) then index_of_rows entries else idx),
          rt_state = (if active_count t \<noteq> active then Some (Some active)
                      else Some (case rt_state t of None \<Rightarrow> None | Some c \<Rightarrow> c))\<rparr>)"

definition replace_digest_revocations :: "(string, digest_revocation) fmap \<Rightarrow> revocation_tables" where
  "replace_digest_revocations records =
     (let entries = sorted_list_of_fmap records in
      \<lparr>rt_rows = Some (foldl (\<lambda>rows (k, r). fmupd k r rows) fmempty entries),
       rt_by_status = Some (index_of_rows entries),
       rt_state = Some (Some (count_active (map snd entries)))\<rparr>)"

definition apply_digest_revocation :: "revocation_tables \<Rightarrow> digest_revocation \<Rightarrow> (meta_error, revocation_tables) result" where
  "apply_digest_revocation t r =
     (let key = canonical (dr_digest r); st = row_status r;
          previous = map_option row_status (fmlookup (open_rows t) key);
          t1 = t\<lparr>rt_rows := Some (fmupd key r (open_rows t))\<rparr>
      in if previous = Some st then Inr t1
         else
           let idx = (case previous of None \<Rightarrow> open_index t | Some p \<Rightarrow> open_index t |-| {|index_key p key|});
               t2 = t1\<lparr>rt_by_status := Some (finsert (index_key st key) idx)\<rparr>
           in case (case st of
                      StatusActive \<Rightarrow> u64_checked_add (active_count t) 1
                    | StatusLifted \<Rightarrow> u64_checked_sub (active_count t) 1) of
                None \<Rightarrow> Inl (DriverPrecondition (case st of
                      StatusActive \<Rightarrow> ''digest revocation active count overflow''
                    | StatusLifted \<Rightarrow> ''digest revocation active count underflow''))
              | Some active \<Rightarrow> Inr (t2\<lparr>rt_state := Some (Some active)\<rparr>))"

datatype put_revocation_outcome =
  RevCreated digest_revocation | RevUnchanged digest_revocation | RevReopened digest_revocation

fun put_outcome_record :: "put_revocation_outcome \<Rightarrow> digest_revocation" where
  "put_outcome_record (RevCreated r) = r"
| "put_outcome_record (RevUnchanged r) = r"
| "put_outcome_record (RevReopened r) = r"

datatype put_revocation_error = PutRevStore meta_error | ReasonConflict

datatype lift_revocation_outcome = LiftLifted digest_revocation | LiftUnchanged digest_revocation

fun lift_outcome_record :: "lift_revocation_outcome \<Rightarrow> digest_revocation" where
  "lift_outcome_record (LiftLifted r) = r"
| "lift_outcome_record (LiftUnchanged r) = r"

section \<open>Queries\<close>

definition has_active_digest_revocation :: "revocation_tables \<Rightarrow> (meta_error, bool) result" where
  "has_active_digest_revocation t =
     (case (rt_rows t, rt_state t) of
        (None, None) \<Rightarrow> Inr False
      | (Some _, Some cnt) \<Rightarrow> Inr (case cnt of None \<Rightarrow> False | Some n \<Rightarrow> n > 0)
      | _ \<Rightarrow> Inl (DriverPrecondition ''digest revocation index is incomplete''))"

definition digest_revocation_of :: "revocation_tables \<Rightarrow> artifact_digest \<Rightarrow> digest_revocation option" where
  "digest_revocation_of t digest = (case rt_rows t of None \<Rightarrow> None | Some rows \<Rightarrow> fmlookup rows (canonical digest))"

definition MAX_REVOCATION_LIMIT :: usize where
  "MAX_REVOCATION_LIMIT = 100"

record digest_revocation_query =
  rq_status :: "digest_revocation_status option"
  rq_cursor :: "artifact_digest option"
  rq_limit :: usize

definition revocation_query_default :: digest_revocation_query where
  "revocation_query_default = \<lparr>rq_status = None, rq_cursor = None, rq_limit = 25\<rparr>"

record digest_revocation_page =
  rp_revocations :: "digest_revocation list"
  rp_next_cursor :: "string option"

datatype digest_revocation_query_error = QueryStore meta_error | RevocationInvalidLimit

fun status_loop ::
  "(string, digest_revocation) fmap \<Rightarrow> digest_revocation_status \<Rightarrow> usize \<Rightarrow> string list \<Rightarrow> digest_revocation list \<Rightarrow>
   (digest_revocation_query_error, digest_revocation list) result" where
  "status_loop rows st limit [] records = Inr records"
| "status_loop rows st limit (key # keys) records =
     (case strip_prefix (index_prefix st) key of
        None \<Rightarrow> Inr records
      | Some digest \<Rightarrow>
          (case fmlookup rows digest of
             None \<Rightarrow> Inl (QueryStore (DriverPrecondition ''digest revocation index references a missing row''))
           | Some r \<Rightarrow>
               let records' = records @ [r] in
               if length records' > limit then Inr records' else status_loop rows st limit keys records'))"

definition status_page ::
  "revocation_tables \<Rightarrow> (string, digest_revocation) fmap \<Rightarrow> digest_revocation_status \<Rightarrow> string option \<Rightarrow> usize \<Rightarrow>
   (digest_revocation_query_error, digest_revocation list) result" where
  "status_page t rows st cursor limit =
     (case rt_by_status t of
        None \<Rightarrow> Inl (QueryStore (DriverPrecondition ''digest revocation index is incomplete''))
      | Some idx \<Rightarrow>
          status_loop rows st limit
            (filter (\<lambda>key. case cursor of None \<Rightarrow> index_prefix st \<le> key | Some c \<Rightarrow> index_key st c < key)
              (sorted_list_of_fset idx)) [])"

fun digest_loop :: "usize \<Rightarrow> (string \<times> digest_revocation) list \<Rightarrow> digest_revocation list \<Rightarrow> digest_revocation list" where
  "digest_loop limit [] records = records"
| "digest_loop limit ((_, r) # entries) records =
     (let records' = records @ [r] in
      if length records' > limit then records' else digest_loop limit entries records')"

definition digest_page ::
  "(string, digest_revocation) fmap \<Rightarrow> string option \<Rightarrow> usize \<Rightarrow> digest_revocation list" where
  "digest_page rows cursor limit = digest_loop limit (rows_after cursor rows) []"

definition query_digest_revocations ::
  "revocation_tables \<Rightarrow> digest_revocation_query \<Rightarrow> (digest_revocation_query_error, digest_revocation_page) result" where
  "query_digest_revocations t query =
     (if \<not> (1 \<le> rq_limit query \<and> rq_limit query \<le> MAX_REVOCATION_LIMIT) then Inl RevocationInvalidLimit
      else case rt_rows t of
        None \<Rightarrow> Inr \<lparr>rp_revocations = [], rp_next_cursor = None\<rparr>
      | Some rows \<Rightarrow>
          let cursor = map_option canonical (rq_cursor query) in
          and_then (case rq_status query of
                      Some st \<Rightarrow> status_page t rows st cursor (rq_limit query)
                    | None \<Rightarrow> Inr (digest_page rows cursor (rq_limit query)))
            (\<lambda>records.
               Inr \<lparr>rp_revocations = take (rq_limit query) records,
                    rp_next_cursor = (if length records > rq_limit query
                       then Some (canonical (dr_digest (records ! (rq_limit query - 1)))) else None)\<rparr>))"

section \<open>The index and the count describe the rows\<close>

definition active_rows :: "(string, digest_revocation) fmap \<Rightarrow> string set" where
  "active_rows rows = {k. \<exists>r. fmlookup rows k = Some r \<and> row_status r = StatusActive}"

definition index_exact :: "(string, digest_revocation) fmap \<Rightarrow> string fset \<Rightarrow> bool" where
  "index_exact rows idx \<longleftrightarrow> (\<forall>key. key |\<in>| idx \<longleftrightarrow> (\<exists>k r. fmlookup rows k = Some r \<and> key = index_key (row_status r) k))"

definition rows_keyed :: "(string, digest_revocation) fmap \<Rightarrow> bool" where
  "rows_keyed rows \<longleftrightarrow> (\<forall>k r. fmlookup rows k = Some r \<longrightarrow> k = canonical (dr_digest r))"

definition tables_agree :: "revocation_tables \<Rightarrow> bool" where
  "tables_agree t \<longleftrightarrow> (rt_rows t = None \<longleftrightarrow> rt_state t = None) \<and> (rt_rows t = None \<longleftrightarrow> rt_by_status t = None)"

definition rev_inv :: "revocation_tables \<Rightarrow> bool" where
  "rev_inv t \<longleftrightarrow> tables_agree t \<and> index_exact (open_rows t) (open_index t) \<and> rows_keyed (open_rows t)
     \<and> unat (active_count t) = card (active_rows (open_rows t))"

lemma index_key_eq_iff [simp]: "index_key s k = index_key s' k' \<longleftrightarrow> s = s' \<and> k = k'"
  by (cases s; cases s') (auto simp: index_key_def)

lemma strip_index_key [simp]:
  "strip_prefix (index_prefix s) (index_key s' k) = (if s = s' then Some k else None)"
  by (cases s; cases s') (auto simp: index_key_def strip_prefix_def)

lemma finite_active_rows [simp]: "finite (active_rows rows)"
  by (rule finite_subset [of _ "fmdom' rows"]) (auto simp: active_rows_def fmlookup_dom'_iff)

lemma active_rows_upd:
  "active_rows (fmupd k r rows) = (if row_status r = StatusActive then insert k (active_rows rows) else active_rows rows - {k})"
  by (auto simp: active_rows_def)

lemma rev_inv_absent: "rev_inv revocation_tables_absent"
  by (simp add: rev_inv_def revocation_tables_absent_def tables_agree_def index_exact_def rows_keyed_def
      open_rows_def open_index_def active_count_def active_rows_def)

text \<open>A lifted row is only ever written over an earlier row of the same digest.\<close>

definition lifts_existing :: "revocation_tables \<Rightarrow> digest_revocation \<Rightarrow> bool" where
  "lifts_existing t r \<longleftrightarrow> (row_status r = StatusLifted \<longrightarrow> fmlookup (open_rows t) (canonical (dr_digest r)) \<noteq> None)"

lemma apply_rows: "apply_digest_revocation t r = Inr t' \<Longrightarrow> open_rows t' = fmupd (canonical (dr_digest r)) r (open_rows t)"
  by (auto simp: apply_digest_revocation_def Let_def open_rows_def split: if_splits option.splits)

lemma index_exact_same:
  assumes "index_exact rows idx" "fmlookup rows k = Some r0" "row_status r0 = row_status r"
  shows "index_exact (fmupd k r rows) idx"
  using assms unfolding index_exact_def by (auto; metis option.inject)

lemma index_exact_move:
  assumes "index_exact rows idx" "map_option row_status (fmlookup rows k) = p"
  shows "index_exact (fmupd k r rows)
    (finsert (index_key (row_status r) k) (case p of None \<Rightarrow> idx | Some q \<Rightarrow> idx |-| {|index_key q k|}))"
  unfolding index_exact_def
proof
  fix key
  have exact: "x |\<in>| idx \<longleftrightarrow> (\<exists>k r. fmlookup rows k = Some r \<and> x = index_key (row_status r) k)" for x
    using assms(1) by (simp add: index_exact_def)
  have "key |\<in>| (case p of None \<Rightarrow> idx | Some q \<Rightarrow> idx |-| {|index_key q k|}) \<longleftrightarrow>
      (\<exists>k' r'. k' \<noteq> k \<and> fmlookup rows k' = Some r' \<and> key = index_key (row_status r') k')"
  proof (cases "fmlookup rows k")
    case None
    then have "p = None" using assms(2) by simp
    moreover have "k' \<noteq> k" if "fmlookup rows k' = Some r'" for k' r' using that None by auto
    ultimately show ?thesis unfolding \<open>p = None\<close> option.case(1) exact using None by blast
  next
    case (Some z)
    then have "p = Some (row_status z)" using assms(2) by simp
    moreover have "key |\<in>| idx \<and> key \<noteq> index_key (row_status z) k \<longleftrightarrow>
      (\<exists>k' r'. k' \<noteq> k \<and> fmlookup rows k' = Some r' \<and> key = index_key (row_status r') k')"
      using Some exact by (metis index_key_eq_iff option.inject)
    ultimately show ?thesis by simp
  qed
  moreover have "(\<exists>k' r'. fmlookup (fmupd k r rows) k' = Some r' \<and> key = index_key (row_status r') k') \<longleftrightarrow>
      key = index_key (row_status r) k \<or>
      (\<exists>k' r'. k' \<noteq> k \<and> fmlookup rows k' = Some r' \<and> key = index_key (row_status r') k')"
    by (metis fmupd_lookup option.inject)
  ultimately show "key |\<in>| finsert (index_key (row_status r) k) (case p of None \<Rightarrow> idx | Some q \<Rightarrow> idx |-| {|index_key q k|}) \<longleftrightarrow>
      (\<exists>k' r'. fmlookup (fmupd k r rows) k' = Some r' \<and> key = index_key (row_status r') k')"
    by (simp only: finsert_iff)
qed

lemma rev_inv_apply:
  assumes "rev_inv t" "apply_digest_revocation t r = Inr t'" "lifts_existing t r"
  shows "rev_inv t'"
proof -
  let ?k = "canonical (dr_digest r)" and ?rows = "open_rows t"
  let ?p = "map_option row_status (fmlookup ?rows ?k)"
  note inv = assms(1) [unfolded rev_inv_def]
  have keyed: "rows_keyed (fmupd ?k r ?rows)" using inv by (auto simp: rows_keyed_def)
  show ?thesis
  proof (cases "?p = Some (row_status r)")
    case True
    then obtain r0 where r0: "fmlookup ?rows ?k = Some r0" "row_status r0 = row_status r" by auto
    have "rt_rows t \<noteq> None" using r0 by (auto simp: open_rows_def split: option.splits)
    moreover have "active_rows (fmupd ?k r ?rows) = active_rows ?rows"
      using r0 by (auto simp: active_rows_def)
    ultimately show ?thesis
      using assms(2) True inv keyed index_exact_same [OF _ r0]
      by (auto simp: apply_digest_revocation_def rev_inv_def tables_agree_def open_rows_def open_index_def active_count_def)
  next
    case False
    then obtain n where n: "(case row_status r of StatusActive \<Rightarrow> u64_checked_add (active_count t) 1
        | StatusLifted \<Rightarrow> u64_checked_sub (active_count t) 1) = Some n"
      and t': "t' = t\<lparr>rt_rows := Some (fmupd ?k r ?rows),
        rt_by_status := Some (finsert (index_key (row_status r) ?k)
          (case ?p of None \<Rightarrow> open_index t | Some q \<Rightarrow> open_index t |-| {|index_key q ?k|})), rt_state := Some (Some n)\<rparr>"
      using assms(2) by (auto simp: apply_digest_revocation_def Let_def split: option.splits)
    have "unat n = card (active_rows (fmupd ?k r ?rows))"
    proof (cases "row_status r")
      case StatusActive
      then have "?k \<notin> active_rows ?rows" using False by (auto simp: active_rows_def)
      then show ?thesis using StatusActive n inv
        by (auto simp: active_rows_upd dest: u64_checked_add_Some)
    next
      case StatusLifted
      then have "?k \<in> active_rows ?rows"
        using False assms(3) by (auto simp: active_rows_def lifts_existing_def) (metis digest_revocation_status.exhaust)
      then show ?thesis using StatusLifted n inv
        by (auto simp: active_rows_upd u64_checked_sub_def unat_sub split: if_splits)
    qed
    then show ?thesis
      using t' keyed index_exact_move [of ?rows "open_index t" ?k ?p r] inv
      by (simp add: rev_inv_def tables_agree_def open_rows_def open_index_def active_count_def)
  qed
qed

text \<open>A bounded table never makes the count overflow, and an agreeing one never underflows.\<close>

lemma apply_succeeds:
  assumes "rev_inv t" "lifts_existing t r" "card (active_rows (open_rows t)) < 2 ^ 64 - 1"
  shows "\<exists>t'. apply_digest_revocation t r = Inr t'"
proof (cases "map_option row_status (fmlookup (open_rows t) (canonical (dr_digest r))) = Some (row_status r)")
  case False
  show ?thesis
  proof (cases "row_status r")
    case StatusActive
    then have "\<exists>n. u64_checked_add (active_count t) 1 = Some n"
      using assms(1,3) by (auto simp: rev_inv_def u64_checked_add_def)
    then show ?thesis using False StatusActive by (auto simp: apply_digest_revocation_def Let_def)
  next
    case StatusLifted
    then have "canonical (dr_digest r) \<in> active_rows (open_rows t)"
      using False assms(2) by (auto simp: active_rows_def lifts_existing_def) (metis digest_revocation_status.exhaust)
    then have "0 < card (active_rows (open_rows t))" using card_gt_0_iff finite_active_rows by blast
    then have "1 \<le> active_count t" using assms(1) by (simp add: rev_inv_def word_le_nat_alt)
    then show ?thesis using False StatusLifted
      by (auto simp: apply_digest_revocation_def Let_def u64_checked_sub_def)
  qed
qed (simp add: apply_digest_revocation_def Let_def)

section \<open>Rebuilding\<close>

lemma index_of_rows_iff: "key |\<in>| index_of_rows es \<longleftrightarrow> (\<exists>(k, r) \<in> set es. key = index_key (row_status r) k)"
proof -
  have "key |\<in>| foldl (\<lambda>idx (k, r). finsert (index_key (row_status r) k) idx) idx0 es \<longleftrightarrow>
      key |\<in>| idx0 \<or> (\<exists>(k, r) \<in> set es. key = index_key (row_status r) k)" for idx0
    by (induction es arbitrary: idx0) auto
  then show ?thesis by (simp add: index_of_rows_def)
qed

lemma index_exact_rebuilt: "index_exact rows (index_of_rows (sorted_list_of_fmap rows))"
  by (auto simp: index_exact_def index_of_rows_iff)

lemma foldl_count: "foldl (\<lambda>n r. if P r then n + 1 else n) (n0 :: u64) rs = n0 + of_nat (length (filter P rs))"
  by (induction rs arbitrary: n0) (simp_all add: ac_simps)

lemma length_active_rows:
  "length (filter (\<lambda>(_, r). row_status r = StatusActive) (sorted_list_of_fmap rows)) = card (active_rows rows)"
proof -
  let ?P = "\<lambda>k. \<exists>r. fmlookup rows k = Some r \<and> row_status r = StatusActive"
  have "filter (\<lambda>(_, r). row_status r = StatusActive) (sorted_list_of_fmap rows) =
      filter (\<lambda>(k, _). ?P k) (sorted_list_of_fmap rows)"
    by (rule filter_cong) auto
  then show ?thesis by (simp add: length_key_filter active_rows_def) (metis (no_types, lifting) option.distinct(1))
qed

lemma card_active_rows_le: "card (active_rows rows) \<le> fcard (fmdom rows)"
proof -
  have "active_rows rows \<subseteq> fset (fmdom rows)" by (auto simp: active_rows_def fmlookup_dom_iff)
  then show ?thesis by (simp add: card_mono fcard.rep_eq)
qed

lemma active_state_iff: "dr_state r = RevActive \<longleftrightarrow> row_status r = StatusActive"
  by (cases "dr_state r") auto

lemma counted_rows:
  assumes "fcard (fmdom rows) < 2 ^ 64"
  shows "unat (foldl (\<lambda>n (_, r). if dr_state r = RevActive then n + 1 else n) (0 :: u64) (sorted_list_of_fmap rows)) =
    card (active_rows rows)"
proof -
  have "foldl (\<lambda>n (_, r). if dr_state r = RevActive then n + 1 else n) (0 :: u64) (sorted_list_of_fmap rows) =
      of_nat (card (active_rows rows))"
    using foldl_count [of "\<lambda>(_, r). row_status r = StatusActive" 0 "sorted_list_of_fmap rows"]
      length_active_rows [of rows]
    by (simp add: active_state_iff case_prod_unfold)
  then show ?thesis using assms card_active_rows_le [of rows] by (simp add: unat_u64_of_nat)
qed

lemma rev_inv_replace:
  assumes "rows_keyed records" "fcard (fmdom records) < 2 ^ 64"
  shows "rev_inv (replace_digest_revocations records)"
proof -
  have "count_active (map snd (sorted_list_of_fmap records)) =
      foldl (\<lambda>n (_, r). if dr_state r = RevActive then n + 1 else n) 0 (sorted_list_of_fmap records)"
    by (simp add: count_active_def foldl_map active_state_iff case_prod_unfold)
  then show ?thesis
    using assms counted_rows [OF assms(2)] index_exact_rebuilt
    by (simp add: rev_inv_def replace_digest_revocations_def Let_def tables_agree_def open_rows_def open_index_def
        active_count_def foldl_fmupd_rows)
qed

lemma replace_rows: "open_rows (replace_digest_revocations records) = records"
  by (simp add: replace_digest_revocations_def Let_def open_rows_def foldl_fmupd_rows)

text \<open>An index that holds every row's key and has as many keys as there are rows holds nothing else.\<close>

lemma index_exact_by_count:
  assumes "list_all (\<lambda>(k, r). index_key (row_status r) k |\<in>| idx) (sorted_list_of_fmap rows)"
    and "fcard idx = fcard (fmdom rows)"
  shows "index_exact rows idx"
proof -
  let ?key = "\<lambda>k. index_key (row_status (the (fmlookup rows k))) k"
  have sub: "?key ` fset (fmdom rows) \<subseteq> fset idx"
    using assms(1) by (auto simp: list_all_iff fmlookup_dom_iff)
  have "card (?key ` fset (fmdom rows)) = card (fset (fmdom rows))"
    by (rule card_image) (simp add: inj_on_def)
  then have "?key ` fset (fmdom rows) = fset idx"
    using sub assms(2) by (intro card_subset_eq) (simp_all add: fcard.rep_eq)
  then have "key |\<in>| idx \<longleftrightarrow> (\<exists>k \<in> fset (fmdom rows). key = ?key k)" for key by blast
  then show ?thesis unfolding index_exact_def by (metis fmdomI fmlookup_dom_iff option.sel)
qed

lemma rev_inv_backfill:
  assumes "rows_keyed (open_rows t)" "fcard (fmdom (open_rows t)) < 2 ^ 64"
  shows "rev_inv (backfill_digest_revocation_state t)"
    and "open_rows (backfill_digest_revocation_state t) = open_rows t"
proof -
  let ?t = "backfill_digest_revocation_state t" and ?rows = "open_rows t"
  let ?active = "foldl (\<lambda>n (_, r). if dr_state r = RevActive then n + 1 else n) (0 :: u64) (sorted_list_of_fmap ?rows)"
  show rows: "open_rows ?t = ?rows"
    by (simp add: backfill_digest_revocation_state_def Let_def open_rows_def)
  have "active_count ?t = ?active"
    by (auto simp: backfill_digest_revocation_state_def Let_def active_count_def split: option.splits)
  moreover have "index_exact ?rows (open_index ?t)"
    using index_exact_by_count [of "open_index t" ?rows] index_exact_rebuilt [of ?rows]
    by (auto simp: backfill_digest_revocation_state_def Let_def open_index_def)
  moreover have "tables_agree ?t"
    by (simp add: backfill_digest_revocation_state_def Let_def tables_agree_def)
  ultimately show "rev_inv ?t" using assms counted_rows [OF assms(2)] rows by (simp add: rev_inv_def)
qed

lemma has_active_iff:
  assumes "rev_inv t"
  shows "has_active_digest_revocation t = Inr (active_rows (open_rows t) \<noteq> {})"
proof (cases "rt_rows t")
  case None
  then show ?thesis using assms
    by (simp add: rev_inv_def tables_agree_def has_active_digest_revocation_def open_rows_def active_rows_def)
next
  case (Some rows)
  then obtain cnt where cnt: "rt_state t = Some cnt" using assms by (auto simp: rev_inv_def tables_agree_def)
  have "(case cnt of None \<Rightarrow> False | Some n \<Rightarrow> n > 0) \<longleftrightarrow> unat (active_count t) > 0"
    using cnt by (auto simp: active_count_def unat_gt_0 word_neq_0_conv split: option.splits)
  then show ?thesis using assms Some cnt
    by (simp add: rev_inv_def has_active_digest_revocation_def card_gt_0_iff)
qed

section \<open>Paging by status\<close>

lemma append_less_iff: "p @ a < p @ b \<longleftrightarrow> a < (b :: string)"
  by (induction p) auto

lemma index_key_less_iff:
  "index_key s a < index_key s' b \<longleftrightarrow> (s = StatusActive \<and> s' = StatusLifted) \<or> (s = s' \<and> a < b)"
  by (cases s; cases s') (auto simp: index_key_def append_less_iff)

lemma index_prefix_le_iff: "index_prefix s \<le> index_key s' k \<longleftrightarrow> s = StatusActive \<or> s' = StatusLifted"
  by (cases s; cases s') (auto simp: index_key_def)

text \<open>What a status filter means on the rows themselves.\<close>

definition rows_with_status ::
  "(string, digest_revocation) fmap \<Rightarrow> digest_revocation_status \<Rightarrow> string option \<Rightarrow> (string \<times> digest_revocation) list" where
  "rows_with_status rows s cursor = filter (\<lambda>(_, r). row_status r = s) (rows_after cursor rows)"

lemma in_rows_after:
  "(k, r) \<in> set (rows_after cursor rows) \<longleftrightarrow>
     fmlookup rows k = Some r \<and> (case cursor of None \<Rightarrow> True | Some c \<Rightarrow> c < k)"
  by (auto simp: rows_after_def split: option.splits)

lemma sorted_rows_with_status: "sorted_wrt (<) (map fst (rows_with_status rows s cursor))"
  using rows_after_sorted [of cursor rows] by (simp add: rows_with_status_def sorted_wrt_map sorted_wrt_filter)

lemma index_range:
  assumes "index_exact rows idx"
  shows "filter (\<lambda>key. case cursor of None \<Rightarrow> index_prefix s \<le> key | Some c \<Rightarrow> index_key s c < key) (sorted_list_of_fset idx) =
    map (index_key s) (map fst (rows_with_status rows s cursor)) @
    (if s = StatusActive then map (index_key StatusLifted) (map fst (rows_with_status rows StatusLifted None)) else [])"
    (is "?L = ?R")
proof -
  have sortedL: "sorted_wrt (<) ?L"
    by (rule sorted_wrt_filter) (simp add: sorted_list_of_fset.rep_eq)
  have mono: "sorted_wrt (<) (map (index_key q) (map fst (rows_with_status rows q c)))" for q c
    using sorted_rows_with_status [of rows q c] by (cases q) (simp_all add: sorted_wrt_map index_key_less_iff)
  have sortedR: "sorted_wrt (<) ?R"
    using mono [of s cursor] mono [of StatusLifted None] by (auto simp: sorted_wrt_append index_key_less_iff)
  have exact: "key |\<in>| idx \<longleftrightarrow> (\<exists>k r. fmlookup rows k = Some r \<and> key = index_key (row_status r) k)" for key
    using assms by (simp add: index_exact_def)
  have mem: "index_key q k \<in> index_key q' ` fst ` set (rows_with_status rows q' c) \<longleftrightarrow>
      q = q' \<and> (\<exists>r. fmlookup rows k = Some r \<and> row_status r = q') \<and> (case c of None \<Rightarrow> True | Some c \<Rightarrow> c < k)" for q k q' c
    by (auto simp: rows_with_status_def in_rows_after image_iff Bex_def)
  have "key \<in> set ?L \<longleftrightarrow> key \<in> set ?R" if key: "key = index_key q k" for key q k
    unfolding key by (cases s; cases q; cases cursor)
      (auto simp: mem exact index_prefix_le_iff index_key_less_iff simp del: index_prefix.simps simp flip: image_image)
  moreover have "\<exists>q k. key = index_key q k" if "key \<in> set ?L \<or> key \<in> set ?R" for key
    using that by (auto simp: exact)
  ultimately have "set ?L = set ?R" by blast
  then show ?thesis using sortedL sortedR strict_sorted_equal by blast
qed

lemma status_loop_eq:
  assumes "length acc \<le> limit" "\<forall>d \<in> set ds. fmlookup rows d \<noteq> None"
    and "\<forall>key \<in> set rest. strip_prefix (index_prefix s) key = None"
  shows "status_loop rows s limit (map (index_key s) ds @ rest) acc =
    Inr (acc @ take (Suc limit - length acc) (map (\<lambda>d. the (fmlookup rows d)) ds))"
  using assms(1,2)
proof (induction ds arbitrary: acc)
  case Nil
  then show ?case using assms(3) by (cases rest) auto
next
  case (Cons d ds)
  then obtain r where r: "fmlookup rows d = Some r" by auto
  show ?case
  proof (cases "length acc = limit")
    case True
    then show ?thesis using r by simp
  next
    case False
    then have "length (acc @ [r]) \<le> limit" using Cons.prems by simp
    moreover have "Suc limit - length acc = Suc (limit - length acc)" using Cons.prems by simp
    ultimately show ?thesis using r Cons.IH [of "acc @ [r]"] Cons.prems by simp
  qed
qed

lemma digest_loop_eq:
  "length acc \<le> limit \<Longrightarrow> digest_loop limit es acc = acc @ take (Suc limit - length acc) (map snd es)"
proof (induction es arbitrary: acc)
  case (Cons e es)
  obtain k r where e: "e = (k, r)" by force
  show ?case
  proof (cases "length acc = limit")
    case False
    then have "length (acc @ [r]) \<le> limit" using Cons.prems by simp
    moreover have "Suc limit - length acc = Suc (limit - length acc)" using Cons.prems by simp
    ultimately show ?thesis using Cons.IH [of "acc @ [r]"] e by simp
  qed (simp add: e)
qed simp

lemma status_page_eq:
  assumes "rev_inv t" "rt_rows t = Some rows"
  shows "status_page t rows s cursor limit = Inr (take (Suc limit) (map snd (rows_with_status rows s cursor)))"
proof -
  obtain idx where idx: "rt_by_status t = Some idx" "index_exact rows idx"
    using assms by (auto simp: rev_inv_def tables_agree_def open_rows_def open_index_def)
  let ?ds = "map fst (rows_with_status rows s cursor)"
  have rows: "\<forall>d \<in> set ?ds. fmlookup rows d \<noteq> None" by (auto simp: rows_with_status_def in_rows_after)
  have "map (\<lambda>d. the (fmlookup rows d)) ?ds = map snd (rows_with_status rows s cursor)"
    by (auto simp: rows_with_status_def in_rows_after)
  moreover have "status_page t rows s cursor limit = Inr (take (Suc limit) (map (\<lambda>d. the (fmlookup rows d)) ?ds))"
    unfolding status_page_def idx(1) option.case index_range [OF idx(2)]
    by (subst status_loop_eq [OF _ rows]) (auto simp del: index_prefix.simps)
  ultimately show ?thesis by (simp only:)
qed

text \<open>The rows a query is about: those of the status, or all of them, after the cursor in digest order.\<close>

definition query_rows :: "(string, digest_revocation) fmap \<Rightarrow> digest_revocation_query \<Rightarrow> digest_revocation list" where
  "query_rows rows query =
     (let cursor = map_option canonical (rq_cursor query) in
      map snd (case rq_status query of None \<Rightarrow> rows_after cursor rows | Some s \<Rightarrow> rows_with_status rows s cursor))"

lemma query_eq:
  assumes "rev_inv t" "1 \<le> rq_limit query" "rq_limit query \<le> MAX_REVOCATION_LIMIT"
  shows "query_digest_revocations t query =
    (let rows = query_rows (open_rows t) query in
     Inr \<lparr>rp_revocations = take (rq_limit query) rows,
          rp_next_cursor = (if length rows > rq_limit query
            then Some (canonical (dr_digest (rows ! (rq_limit query - 1)))) else None)\<rparr>)"
proof (cases "rt_rows t")
  case None
  have "rows_after c (fmempty :: (string, digest_revocation) fmap) = []" for c
    by (simp add: rows_after_def sorted_list_of_fmap_def sorted_list_of_fset.rep_eq split: option.splits)
  then have "query_rows fmempty query = []"
    by (simp add: query_rows_def rows_with_status_def Let_def split: option.splits)
  then show ?thesis using None assms(2,3) by (simp add: query_digest_revocations_def open_rows_def)
next
  case (Some rows)
  let ?all = "query_rows rows query"
  have "(case rq_status query of
      Some s \<Rightarrow> status_page t rows s (map_option canonical (rq_cursor query)) (rq_limit query)
    | None \<Rightarrow> Inr (digest_page rows (map_option canonical (rq_cursor query)) (rq_limit query))) =
    Inr (take (Suc (rq_limit query)) ?all)"
    using status_page_eq [OF assms(1) Some]
    by (simp add: digest_page_def digest_loop_eq query_rows_def Let_def split: option.splits)
  moreover have "min (length ?all) (Suc (rq_limit query)) > rq_limit query \<longleftrightarrow> length ?all > rq_limit query" by auto
  ultimately show ?thesis using assms(2,3) Some
    by (simp add: query_digest_revocations_def open_rows_def Let_def min_def)
qed

end
