(* ===== verification/Meta_Store.thy ===== *)
theory Meta_Store
  imports Contracts Interfaces Revocation "HOL-Library.Product_Lexorder"
begin

text \<open>
  The metadata store of \<open>peryx-storage/src/meta\<close>: driver rows and the transactions that commit them
  with their journal entries (\<open>index.rs\<close>), the artifact placement projection (\<open>placement.rs\<close>), the
  reclaim guards (\<open>reclaim_guard.rs\<close>), the webhook outbox (\<open>webhook.rs\<close>) and the policy input
  generations (\<open>policy_decision.rs\<close>) that a driver transaction also writes, and the records of the
  checkpoint tables. A redb table is a finite
  map of decoded rows and an absent table is the empty map; a transaction is a function from the
  store to an error, which commits nothing, or to the new store.
\<close>

section \<open>Rows\<close>

datatype artifact_source = Hosted | Proxy | Generated | UnknownSource

datatype byte_availability = LocalBytes | RemoteOnly | UnavailableBytes

fun artifact_source_as_str :: "artifact_source \<Rightarrow> string" where
  "artifact_source_as_str Hosted = ''hosted''"
| "artifact_source_as_str Proxy = ''proxy''"
| "artifact_source_as_str Generated = ''generated''"
| "artifact_source_as_str UnknownSource = ''unknown''"

fun byte_availability_as_str :: "byte_availability \<Rightarrow> string" where
  "byte_availability_as_str LocalBytes = ''local''"
| "byte_availability_as_str RemoteOnly = ''remote_only''"
| "byte_availability_as_str UnavailableBytes = ''unavailable''"

definition has_upstream :: "artifact_source \<Rightarrow> bool" where
  "has_upstream s \<longleftrightarrow> s = Proxy"

definition is_unknown :: "artifact_source \<Rightarrow> bool" where
  "is_unknown s \<longleftrightarrow> s = UnknownSource"

definition is_local :: "byte_availability \<Rightarrow> bool" where
  "is_local a \<longleftrightarrow> a = LocalBytes"

definition without_bytes :: "artifact_source \<Rightarrow> byte_availability" where
  "without_bytes s = (if has_upstream s then RemoteOnly else UnavailableBytes)"

record artifact_placement =
  ap_source :: artifact_source
  ap_availability :: byte_availability

definition from_presence :: "artifact_source \<Rightarrow> bool \<Rightarrow> byte_availability" where
  "from_presence source present = (if present then LocalBytes else without_bytes source)"

definition artifact_placement_record :: "artifact_source \<Rightarrow> bool \<Rightarrow> artifact_placement" where
  "artifact_placement_record source present = \<lparr>ap_source = source, ap_availability = from_presence source present\<rparr>"

record reclaim_guard =
  rg_expires_at_unix :: i64

definition is_expired_at :: "reclaim_guard \<Rightarrow> i64 \<Rightarrow> bool" where
  "is_expired_at g now \<longleftrightarrow> rg_expires_at_unix g \<le> now"

datatype driver_blob_reference = DriverBlobReference (br_sha256: string) (br_size: u64)

text \<open>The derived order: by digest, then by size.\<close>

instantiation driver_blob_reference :: linorder
begin

definition less_eq_driver_blob_reference :: "driver_blob_reference \<Rightarrow> driver_blob_reference \<Rightarrow> bool" where
  "a \<le> b \<longleftrightarrow> (br_sha256 a, br_size a) \<le> (br_sha256 b, br_size b)"

definition less_driver_blob_reference :: "driver_blob_reference \<Rightarrow> driver_blob_reference \<Rightarrow> bool" where
  "a < b \<longleftrightarrow> (br_sha256 a, br_size a) < (br_sha256 b, br_size b)"

instance
  by standard (auto simp: less_eq_driver_blob_reference_def less_driver_blob_reference_def
      driver_blob_reference.expand)

end

datatype driver_mutation = MutPut string string | MutDelete string

record journal_entry =
  je_payload :: string
  je_mutations :: "driver_mutation list"
  je_blobs :: "driver_blob_reference list"

record policy_input_generation =
  pg_repository :: u64
  pg_catalog :: u64
  pg_policy :: u64

datatype webhook_delivery_status = DeliveryPending | Delivered | DeliveryFailed

record webhook_delivery_record =
  wd_id :: string
  wd_index :: string
  wd_target :: string
  wd_event :: string
  wd_payload :: string
  wd_status :: webhook_delivery_status
  wd_attempts :: u16
  wd_created_at_unix :: i64
  wd_updated_at_unix :: i64
  wd_next_attempt_at_unix :: "i64 option"
  wd_response_status :: "u16 option"
  wd_last_error :: "string option"

record webhook_event_intent =
  we_index :: string
  we_targets :: "string list"
  we_event :: string
  we_payload :: string
  we_created_at_unix :: i64

text \<open>The checkpoint tables; the operations on them are in \<open>Checkpoint\<close>.\<close>

record checkpoint_identity =
  ci_source :: string
  ci_protocol_version :: u16
  ci_schema_version :: u32

record checkpoint_manifest =
  cm_generation :: u64
  cm_identity :: checkpoint_identity
  cm_serial :: u64
  cm_rows :: u64
  cm_revocations :: u64
  cm_blobs :: u64
  cm_bytes :: u64
  cm_digest :: string

record checkpoint_pin =
  pin_generation :: u64
  pin_started_at :: i64
  pin_expires_at :: i64

record staged_header =
  sh_manifest :: checkpoint_manifest
  sh_cursor :: string

record checkpoint_tables =
  ct_rows :: "(string, string) fmap"
  ct_revocations :: "(string, digest_revocation) fmap"
  ct_blobs :: "(string, u64) fmap"
  ct_manifest :: "checkpoint_manifest option"
  ct_pin :: "checkpoint_pin option"
  ct_staging :: "(u64, string) fmap"
  ct_staged :: "staged_header option"
  ct_blob_recovery :: "string option"

definition checkpoint_tables_empty :: checkpoint_tables where
  "checkpoint_tables_empty = \<lparr>ct_rows = fmempty, ct_revocations = fmempty, ct_blobs = fmempty, ct_manifest = None,
     ct_pin = None, ct_staging = fmempty, ct_staged = None, ct_blob_recovery = None\<rparr>"

record meta_store =
  ms_driver :: "(string, string) fmap"
  ms_reference_revision :: u64
  ms_serial :: u64
  ms_journal :: "(u64, string) fmap"
  ms_journal_mutations :: "(u64, driver_mutation list) fmap"
  ms_journal_blobs :: "(u64, driver_blob_reference list) fmap"
  ms_retained_floor :: "u64 option"
  ms_revocations :: revocation_tables
  ms_checkpoint :: checkpoint_tables
  ms_view_frontier :: "(string, u64) fmap"
  ms_artifact_placement :: "(string, artifact_placement) fmap"
  ms_artifact_revision :: "(string, u64) fmap"
  ms_reclaim_guard :: "(string, i64) fmap"
  ms_policy_generation :: "(string, policy_input_generation) fmap"
  ms_webhook_serial :: u64
  ms_webhook_event :: "(string, webhook_delivery_record list) fmap"

definition meta_store_empty :: meta_store where
  "meta_store_empty = \<lparr>ms_driver = fmempty, ms_reference_revision = 0, ms_serial = 0, ms_journal = fmempty,
     ms_journal_mutations = fmempty, ms_journal_blobs = fmempty, ms_retained_floor = None,
     ms_revocations = revocation_tables_absent, ms_checkpoint = checkpoint_tables_empty,
     ms_view_frontier = fmempty, ms_artifact_placement = fmempty,
     ms_artifact_revision = fmempty, ms_reclaim_guard = fmempty, ms_policy_generation = fmempty,
     ms_webhook_serial = 0, ms_webhook_event = fmempty\<rparr>"

section \<open>Revisions\<close>

definition advance_reference_revision :: "meta_store \<Rightarrow> meta_store" where
  "advance_reference_revision s = s\<lparr>ms_reference_revision := ms_reference_revision s + 1\<rparr>"

definition advance_artifact_placement_revision :: "meta_store \<Rightarrow> string \<Rightarrow> (meta_error, meta_store) result" where
  "advance_artifact_placement_revision s digest =
     (case u64_checked_add (case fmlookup (ms_artifact_revision s) digest of None \<Rightarrow> 0 | Some r \<Rightarrow> r) 1 of
        None \<Rightarrow> Inl ArtifactPlacementRevisionOverflow
      | Some revision \<Rightarrow> Inr (s\<lparr>ms_artifact_revision := fmupd digest revision (ms_artifact_revision s)\<rparr>))"

section \<open>Driver rows outside a transaction body\<close>

definition put_driver_value :: "meta_store \<Rightarrow> string \<Rightarrow> string \<Rightarrow> meta_store" where
  "put_driver_value s key v = advance_reference_revision (s\<lparr>ms_driver := fmupd key v (ms_driver s)\<rparr>)"

definition delete_driver_value :: "meta_store \<Rightarrow> string \<Rightarrow> bool \<times> meta_store" where
  "delete_driver_value s key =
     (let removed = (fmlookup (ms_driver s) key \<noteq> None);
          s1 = s\<lparr>ms_driver := fmdrop key (ms_driver s)\<rparr>
      in (removed, if removed then advance_reference_revision s1 else s1))"

definition update_driver_value ::
  "meta_store \<Rightarrow> string \<Rightarrow> (string option \<Rightarrow> (meta_error, string option \<times> 'r) result) \<Rightarrow>
   (meta_error, 'r \<times> meta_store) result" where
  "update_driver_value s key update =
     and_then (update (fmlookup (ms_driver s) key)) (\<lambda>(next_value, updated).
       Inr (updated, advance_reference_revision
         (case next_value of
            Some v \<Rightarrow> s\<lparr>ms_driver := fmupd key v (ms_driver s)\<rparr>
          | None \<Rightarrow> s\<lparr>ms_driver := fmdrop key (ms_driver s)\<rparr>)))"

record driver_batch =
  db_puts :: "(string \<times> string) list"
  db_deletes :: "string list"

definition commit_driver_batch :: "meta_store \<Rightarrow> driver_batch \<Rightarrow> meta_store" where
  "commit_driver_batch s batch =
     (let table = foldl (\<lambda>t (k, v). fmupd k v t) (ms_driver s) (db_puts batch);
          table' = foldl (\<lambda>t k. fmdrop k t) table (db_deletes batch);
          s1 = s\<lparr>ms_driver := table'\<rparr>
      in if db_puts batch \<noteq> [] \<or> db_deletes batch \<noteq> [] then advance_reference_revision s1 else s1)"

section \<open>Driver transactions\<close>

record driver_txn =
  dt_table :: "(string, string) fmap"
  dt_revocations :: revocation_tables
  dt_touched :: "string fset"
  dt_blobs :: "driver_blob_reference fset"
  dt_webhooks :: "webhook_event_intent list"
  dt_placements :: "(string \<times> artifact_placement) list"
  dt_policy_inputs :: "string fset"
  dt_wrote_rows :: bool

definition txn_upsert :: "driver_txn \<Rightarrow> string \<Rightarrow> string \<Rightarrow> bool \<times> driver_txn" where
  "txn_upsert d key v =
     (fmlookup (dt_table d) key = None,
      d\<lparr>dt_table := fmupd key v (dt_table d), dt_touched := finsert key (dt_touched d), dt_wrote_rows := True\<rparr>)"

definition txn_put :: "driver_txn \<Rightarrow> string \<Rightarrow> string \<Rightarrow> driver_txn" where
  "txn_put d key v = snd (txn_upsert d key v)"

definition txn_upsert_local :: "driver_txn \<Rightarrow> string \<Rightarrow> string \<Rightarrow> bool \<times> driver_txn" where
  "txn_upsert_local d key v =
     (fmlookup (dt_table d) key = None, d\<lparr>dt_table := fmupd key v (dt_table d), dt_wrote_rows := True\<rparr>)"

definition txn_put_local :: "driver_txn \<Rightarrow> string \<Rightarrow> string \<Rightarrow> driver_txn" where
  "txn_put_local d key v = snd (txn_upsert_local d key v)"

definition txn_remove :: "driver_txn \<Rightarrow> string \<Rightarrow> bool \<times> driver_txn" where
  "txn_remove d key =
     (let removed = (fmlookup (dt_table d) key \<noteq> None); d1 = d\<lparr>dt_table := fmdrop key (dt_table d)\<rparr>
      in (removed, if removed then d1\<lparr>dt_touched := finsert key (dt_touched d), dt_wrote_rows := True\<rparr> else d1))"

definition txn_remove_local :: "driver_txn \<Rightarrow> string \<Rightarrow> bool \<times> driver_txn" where
  "txn_remove_local d key =
     (let removed = (fmlookup (dt_table d) key \<noteq> None)
      in (removed, d\<lparr>dt_table := fmdrop key (dt_table d), dt_wrote_rows := dt_wrote_rows d \<or> removed\<rparr>))"

definition txn_reference_blob :: "driver_txn \<Rightarrow> string \<Rightarrow> u64 \<Rightarrow> driver_txn" where
  "txn_reference_blob d sha256 size' = d\<lparr>dt_blobs := finsert (DriverBlobReference sha256 size') (dt_blobs d)\<rparr>"

definition txn_put_artifact_placement :: "driver_txn \<Rightarrow> string \<Rightarrow> artifact_placement \<Rightarrow> driver_txn" where
  "txn_put_artifact_placement d digest placement = d\<lparr>dt_placements := dt_placements d @ [(digest, placement)]\<rparr>"

definition txn_enqueue_webhook_event :: "driver_txn \<Rightarrow> webhook_event_intent \<Rightarrow> driver_txn" where
  "txn_enqueue_webhook_event d event = d\<lparr>dt_webhooks := dt_webhooks d @ [event]\<rparr>"

definition txn_touch_policy_inputs :: "driver_txn \<Rightarrow> string \<Rightarrow> driver_txn" where
  "txn_touch_policy_inputs d repository = d\<lparr>dt_policy_inputs := finsert repository (dt_policy_inputs d)\<rparr>"

datatype server_mutation = DigestRevocationMutation digest_revocation

fun txn_apply_server_mutation :: "driver_txn \<Rightarrow> server_mutation \<Rightarrow> (meta_error, driver_txn) result" where
  "txn_apply_server_mutation d (DigestRevocationMutation r) =
     and_then (apply_digest_revocation (dt_revocations d) r) (\<lambda>t. Inr (d\<lparr>dt_revocations := t\<rparr>))"

definition journal_commit_after :: "meta_store \<Rightarrow> usize \<Rightarrow> u64 option" where
  "journal_commit_after s entries = (if entries = 0 then None else Some (ms_serial s + of_nat entries))"

definition txn_mutations :: "driver_txn \<Rightarrow> driver_mutation list" where
  "txn_mutations d =
     map (\<lambda>key. case fmlookup (dt_table d) key of None \<Rightarrow> MutDelete key | Some v \<Rightarrow> MutPut key v)
       (sorted_list_of_fset (dt_touched d))"

datatype pending_journal = Payloads "string list" | Entries "journal_entry list"

fun finish_journal :: "pending_journal \<Rightarrow> driver_txn \<Rightarrow> driver_blob_reference fset \<Rightarrow> journal_entry list" where
  "finish_journal (Payloads payloads) driver blobs =
     (let entries = map (\<lambda>payload. \<lparr>je_payload = payload, je_mutations = [], je_blobs = []\<rparr>) payloads in
      if entries = [] then []
      else butlast entries @ [(last entries)\<lparr>je_mutations := txn_mutations driver, je_blobs := sorted_list_of_fset blobs\<rparr>])"
| "finish_journal (Entries entries) driver blobs = entries"

definition check_replica_serial :: "meta_store \<Rightarrow> u64 option \<Rightarrow> (meta_error, unit) result" where
  "check_replica_serial s expected =
     (case expected of
        None \<Rightarrow> Inr ()
      | Some e \<Rightarrow> if ms_serial s \<noteq> e then Inl (ReplicaSerialConflict e (ms_serial s)) else Inr ())"

fun guard_loop ::
  "i64 \<Rightarrow> bool \<Rightarrow> driver_blob_reference list \<Rightarrow> meta_store \<Rightarrow> string list \<Rightarrow> (meta_error, meta_store \<times> string list) result" where
  "guard_loop now collector_active [] s disarmed = Inr (s, disarmed)"
| "guard_loop now collector_active (blob # blobs) s disarmed =
     (case fmlookup (ms_reclaim_guard s) (br_sha256 blob) of
        None \<Rightarrow> guard_loop now collector_active blobs s disarmed
      | Some expires \<Rightarrow>
          if collector_active \<or> \<not> is_expired_at \<lparr>rg_expires_at_unix = expires\<rparr> now
          then Inl (BlobReclaiming (br_sha256 blob))
          else guard_loop now collector_active blobs
                 (s\<lparr>ms_reclaim_guard := fmdrop (br_sha256 blob) (ms_reclaim_guard s)\<rparr>) (disarmed @ [br_sha256 blob]))"

definition check_blob_reclaim_guard ::
  "meta_store \<Rightarrow> u64 option \<Rightarrow> driver_blob_reference fset \<Rightarrow> i64 \<Rightarrow> bool \<Rightarrow> (meta_error, meta_store) result" where
  "check_blob_reclaim_guard s expected_serial blobs now collector_active =
     (if expected_serial \<noteq> None \<or> blobs = {||} then Inr s
      else and_then (guard_loop now collector_active (sorted_list_of_fset blobs) s [])
             (\<lambda>(s1, disarmed). try_fold advance_artifact_placement_revision s1 disarmed))"

definition ensure_placement_unlocked :: "meta_store \<Rightarrow> string \<Rightarrow> (meta_error, unit) result" where
  "ensure_placement_unlocked s digest =
     (if fmlookup (ms_reclaim_guard s) digest \<noteq> None then Inl (BlobReclaiming digest) else Inr ())"

definition preserve_source :: "artifact_placement option \<Rightarrow> artifact_placement \<Rightarrow> artifact_placement" where
  "preserve_source existing replacement =
     (case existing of
        None \<Rightarrow> replacement
      | Some e \<Rightarrow> artifact_placement_record
          (if is_unknown (ap_source e) then ap_source replacement else ap_source e)
          (is_local (ap_availability replacement)))"

definition insert_placement_row :: "meta_store \<Rightarrow> string \<Rightarrow> artifact_placement \<Rightarrow> meta_store" where
  "insert_placement_row s digest p = s\<lparr>ms_artifact_placement := fmupd digest p (ms_artifact_placement s)\<rparr>"

definition write_artifact_placements ::
  "meta_store \<Rightarrow> (string \<times> artifact_placement) list \<Rightarrow> (meta_error, meta_store) result" where
  "write_artifact_placements s placements =
     (if placements = [] then Inr s
      else and_then (try_fold (\<lambda>_ (digest, _). ensure_placement_unlocked s digest) () placements) (\<lambda>_.
        let s1 = foldl (\<lambda>t (digest, placement).
                   insert_placement_row t digest
                     (preserve_source (fmlookup (ms_artifact_placement t) digest) placement)) s placements
        in try_fold (\<lambda>t (digest, _). advance_artifact_placement_revision t digest) s1 placements))"

definition hex16 :: "u64 \<Rightarrow> string" where
  "hex16 n = map (\<lambda>i. HEX ! unat (and (drop_bit (4 * (15 - i)) n) 15)) [0 ..< 16]"

definition insert_webhook_event :: "meta_store \<Rightarrow> webhook_event_intent \<Rightarrow> (meta_error, meta_store) result" where
  "insert_webhook_event s event =
     (if we_targets event = [] then Inl (DriverPrecondition ''webhook event requires at least one target'')
      else
        let first_delivery = ms_webhook_serial s + 1;
            deliveries = map (\<lambda>(offset, target).
              \<lparr>wd_id = ''wd_'' @ hex16 (first_delivery + of_nat offset), wd_index = we_index event, wd_target = target,
               wd_event = we_event event, wd_payload = we_payload event, wd_status = DeliveryPending,
               wd_attempts = 0, wd_created_at_unix = we_created_at_unix event,
               wd_updated_at_unix = we_created_at_unix event,
               wd_next_attempt_at_unix = Some (we_created_at_unix event), wd_response_status = None,
               wd_last_error = None\<rparr>) (enumerate 0 (we_targets event))
        in Inr (s\<lparr>ms_webhook_serial := first_delivery + of_nat (length (we_targets event)) - 1,
                 ms_webhook_event := fmupd (''we_'' @ hex16 first_delivery) deliveries (ms_webhook_event s)\<rparr>))"

definition enqueue_webhook_events :: "meta_store \<Rightarrow> webhook_event_intent list \<Rightarrow> (meta_error, meta_store) result" where
  "enqueue_webhook_events s events = try_fold insert_webhook_event s events"

definition journal_one :: "meta_store \<Rightarrow> journal_entry \<Rightarrow> meta_store" where
  "journal_one s entry =
     (let next_serial = ms_serial s + 1 in
      s\<lparr>ms_serial := next_serial,
        ms_journal := fmupd next_serial (je_payload entry) (ms_journal s),
        ms_journal_mutations := (if je_mutations entry = [] then ms_journal_mutations s
                                 else fmupd next_serial (je_mutations entry) (ms_journal_mutations s)),
        ms_journal_blobs := (if je_blobs entry = [] then ms_journal_blobs s
                             else fmupd next_serial (je_blobs entry) (ms_journal_blobs s))\<rparr>)"

definition commit_journal :: "meta_store \<Rightarrow> journal_entry list \<Rightarrow> u64 option \<times> meta_store" where
  "commit_journal s journal =
     (if journal = [] then (None, s)
      else let s1 = foldl journal_one s journal in (Some (ms_serial s1), s1))"

definition policy_generation_default :: policy_input_generation where
  "policy_generation_default = \<lparr>pg_repository = 0, pg_catalog = 0, pg_policy = 0\<rparr>"

definition policy_generation_of :: "meta_store \<Rightarrow> string \<Rightarrow> policy_input_generation" where
  "policy_generation_of s repository =
     (case fmlookup (ms_policy_generation s) repository of None \<Rightarrow> policy_generation_default | Some g \<Rightarrow> g)"

definition advance_repository_generations :: "meta_store \<Rightarrow> string fset \<Rightarrow> meta_store" where
  "advance_repository_generations s repositories =
     foldl (\<lambda>t repository.
       let g = policy_generation_of t repository in
       t\<lparr>ms_policy_generation := fmupd repository (g\<lparr>pg_repository := pg_repository g + 1\<rparr>) (ms_policy_generation t)\<rparr>)
       s (sorted_list_of_fset repositories)"

definition update_policy_generation :: "meta_store \<Rightarrow> string \<Rightarrow> u64 \<Rightarrow> meta_store" where
  "update_policy_generation s repository catalog =
     s\<lparr>ms_policy_generation :=
        fmupd repository ((policy_generation_of s repository)\<lparr>pg_catalog := catalog\<rparr>) (ms_policy_generation s)\<rparr>"

datatype 'e txn_error = StoreError meta_error | BodyError 'e

type_synonym ('t, 'e) driver_body = "driver_txn \<Rightarrow> ('e, ('t \<times> pending_journal) \<times> driver_txn) result"

definition driver_txn_open :: "meta_store \<Rightarrow> driver_txn" where
  "driver_txn_open s = \<lparr>dt_table = ms_driver s, dt_revocations = ms_revocations s, dt_touched = {||}, dt_blobs = {||}, dt_webhooks = [],
     dt_placements = [], dt_policy_inputs = {||}, dt_wrote_rows = False\<rparr>"

text \<open>
  \<open>owned\<close> is the answer of \<open>try_lock\<close> on the reclaim ownership and \<open>now\<close> the answer of the clock.
  The body and the finalizer are the caller's; the body reaches the store through its transaction only.
\<close>

definition commit_driver_txn_with_journal ::
  "meta_store \<Rightarrow> bool \<Rightarrow> i64 \<Rightarrow> u64 option \<Rightarrow> (string \<times> u64) option \<Rightarrow>
   ('t \<Rightarrow> meta_store \<Rightarrow> ('e, meta_store) result) \<Rightarrow> ('t, 'e) driver_body \<Rightarrow>
   ('e txn_error, ('t \<times> u64 option) \<times> meta_store) result" where
  "commit_driver_txn_with_journal s owned now expected_serial catalog_generation finalize body =
     and_then (map_err StoreError (check_replica_serial s expected_serial)) (\<lambda>_.
     and_then (map_err BodyError (body (driver_txn_open s))) (\<lambda>((v, pending), driver).
       let journal = finish_journal pending driver (dt_blobs driver);
           s1 = s\<lparr>ms_driver := dt_table driver, ms_revocations := dt_revocations driver\<rparr>;
           s2 = (if dt_wrote_rows driver then advance_reference_revision s1 else s1)
       in
     and_then (map_err StoreError (enqueue_webhook_events s2 (dt_webhooks driver))) (\<lambda>s3.
     and_then (map_err StoreError (check_blob_reclaim_guard s3 expected_serial (dt_blobs driver) now (\<not> owned))) (\<lambda>s4.
     and_then (map_err StoreError (write_artifact_placements s4 (dt_placements driver))) (\<lambda>s5.
       case commit_journal s5 journal of (journal_commit, s6) \<Rightarrow>
         let s7 = advance_repository_generations s6 (dt_policy_inputs driver);
             s8 = (case catalog_generation of None \<Rightarrow> s7 | Some (repository, catalog) \<Rightarrow> update_policy_generation s7 repository catalog)
         in and_then (map_err BodyError (finalize v s8)) (\<lambda>s9. Inr ((v, journal_commit), s9)))))))"

definition commit_driver_txn ::
  "meta_store \<Rightarrow> bool \<Rightarrow> i64 \<Rightarrow> (driver_txn \<Rightarrow> ('e, ('t \<times> string list) \<times> driver_txn) result) \<Rightarrow>
   ('e txn_error, 't \<times> meta_store) result" where
  "commit_driver_txn s owned now body =
     and_then (commit_driver_txn_with_journal s owned now None None (\<lambda>_ t. Inr t)
       (\<lambda>d. and_then (body d) (\<lambda>((v, entries), d'). Inr ((v, Payloads entries), d'))))
       (\<lambda>((v, _), s'). Inr (v, s'))"

definition commit_replica_txn ::
  "meta_store \<Rightarrow> bool \<Rightarrow> i64 \<Rightarrow> u64 \<Rightarrow> (driver_txn \<Rightarrow> ('e, ('t \<times> journal_entry list) \<times> driver_txn) result) \<Rightarrow>
   ('e txn_error, 't \<times> meta_store) result" where
  "commit_replica_txn s owned now expected_serial body =
     and_then (commit_driver_txn_with_journal s owned now (Some expected_serial) None (\<lambda>_ t. Inr t)
       (\<lambda>d. and_then (body d) (\<lambda>((v, entries), d'). Inr ((v, Entries entries), d'))))
       (\<lambda>((v, _), s'). Inr (v, s'))"

text \<open>A transaction body is a sequence of calls on its transaction.\<close>

datatype driver_call =
  CallPut string string
| CallPutLocal string string
| CallRemove string
| CallRemoveLocal string
| CallReference string u64
| CallPlacement string artifact_placement
| CallWebhook webhook_event_intent
| CallPolicy string

fun run_call :: "driver_txn \<Rightarrow> driver_call \<Rightarrow> driver_txn" where
  "run_call d (CallPut k v) = txn_put d k v"
| "run_call d (CallPutLocal k v) = txn_put_local d k v"
| "run_call d (CallRemove k) = snd (txn_remove d k)"
| "run_call d (CallRemoveLocal k) = snd (txn_remove_local d k)"
| "run_call d (CallReference sha256 n) = txn_reference_blob d sha256 n"
| "run_call d (CallPlacement digest p) = txn_put_artifact_placement d digest p"
| "run_call d (CallWebhook e) = txn_enqueue_webhook_event d e"
| "run_call d (CallPolicy r) = txn_touch_policy_inputs d r"

definition calls_body :: "driver_call list \<Rightarrow> string list \<Rightarrow> driver_txn \<Rightarrow> (unit, (unit \<times> string list) \<times> driver_txn) result" where
  "calls_body calls payloads d = Inr (((), payloads), foldl run_call d calls)"

section \<open>The artifact placement projection\<close>

definition put_artifact_placement :: "meta_store \<Rightarrow> string \<Rightarrow> artifact_placement \<Rightarrow> (meta_error, meta_store) result" where
  "put_artifact_placement s digest placement =
     and_then (ensure_placement_unlocked s digest) (\<lambda>_.
       advance_artifact_placement_revision
         (insert_placement_row s digest (preserve_source (fmlookup (ms_artifact_placement s) digest) placement)) digest)"

definition get_artifact_placement :: "meta_store \<Rightarrow> string \<Rightarrow> artifact_placement option" where
  "get_artifact_placement s digest = fmlookup (ms_artifact_placement s) digest"

definition insert_artifact_placement ::
  "meta_store \<Rightarrow> string \<Rightarrow> artifact_placement \<Rightarrow> (meta_error, artifact_placement \<times> meta_store) result" where
  "insert_artifact_placement s digest placement =
     and_then (ensure_placement_unlocked s digest) (\<lambda>_.
       case fmlookup (ms_artifact_placement s) digest of
         Some existing \<Rightarrow>
           (if is_unknown (ap_source existing) \<and> \<not> is_unknown (ap_source placement)
            then let replacement = artifact_placement_record (ap_source placement) (is_local (ap_availability existing))
                 in and_then (advance_artifact_placement_revision (insert_placement_row s digest replacement) digest)
                      (\<lambda>s'. Inr (replacement, s'))
            else Inr (existing, s))
       | None \<Rightarrow>
           and_then (advance_artifact_placement_revision (insert_placement_row s digest placement) digest)
             (\<lambda>s'. Inr (placement, s')))"

definition mark_artifact_local ::
  "meta_store \<Rightarrow> string \<Rightarrow> artifact_source \<Rightarrow> (meta_error, artifact_placement \<times> meta_store) result" where
  "mark_artifact_local s digest source =
     and_then (ensure_placement_unlocked s digest) (\<lambda>_.
       let placement = artifact_placement_record
             (case fmlookup (ms_artifact_placement s) digest of
                None \<Rightarrow> source
              | Some p \<Rightarrow> if is_unknown (ap_source p) then source else ap_source p) True
       in and_then (advance_artifact_placement_revision (insert_placement_row s digest placement) digest)
            (\<lambda>s'. Inr (placement, s')))"

definition compare_and_put_artifact_placement ::
  "meta_store \<Rightarrow> string \<Rightarrow> artifact_placement \<Rightarrow> artifact_placement \<Rightarrow> (meta_error, bool \<times> meta_store) result" where
  "compare_and_put_artifact_placement s digest expected replacement =
     and_then (ensure_placement_unlocked s digest) (\<lambda>_.
       if fmlookup (ms_artifact_placement s) digest = Some expected
       then and_then (advance_artifact_placement_revision (insert_placement_row s digest replacement) digest)
              (\<lambda>s'. Inr (True, s'))
       else Inr (False, s))"

definition delete_artifact_placement :: "meta_store \<Rightarrow> string \<Rightarrow> (meta_error, bool \<times> meta_store) result" where
  "delete_artifact_placement s digest =
     (let removed = (fmlookup (ms_artifact_placement s) digest \<noteq> None);
          s1 = s\<lparr>ms_artifact_placement := fmdrop digest (ms_artifact_placement s)\<rparr>
      in if removed then and_then (advance_artifact_placement_revision s1 digest) (\<lambda>s'. Inr (True, s'))
         else Inr (False, s1))"

definition MAX_QUERY_LIMIT :: usize where
  "MAX_QUERY_LIMIT = 100"

record artifact_placement_row =
  apr_digest :: string
  apr_source :: artifact_source
  apr_availability :: byte_availability

record artifact_placement_page =
  app_rows :: "artifact_placement_row list"
  app_next_cursor :: "string option"

datatype artifact_placement_query_error = InvalidLimit

fun list_loop :: "usize \<Rightarrow> (string \<times> artifact_placement) list \<Rightarrow> artifact_placement_row list \<Rightarrow> artifact_placement_row list" where
  "list_loop limit [] rows = rows"
| "list_loop limit ((key, p) # entries) rows =
     (let rows' = rows @ [\<lparr>apr_digest = key, apr_source = ap_source p, apr_availability = ap_availability p\<rparr>] in
      if length rows' > limit then rows' else list_loop limit entries rows')"

definition list_artifact_placements ::
  "meta_store \<Rightarrow> string option \<Rightarrow> usize \<Rightarrow> (artifact_placement_query_error, artifact_placement_page) result" where
  "list_artifact_placements s cursor limit =
     (if \<not> (1 \<le> limit \<and> limit \<le> MAX_QUERY_LIMIT) then Inl InvalidLimit
      else let rows = list_loop limit (rows_after cursor (ms_artifact_placement s)) [] in
        Inr \<lparr>app_rows = take limit rows,
             app_next_cursor = (if length rows > limit then Some (apr_digest (rows ! (limit - 1))) else None)\<rparr>)"

record artifact_placement_health =
  aph_local :: u64
  aph_remote_only :: u64
  aph_unavailable :: u64

definition health_one :: "artifact_placement_health \<Rightarrow> artifact_placement \<Rightarrow> artifact_placement_health" where
  "health_one h p =
     (case ap_availability p of
        LocalBytes \<Rightarrow> h\<lparr>aph_local := aph_local h + 1\<rparr>
      | RemoteOnly \<Rightarrow> h\<lparr>aph_remote_only := aph_remote_only h + 1\<rparr>
      | UnavailableBytes \<Rightarrow> h\<lparr>aph_unavailable := aph_unavailable h + 1\<rparr>)"

definition artifact_placement_health_of :: "meta_store \<Rightarrow> artifact_placement_health" where
  "artifact_placement_health_of s =
     foldl health_one \<lparr>aph_local = 0, aph_remote_only = 0, aph_unavailable = 0\<rparr>
       (map snd (sorted_list_of_fmap (ms_artifact_placement s)))"

definition health_total :: "artifact_placement_health \<Rightarrow> u64" where
  "health_total h = aph_local h + aph_remote_only h + aph_unavailable h"

section \<open>Reclaim guards\<close>

datatype reclaim_guard_arm = GuardReferencesMoved | Armed "string list"

fun arm_loop :: "i64 \<Rightarrow> reclaim_guard \<Rightarrow> string list \<Rightarrow> meta_store \<Rightarrow> string list \<Rightarrow> meta_store \<times> string list" where
  "arm_loop now replacement [] s armed = (s, armed)"
| "arm_loop now replacement (digest # digests) s armed =
     (if (case fmlookup (ms_reclaim_guard s) digest of
            None \<Rightarrow> True | Some expires \<Rightarrow> is_expired_at \<lparr>rg_expires_at_unix = expires\<rparr> now)
      then arm_loop now replacement digests
             (s\<lparr>ms_reclaim_guard := fmupd digest (rg_expires_at_unix replacement) (ms_reclaim_guard s)\<rparr>)
             (armed @ [digest])
      else arm_loop now replacement digests s armed)"

definition arm_reclaim_guards ::
  "meta_store \<Rightarrow> string list \<Rightarrow> u64 \<Rightarrow> i64 \<Rightarrow> reclaim_guard \<Rightarrow> (meta_error, reclaim_guard_arm \<times> meta_store) result" where
  "arm_reclaim_guards s digests revision now replacement =
     (if ms_reference_revision s \<noteq> revision then Inr (GuardReferencesMoved, s)
      else case arm_loop now replacement digests s [] of (s1, armed) \<Rightarrow>
        and_then (try_fold advance_artifact_placement_revision s1 armed) (\<lambda>s2. Inr (Armed armed, s2)))"

fun remove_placement_rows :: "string list \<Rightarrow> meta_store \<Rightarrow> string list \<Rightarrow> meta_store \<times> string list" where
  "remove_placement_rows [] s removed = (s, removed)"
| "remove_placement_rows (digest # digests) s removed =
     (let present = (fmlookup (ms_artifact_placement s) digest \<noteq> None) in
      remove_placement_rows digests (s\<lparr>ms_artifact_placement := fmdrop digest (ms_artifact_placement s)\<rparr>)
        (if present then removed @ [digest] else removed))"

definition compare_and_arm_reclaim_guards_and_remove_placements ::
  "meta_store \<Rightarrow> string list \<Rightarrow> u64 \<Rightarrow> i64 \<Rightarrow> reclaim_guard \<Rightarrow> (meta_error, reclaim_guard_arm \<times> meta_store) result" where
  "compare_and_arm_reclaim_guards_and_remove_placements s digests revision now replacement =
     and_then (arm_reclaim_guards s digests revision now replacement) (\<lambda>(armed, s1).
       case armed of
         GuardReferencesMoved \<Rightarrow> Inr (armed, s1)
       | Armed ds \<Rightarrow>
           (case remove_placement_rows ds s1 [] of (s2, removed) \<Rightarrow>
              and_then (try_fold advance_artifact_placement_revision s2 removed) (\<lambda>s3. Inr (armed, s3))))"

definition compare_and_disarm_reclaim_guard ::
  "meta_store \<Rightarrow> string \<Rightarrow> reclaim_guard \<Rightarrow> (meta_error, bool \<times> meta_store) result" where
  "compare_and_disarm_reclaim_guard s digest expected =
     (if fmlookup (ms_reclaim_guard s) digest = Some (rg_expires_at_unix expected)
      then and_then (advance_artifact_placement_revision
             (s\<lparr>ms_reclaim_guard := fmdrop digest (ms_reclaim_guard s)\<rparr>) digest) (\<lambda>s'. Inr (True, s'))
      else Inr (False, s))"

definition reclaim_guard_of :: "meta_store \<Rightarrow> string \<Rightarrow> reclaim_guard option" where
  "reclaim_guard_of s digest = map_option (\<lambda>e. \<lparr>rg_expires_at_unix = e\<rparr>) (fmlookup (ms_reclaim_guard s) digest)"

definition reclaim_guards :: "meta_store \<Rightarrow> (string \<times> reclaim_guard) list" where
  "reclaim_guards s = map (\<lambda>(d, e). (d, \<lparr>rg_expires_at_unix = e\<rparr>)) (sorted_list_of_fmap (ms_reclaim_guard s))"

end
