(* ===== verification/Orphan_Purge.thy ===== *)
theory Orphan_Purge
  imports Meta_Store
begin

text \<open>
  The orphan purge of \<open>peryx-ha-distributed/src/reclaim_guard.rs\<close>, interleaved with the writers that run
  beside it. The purge is a step relation over its program counter, the metadata store and the blob
  files; between two of its steps any driver transaction, row write or placement write may commit.
  What a driver row references is the ecosystem drivers' business: the scan is the parameter \<open>refs\<close>.
\<close>

section \<open>The purge\<close>

definition RECLAIM_GUARD_LEASE_SECS :: i64 where
  "RECLAIM_GUARD_LEASE_SECS = 300"

type_synonym candidate = "string \<times> u64"

record orphan_purge_report =
  op_blobs :: "candidate list"
  op_bytes :: u64

definition purge_report :: "candidate list \<Rightarrow> orphan_purge_report" where
  "purge_report candidates = \<lparr>op_blobs = candidates, op_bytes = sum_list (map snd candidates)\<rparr>"

definition orphan_candidates :: "candidate list \<Rightarrow> string set \<Rightarrow> candidate list" where
  "orphan_candidates entries referenced = filter (\<lambda>(digest, _). digest \<notin> referenced) entries"

definition release_guard :: "i64 \<Rightarrow> meta_store \<Rightarrow> string \<times> reclaim_guard \<Rightarrow> (meta_error, meta_store) result" where
  "release_guard now s dg =
     (if is_expired_at (snd dg) now
      then and_then (compare_and_disarm_reclaim_guard s (fst dg) (snd dg)) (\<lambda>(_, s'). Inr s')
      else Inr s)"

definition release_expired_guards :: "meta_store \<Rightarrow> i64 \<Rightarrow> (meta_error, meta_store) result" where
  "release_expired_guards s now = try_fold (release_guard now) s (reclaim_guards s)"

definition purge_guard :: "i64 \<Rightarrow> reclaim_guard" where
  "purge_guard now = \<lparr>rg_expires_at_unix = i64_saturating_add now RECLAIM_GUARD_LEASE_SECS\<rparr>"

datatype purge_error = ReferencesFailed | BlobFailed | PurgeStore meta_error

text \<open>Where the purge is: before its first scan, before the file visit, before the second scan of an
  unconfirmed run, and then along the confirmed run.\<close>

datatype purge_pc =
  PcScan
| PcVisit "string set"
| PcReport "candidate list"
| PcGuards "candidate list"
| PcRelease "candidate list" "(string \<times> reclaim_guard) list"
| PcRevision "candidate list"
| PcRescan "candidate list" u64
| PcArm "candidate list" u64 "string set"
| PcDelete "candidate list" "candidate list"
| PcDisarm "candidate list" candidate "candidate list"
| PcFinished orphan_purge_report
| PcFailed purge_error

record purge_state =
  ps_meta :: meta_store
  ps_blobs :: "candidate list"
  ps_pc :: purge_pc

inductive purge_step :: "((string, string) fmap \<Rightarrow> string set) \<Rightarrow> bool \<Rightarrow> i64 \<Rightarrow> purge_state \<Rightarrow> purge_state \<Rightarrow> bool"
  for refs confirmed now where
  p_scan: "ps_pc st = PcScan \<Longrightarrow>
    purge_step refs confirmed now st (st\<lparr>ps_pc := PcVisit (refs (ms_driver (ps_meta st)))\<rparr>)"
| p_visit_dry: "ps_pc st = PcVisit live \<Longrightarrow> \<not> confirmed \<Longrightarrow>
    purge_step refs confirmed now st (st\<lparr>ps_pc := PcReport (orphan_candidates (ps_blobs st) live)\<rparr>)"
| p_report: "ps_pc st = PcReport cands \<Longrightarrow>
    purge_step refs confirmed now st
      (st\<lparr>ps_pc := PcFinished (purge_report (orphan_candidates cands (refs (ms_driver (ps_meta st)))))\<rparr>)"
| p_visit: "ps_pc st = PcVisit live \<Longrightarrow> confirmed \<Longrightarrow>
    purge_step refs confirmed now st (st\<lparr>ps_pc := PcGuards (orphan_candidates (ps_blobs st) live)\<rparr>)"
| p_guards: "ps_pc st = PcGuards cands \<Longrightarrow>
    purge_step refs confirmed now st (st\<lparr>ps_pc := PcRelease cands (reclaim_guards (ps_meta st))\<rparr>)"
| p_release: "ps_pc st = PcRelease cands (dg # guards) \<Longrightarrow> release_guard now (ps_meta st) dg = Inr s' \<Longrightarrow>
    purge_step refs confirmed now st (st\<lparr>ps_meta := s', ps_pc := PcRelease cands guards\<rparr>)"
| p_released: "ps_pc st = PcRelease cands [] \<Longrightarrow>
    purge_step refs confirmed now st (st\<lparr>ps_pc := PcRevision cands\<rparr>)"
| p_revision: "ps_pc st = PcRevision cands \<Longrightarrow>
    purge_step refs confirmed now st (st\<lparr>ps_pc := PcRescan cands (ms_reference_revision (ps_meta st))\<rparr>)"
| p_rescan: "ps_pc st = PcRescan cands revision \<Longrightarrow>
    purge_step refs confirmed now st (st\<lparr>ps_pc := PcArm cands revision (refs (ms_driver (ps_meta st)))\<rparr>)"
| p_arm_moved: "ps_pc st = PcArm cands revision live \<Longrightarrow>
    compare_and_arm_reclaim_guards_and_remove_placements (ps_meta st)
      (map fst (orphan_candidates cands live)) revision now (purge_guard now) = Inr (GuardReferencesMoved, s') \<Longrightarrow>
    purge_step refs confirmed now st (st\<lparr>ps_meta := s', ps_pc := PcRevision cands\<rparr>)"
| p_arm: "ps_pc st = PcArm cands revision live \<Longrightarrow>
    compare_and_arm_reclaim_guards_and_remove_placements (ps_meta st)
      (map fst (orphan_candidates cands live)) revision now (purge_guard now) = Inr (Armed armed, s') \<Longrightarrow>
    selected = filter (\<lambda>(digest, _). digest \<in> set armed) cands \<Longrightarrow>
    purge_step refs confirmed now st (st\<lparr>ps_meta := s', ps_pc := PcDelete selected selected\<rparr>)"
| p_delete: "ps_pc st = PcDelete selected (c # rest) \<Longrightarrow>
    purge_step refs confirmed now st
      (st\<lparr>ps_blobs := filter (\<lambda>(digest, _). digest \<noteq> fst c) (ps_blobs st), ps_pc := PcDisarm selected c rest\<rparr>)"
| p_disarm: "ps_pc st = PcDisarm selected c rest \<Longrightarrow>
    compare_and_disarm_reclaim_guard (ps_meta st) (fst c) (purge_guard now) = Inr (b, s') \<Longrightarrow>
    purge_step refs confirmed now st (st\<lparr>ps_meta := s', ps_pc := PcDelete selected rest\<rparr>)"
| p_done: "ps_pc st = PcDelete selected [] \<Longrightarrow>
    purge_step refs confirmed now st (st\<lparr>ps_pc := PcFinished (purge_report selected)\<rparr>)"
| p_references_failed: "ps_pc st \<in> {PcScan, PcReport cands, PcRescan cands revision} \<Longrightarrow>
    purge_step refs confirmed now st (st\<lparr>ps_pc := PcFailed ReferencesFailed\<rparr>)"
| p_blob_failed: "ps_pc st \<in> {PcVisit live, PcDelete selected (c # rest)} \<Longrightarrow>
    purge_step refs confirmed now st (st\<lparr>ps_pc := PcFailed BlobFailed\<rparr>)"
| p_store_failed: "ps_pc st \<in> {PcGuards cands, PcRelease cands guards, PcRevision cands, PcArm cands revision live, PcDisarm selected c rest} \<Longrightarrow>
    purge_step refs confirmed now st (st\<lparr>ps_pc := PcFailed (PurgeStore e)\<rparr>)"

section \<open>The writers beside it\<close>

text \<open>The drivers' contract: a transaction declares every blob its rows newly reference.\<close>

definition declares_references :: "((string, string) fmap \<Rightarrow> string set) \<Rightarrow> meta_store \<Rightarrow> driver_call list \<Rightarrow> bool" where
  "declares_references refs s calls \<longleftrightarrow>
     (let d = foldl run_call (driver_txn_open s) calls in
      refs (dt_table d) \<subseteq> refs (ms_driver s) \<union> br_sha256 ` fset (dt_blobs d))"

inductive writer_step :: "((string, string) fmap \<Rightarrow> string set) \<Rightarrow> meta_store \<Rightarrow> meta_store \<Rightarrow> bool" for refs where
  w_commit: "commit_driver_txn s False t (calls_body calls payloads) = Inr ((), s') \<Longrightarrow>
    declares_references refs s calls \<Longrightarrow> ms_reference_revision s \<noteq> u64_max \<Longrightarrow> writer_step refs s s'"
| w_put: "s' = put_driver_value s k v \<Longrightarrow> refs (ms_driver s') \<subseteq> refs (ms_driver s) \<Longrightarrow>
    ms_reference_revision s \<noteq> u64_max \<Longrightarrow> writer_step refs s s'"
| w_delete: "delete_driver_value s k = (b, s') \<Longrightarrow> refs (ms_driver s') \<subseteq> refs (ms_driver s) \<Longrightarrow>
    ms_reference_revision s \<noteq> u64_max \<Longrightarrow> writer_step refs s s'"
| w_batch: "s' = commit_driver_batch s batch \<Longrightarrow> refs (ms_driver s') \<subseteq> refs (ms_driver s) \<Longrightarrow>
    ms_reference_revision s \<noteq> u64_max \<Longrightarrow> writer_step refs s s'"
| w_placement: "put_artifact_placement s digest p = Inr s' \<Longrightarrow> writer_step refs s s'"
| w_insert: "insert_artifact_placement s digest p = Inr (q, s') \<Longrightarrow> writer_step refs s s'"
| w_local: "mark_artifact_local s digest source = Inr (q, s') \<Longrightarrow> writer_step refs s s'"
| w_compare: "compare_and_put_artifact_placement s digest p q = Inr (b, s') \<Longrightarrow> writer_step refs s s'"
| w_remove: "delete_artifact_placement s digest = Inr (b, s') \<Longrightarrow> writer_step refs s s'"

inductive purge_run :: "((string, string) fmap \<Rightarrow> string set) \<Rightarrow> i64 \<Rightarrow> purge_state \<Rightarrow> bool" for refs now where
  start: "ps_pc st = PcScan \<Longrightarrow> distinct (map fst (ps_blobs st)) \<Longrightarrow> purge_run refs now st"
| collect: "purge_run refs now st \<Longrightarrow> purge_step refs True now st st' \<Longrightarrow> purge_run refs now st'"
| writer: "purge_run refs now st \<Longrightarrow> writer_step refs (ps_meta st) s' \<Longrightarrow> purge_run refs now (st\<lparr>ps_meta := s'\<rparr>)"
| upload: "purge_run refs now st \<Longrightarrow> distinct (map fst blobs') \<Longrightarrow> purge_run refs now (st\<lparr>ps_blobs := blobs'\<rparr>)"

inductive_cases purge_stepE: "purge_step refs confirmed now st st'"

section \<open>What the writers leave alone\<close>

definition same_rows :: "meta_store \<Rightarrow> meta_store \<Rightarrow> bool" where
  "same_rows s s' \<longleftrightarrow> ms_driver s' = ms_driver s \<and> ms_reference_revision s' = ms_reference_revision s
     \<and> ms_reclaim_guard s' = ms_reclaim_guard s"

definition same_placements :: "meta_store \<Rightarrow> meta_store \<Rightarrow> bool" where
  "same_placements s s' \<longleftrightarrow> same_rows s s' \<and> ms_artifact_placement s' = ms_artifact_placement s"

text \<open>Guarded digests may lose their placement row but never get another one.\<close>

definition respects_guards :: "meta_store \<Rightarrow> meta_store \<Rightarrow> bool" where
  "respects_guards s s' \<longleftrightarrow> same_rows s s' \<and> (\<forall>d. fmlookup (ms_reclaim_guard s) d \<noteq> None \<longrightarrow>
     fmlookup (ms_artifact_placement s') d \<in> {fmlookup (ms_artifact_placement s) d, None})"

lemmas frame_defs = same_rows_def same_placements_def respects_guards_def

lemma advance_revision_frame: "advance_artifact_placement_revision s d = Inr s' \<Longrightarrow> same_placements s s'"
  by (auto simp: advance_artifact_placement_revision_def frame_defs split: option.splits)

lemma advance_revisions_frame: "try_fold advance_artifact_placement_revision s ds = Inr s' \<Longrightarrow> same_placements s s'"
  by (rule try_fold_keeps) (auto dest!: advance_revision_frame simp: frame_defs)

lemma webhook_frame: "enqueue_webhook_events s es = Inr s' \<Longrightarrow> same_placements s s'"
  unfolding enqueue_webhook_events_def
  by (rule try_fold_keeps) (auto simp: insert_webhook_event_def Let_def frame_defs split: if_splits)

lemma journal_frame: "commit_journal s js = (c, s') \<Longrightarrow> same_placements s s'"
proof -
  have "same_placements s (foldl journal_one s js)" for s
    by (induction js arbitrary: s) (auto simp: journal_one_def Let_def frame_defs)
  then show "commit_journal s js = (c, s') \<Longrightarrow> same_placements s s'"
    by (auto simp: commit_journal_def Let_def frame_defs split: if_splits)
qed

lemma generations_frame: "same_placements s (advance_repository_generations s rs)"
proof -
  let ?f = "\<lambda>t repository. let g = policy_generation_of t repository in
      t\<lparr>ms_policy_generation := fmupd repository (g\<lparr>pg_repository := pg_repository g + 1\<rparr>) (ms_policy_generation t)\<rparr>"
  have "same_placements s (foldl ?f s xs)" for xs
    by (induction xs arbitrary: s) (auto simp: Let_def frame_defs)
  then show ?thesis by (simp add: advance_repository_generations_def)
qed

lemma guard_loop_active:
  assumes "guard_loop now True bs s ds = Inr (s', ds')"
  shows "s' = s \<and> ds' = ds \<and> (\<forall>b \<in> set bs. fmlookup (ms_reclaim_guard s) (br_sha256 b) = None)"
  using assms by (induction bs) (auto split: option.splits)

lemma guard_check_active:
  assumes "check_blob_reclaim_guard s None blobs now True = Inr s'"
  shows "s' = s \<and> (\<forall>b \<in> fset blobs. fmlookup (ms_reclaim_guard s) (br_sha256 b) = None)"
proof (cases "blobs = {||}")
  case True
  with assms show ?thesis by (simp add: check_blob_reclaim_guard_def)
next
  case False
  then obtain s1 ds where "guard_loop now True (sorted_list_of_fset blobs) s [] = Inr (s1, ds)"
      "try_fold advance_artifact_placement_revision s1 ds = Inr s'"
    using assms by (auto simp: check_blob_reclaim_guard_def and_then_Inr_iff)
  with guard_loop_active [OF this(1)] show ?thesis by (auto simp: sorted_list_of_fset.rep_eq)
qed

lemma unlocked_iff: "ensure_placement_unlocked s d = Inr u \<longleftrightarrow> fmlookup (ms_reclaim_guard s) d = None"
  by (simp add: ensure_placement_unlocked_def)

lemma respects_trans: "respects_guards s s1 \<Longrightarrow> same_placements s1 s2 \<Longrightarrow> respects_guards s s2"
  by (auto simp: frame_defs)

lemma insert_row_respects:
  "fmlookup (ms_reclaim_guard s) d = None \<Longrightarrow> respects_guards s (insert_placement_row s d p)"
  by (auto simp: frame_defs insert_placement_row_def)

lemma write_rows_respect:
  assumes "\<forall>(d, p) \<in> set ps. fmlookup (ms_reclaim_guard s) d = None"
  shows "respects_guards s (foldl (\<lambda>t (digest, placement). insert_placement_row t digest
           (preserve_source (fmlookup (ms_artifact_placement t) digest) placement)) s ps)"
  using assms
proof (induction ps arbitrary: s)
  case (Cons dp ps)
  obtain d p where dp: "dp = (d, p)" by (cases dp)
  let ?s1 = "insert_placement_row s d (preserve_source (fmlookup (ms_artifact_placement s) d) p)"
  have r1: "respects_guards s ?s1" using Cons.prems dp insert_row_respects by simp
  then have "\<forall>(d, p) \<in> set ps. fmlookup (ms_reclaim_guard ?s1) d = None"
    using Cons.prems by (auto simp: frame_defs)
  from Cons.IH [OF this] r1 dp show ?case by (fastforce simp: frame_defs)
qed (simp add: frame_defs)

lemma write_placements_respect:
  assumes "write_artifact_placements s ps = Inr s'"
  shows "respects_guards s s'"
proof (cases "ps = []")
  case True
  with assms show ?thesis by (simp add: write_artifact_placements_def frame_defs)
next
  case False
  have all: "\<forall>(d, p) \<in> set ps. fmlookup (ms_reclaim_guard s) d = None"
    if "try_fold (\<lambda>_ (digest, _). ensure_placement_unlocked s digest) u ps = Inr u'" for u u'
    using that by (induction ps arbitrary: u) (auto simp: and_then_Inr_iff unlocked_iff)
  from assms False obtain s1 where s1: "respects_guards s s1"
      "try_fold (\<lambda>t (digest, _). advance_artifact_placement_revision t digest) s1 ps = Inr s'"
    using all write_rows_respect by (auto simp: write_artifact_placements_def and_then_Inr_iff Let_def)
  have "same_placements s1 s'"
    using s1(2) by (rule try_fold_keeps) (auto dest!: advance_revision_frame simp: frame_defs)
  with s1 respects_trans show ?thesis by blast
qed

lemma run_calls_tracked:
  "dt_wrote_rows d \<or> dt_table d = table \<Longrightarrow>
   dt_wrote_rows (foldl run_call d calls) \<or> dt_table (foldl run_call d calls) = table"
proof (induction calls arbitrary: d)
  case (Cons c calls)
  have "dt_wrote_rows (run_call d c) \<or> dt_table (run_call d c) = table"
    using Cons.prems
    by (cases c; auto simp: txn_put_def txn_upsert_def txn_put_local_def txn_upsert_local_def txn_remove_def
        txn_remove_local_def txn_reference_blob_def txn_put_artifact_placement_def
        txn_enqueue_webhook_event_def txn_touch_policy_inputs_def Let_def; metis fmdrop_absent not_None_eq)
  with Cons.IH show ?case by simp
qed simp

text \<open>A committed transaction beside a running collector.\<close>

lemma commit_beside_collector:
  assumes "commit_driver_txn s False t (calls_body calls payloads) = Inr ((), s')"
    and d: "d = foldl run_call (driver_txn_open s) calls"
  shows "ms_driver s' = dt_table d"
    and "ms_reference_revision s' = (if dt_wrote_rows d then ms_reference_revision s + 1 else ms_reference_revision s)"
    and "ms_reclaim_guard s' = ms_reclaim_guard s"
    and "\<forall>b \<in> fset (dt_blobs d). fmlookup (ms_reclaim_guard s) (br_sha256 b) = None"
    and "\<forall>x. fmlookup (ms_reclaim_guard s) x \<noteq> None \<longrightarrow>
           fmlookup (ms_artifact_placement s') x \<in> {fmlookup (ms_artifact_placement s) x, None}"
proof -
  define s1 where "s1 = s\<lparr>ms_driver := dt_table d, ms_revocations := dt_revocations d\<rparr>"
  define s2 where "s2 = (if dt_wrote_rows d then advance_reference_revision s1 else s1)"
  from assms obtain s3 s4 s5 js where
    3: "enqueue_webhook_events s2 (dt_webhooks d) = Inr s3" and
    4: "check_blob_reclaim_guard s3 None (dt_blobs d) t True = Inr s4" and
    5: "write_artifact_placements s4 (dt_placements d) = Inr s5" and
    7: "s' = advance_repository_generations (snd (commit_journal s5 js)) (dt_policy_inputs d)"
    by (auto simp: commit_driver_txn_def commit_driver_txn_with_journal_def calls_body_def check_replica_serial_def
        and_then_Inr_iff Let_def s1_def s2_def case_prod_unfold simp del: finish_journal.simps cong: if_cong)
  have s2: "ms_driver s2 = dt_table d" "ms_reclaim_guard s2 = ms_reclaim_guard s"
    "ms_artifact_placement s2 = ms_artifact_placement s"
    "ms_reference_revision s2 = (if dt_wrote_rows d then ms_reference_revision s + 1 else ms_reference_revision s)"
    by (simp_all add: s2_def s1_def advance_reference_revision_def)
  note fr = webhook_frame [OF 3] guard_check_active [OF 4] write_placements_respect [OF 5] journal_frame [of s5 js, OF surjective_pairing]
    generations_frame [of "snd (commit_journal s5 js)" "dt_policy_inputs d"]
  show "ms_driver s' = dt_table d" "ms_reclaim_guard s' = ms_reclaim_guard s"
    "ms_reference_revision s' = (if dt_wrote_rows d then ms_reference_revision s + 1 else ms_reference_revision s)"
    "\<forall>b \<in> fset (dt_blobs d). fmlookup (ms_reclaim_guard s) (br_sha256 b) = None"
    "\<forall>x. fmlookup (ms_reclaim_guard s) x \<noteq> None \<longrightarrow>
           fmlookup (ms_artifact_placement s') x \<in> {fmlookup (ms_artifact_placement s) x, None}"
    using fr s2 7 by (simp_all add: frame_defs)
qed

text \<open>What any writer guarantees to the collector.\<close>

definition writer_guarantee :: "((string, string) fmap \<Rightarrow> string set) \<Rightarrow> meta_store \<Rightarrow> meta_store \<Rightarrow> bool" where
  "writer_guarantee refs s s' \<longleftrightarrow>
     ms_reclaim_guard s' = ms_reclaim_guard s
     \<and> ms_reference_revision s \<le> ms_reference_revision s'
     \<and> (ms_reference_revision s' = ms_reference_revision s \<longrightarrow> ms_driver s' = ms_driver s)
     \<and> (\<forall>x. fmlookup (ms_reclaim_guard s) x \<noteq> None \<longrightarrow>
          (x \<in> refs (ms_driver s') \<longrightarrow> x \<in> refs (ms_driver s))
          \<and> fmlookup (ms_artifact_placement s') x \<in> {fmlookup (ms_artifact_placement s) x, None})"

lemma respects_guarantee: "respects_guards s s' \<Longrightarrow> writer_guarantee refs s s'"
  by (auto simp: writer_guarantee_def frame_defs)

lemma row_write_guarantee:
  assumes "ms_reclaim_guard s' = ms_reclaim_guard s" "ms_artifact_placement s' = ms_artifact_placement s"
    and "ms_reference_revision s' = ms_reference_revision s + 1 \<or>
         ms_reference_revision s' = ms_reference_revision s \<and> ms_driver s' = ms_driver s"
    and "ms_reference_revision s \<noteq> u64_max" "refs (ms_driver s') \<subseteq> refs (ms_driver s)"
  shows "writer_guarantee refs s s'"
  using assms u64_less_plus_1 [of "ms_reference_revision s"] by (auto simp: writer_guarantee_def)

lemma placement_write_respects:
  assumes "fmlookup (ms_reclaim_guard s) d = None"
    and "advance_artifact_placement_revision (insert_placement_row s d p) d' = Inr s'"
  shows "respects_guards s s'"
  using insert_row_respects [OF assms(1)] advance_revision_frame [OF assms(2)] respects_trans by blast

lemma commit_guarantee:
  assumes "commit_driver_txn s False t (calls_body calls payloads) = Inr ((), s')"
    and "declares_references refs s calls" "ms_reference_revision s \<noteq> u64_max"
  shows "writer_guarantee refs s s'"
proof -
  define d where "d = foldl run_call (driver_txn_open s) calls"
  note c = commit_beside_collector [OF assms(1) d_def]
  have tracked: "dt_wrote_rows d \<or> dt_table d = ms_driver s"
    using run_calls_tracked [of "driver_txn_open s" "ms_driver s" calls] by (simp add: d_def driver_txn_open_def)
  have "refs (ms_driver s') \<subseteq> refs (ms_driver s) \<union> br_sha256 ` fset (dt_blobs d)"
    using assms(2) c(1) by (simp add: declares_references_def Let_def d_def)
  with c tracked u64_less_plus_1 [OF assms(3)] show ?thesis
    by (auto simp: writer_guarantee_def less_imp_le)
qed

lemma writer_step_guarantee: "writer_step refs s s' \<Longrightarrow> writer_guarantee refs s s'"
proof (induction rule: writer_step.induct)
  case (w_commit s t calls payloads s')
  then show ?case by (rule commit_guarantee)
next
  case (w_put s' s k v)
  then show ?case by (intro row_write_guarantee) (auto simp: put_driver_value_def advance_reference_revision_def)
next
  case (w_delete s k b s')
  then show ?case
    by (intro row_write_guarantee)
      (auto simp: delete_driver_value_def advance_reference_revision_def Let_def fmdrop_absent split: if_splits)
next
  case (w_batch s' s batch)
  then show ?case
    by (intro row_write_guarantee)
      (auto simp: commit_driver_batch_def advance_reference_revision_def Let_def split: if_splits)
next
  case (w_placement s digest p s')
  then show ?case
    by (auto simp: put_artifact_placement_def and_then_Inr_iff unlocked_iff
        intro!: respects_guarantee elim: placement_write_respects)
next
  case (w_insert s digest p q s')
  then show ?case
    by (auto simp: insert_artifact_placement_def and_then_Inr_iff unlocked_iff Let_def frame_defs
        split: option.splits if_splits intro!: respects_guarantee dest: placement_write_respects)
next
  case (w_local s digest source q s')
  then show ?case
    by (auto simp: mark_artifact_local_def and_then_Inr_iff unlocked_iff Let_def
        intro!: respects_guarantee elim: placement_write_respects)
next
  case (w_compare s digest p q b s')
  then show ?case
    by (auto simp: compare_and_put_artifact_placement_def and_then_Inr_iff unlocked_iff frame_defs
        split: if_splits intro!: respects_guarantee dest: placement_write_respects)
next
  case (w_remove s digest b s')
  then show ?case
    by (auto simp: delete_artifact_placement_def and_then_Inr_iff Let_def frame_defs
        split: if_splits intro!: respects_guarantee dest!: advance_revision_frame)
qed

section \<open>Arming and disarming\<close>

lemma arm_loop_spec:
  assumes "arm_loop now g ds s armed = (s', armed')"
    and "\<forall>d \<in> set armed. fmlookup (ms_reclaim_guard s) d = Some (rg_expires_at_unix g)"
  shows "ms_driver s' = ms_driver s \<and> ms_reference_revision s' = ms_reference_revision s
    \<and> ms_artifact_placement s' = ms_artifact_placement s \<and> set armed' \<subseteq> set armed \<union> set ds
    \<and> (\<forall>d \<in> set armed'. fmlookup (ms_reclaim_guard s') d = Some (rg_expires_at_unix g))"
  using assms
proof (induction ds arbitrary: s armed)
  case (Cons d ds)
  show ?case
  proof (cases "case fmlookup (ms_reclaim_guard s) d of None \<Rightarrow> True
      | Some expires \<Rightarrow> is_expired_at \<lparr>rg_expires_at_unix = expires\<rparr> now")
    case True
    let ?s1 = "s\<lparr>ms_reclaim_guard := fmupd d (rg_expires_at_unix g) (ms_reclaim_guard s)\<rparr>"
    have "arm_loop now g ds ?s1 (armed @ [d]) = (s', armed')" using Cons.prems(1) True by simp
    from Cons.IH [OF this] Cons.prems(2) show ?thesis by auto
  next
    case False
    with Cons show ?thesis by fastforce
  qed
qed simp

lemma remove_rows_spec:
  assumes "remove_placement_rows ds s removed = (s', removed')"
  shows "same_rows s s' \<and> (\<forall>d. fmlookup (ms_artifact_placement s') d =
    (if d \<in> set ds then None else fmlookup (ms_artifact_placement s) d))"
  using assms
proof (induction ds arbitrary: s removed)
  case (Cons d ds)
  let ?s1 = "s\<lparr>ms_artifact_placement := fmdrop d (ms_artifact_placement s)\<rparr>"
  obtain r where "remove_placement_rows ds ?s1 r = (s', removed')"
    using Cons.prems by (auto simp: Let_def)
  from Cons.IH [OF this] show ?case by (auto simp: frame_defs)
qed (simp add: frame_defs)

lemma arm_spec:
  assumes "compare_and_arm_reclaim_guards_and_remove_placements s ds revision now g = Inr (Armed armed, s')"
  shows "ms_reference_revision s = revision \<and> ms_driver s' = ms_driver s
    \<and> ms_reference_revision s' = ms_reference_revision s \<and> set armed \<subseteq> set ds
    \<and> (\<forall>d \<in> set armed. fmlookup (ms_reclaim_guard s') d = Some (rg_expires_at_unix g)
          \<and> fmlookup (ms_artifact_placement s') d = None)"
proof -
  from assms obtain a s1 where a: "arm_reclaim_guards s ds revision now g = Inr (a, s1)"
    by (auto simp: compare_and_arm_reclaim_guards_and_remove_placements_def and_then_Inr_iff)
  obtain s2 removed where s2: "remove_placement_rows armed s1 [] = (s2, removed)"
    by (cases "remove_placement_rows armed s1 []")
  have "a = Armed armed \<and> try_fold advance_artifact_placement_revision s2 removed = Inr s'"
    using assms a s2
    by (cases a) (auto simp: compare_and_arm_reclaim_guards_and_remove_placements_def and_then_Inr_iff split: prod.splits)
  then have arm: "arm_reclaim_guards s ds revision now g = Inr (Armed armed, s1)"
    and s3: "try_fold advance_artifact_placement_revision s2 removed = Inr s'" using a by auto
  from arm obtain s0 where s0: "ms_reference_revision s = revision" "arm_loop now g ds s [] = (s0, armed)"
      "try_fold advance_artifact_placement_revision s0 armed = Inr s1"
    by (auto simp: arm_reclaim_guards_def and_then_Inr_iff split: if_splits prod.splits)
  show ?thesis
    using arm_loop_spec [OF s0(2)] advance_revisions_frame [OF s0(3)] remove_rows_spec [OF s2]
      advance_revisions_frame [OF s3] s0(1) by (simp add: frame_defs)
qed

lemma arm_moved: "compare_and_arm_reclaim_guards_and_remove_placements s ds revision now g = Inr (GuardReferencesMoved, s') \<Longrightarrow> s' = s"
  by (auto simp: compare_and_arm_reclaim_guards_and_remove_placements_def arm_reclaim_guards_def and_then_Inr_iff
      split: if_splits prod.splits reclaim_guard_arm.splits)

lemma disarm_spec:
  assumes "compare_and_disarm_reclaim_guard s d g = Inr (b, s')"
  shows "ms_driver s' = ms_driver s \<and> ms_reference_revision s' = ms_reference_revision s
    \<and> ms_artifact_placement s' = ms_artifact_placement s
    \<and> (\<forall>x. x \<noteq> d \<longrightarrow> fmlookup (ms_reclaim_guard s') x = fmlookup (ms_reclaim_guard s) x)"
  using assms
  by (auto simp: compare_and_disarm_reclaim_guard_def and_then_Inr_iff frame_defs
      split: if_splits dest!: advance_revision_frame)

section \<open>Safety\<close>

text \<open>A digest the collector may delete: guarded, unreferenced and without a placement row.\<close>

definition reclaimable :: "((string, string) fmap \<Rightarrow> string set) \<Rightarrow> meta_store \<Rightarrow> string \<Rightarrow> bool" where
  "reclaimable refs s d \<longleftrightarrow> fmlookup (ms_reclaim_guard s) d \<noteq> None \<and> d \<notin> refs (ms_driver s)
     \<and> fmlookup (ms_artifact_placement s) d = None"

fun purge_inv :: "((string, string) fmap \<Rightarrow> string set) \<Rightarrow> meta_store \<Rightarrow> purge_pc \<Rightarrow> bool" where
  "purge_inv refs s (PcRescan cands revision) \<longleftrightarrow> distinct (map fst cands) \<and> revision \<le> ms_reference_revision s"
| "purge_inv refs s (PcArm cands revision live) \<longleftrightarrow> distinct (map fst cands) \<and> revision \<le> ms_reference_revision s
     \<and> (ms_reference_revision s = revision \<longrightarrow> refs (ms_driver s) = live)"
| "purge_inv refs s (PcDelete selected rest) \<longleftrightarrow> distinct (map fst rest) \<and> (\<forall>c \<in> set rest. reclaimable refs s (fst c))"
| "purge_inv refs s (PcDisarm selected c rest) \<longleftrightarrow> distinct (map fst (c # rest))
     \<and> (\<forall>c \<in> set (c # rest). reclaimable refs s (fst c))"
| "purge_inv refs s (PcGuards cands) \<longleftrightarrow> distinct (map fst cands)"
| "purge_inv refs s (PcRelease cands guards) \<longleftrightarrow> distinct (map fst cands)"
| "purge_inv refs s (PcRevision cands) \<longleftrightarrow> distinct (map fst cands)"
| "purge_inv refs s _ \<longleftrightarrow> True"

lemma reclaimable_writer: "writer_guarantee refs s s' \<Longrightarrow> reclaimable refs s d \<Longrightarrow> reclaimable refs s' d"
  by (fastforce simp: writer_guarantee_def reclaimable_def)

lemma purge_inv_writer:
  assumes "writer_guarantee refs s s'" "purge_inv refs s pc"
  shows "purge_inv refs s' pc"
proof (cases pc)
  case (PcArm cands revision live)
  with assms show ?thesis by (auto simp: writer_guarantee_def)
next
  case (PcRescan cands revision)
  with assms show ?thesis by (auto simp: writer_guarantee_def)
qed (use assms reclaimable_writer in auto)

lemma distinct_orphans: "distinct (map fst cs) \<Longrightarrow> distinct (map fst (orphan_candidates cs live))"
  by (simp add: orphan_candidates_def distinct_map_filter)

lemma purge_inv_step:
  assumes "purge_step refs confirmed now st st'" "purge_inv refs (ps_meta st) (ps_pc st)"
    and "distinct (map fst (ps_blobs st))"
  shows "purge_inv refs (ps_meta st') (ps_pc st') \<and> distinct (map fst (ps_blobs st'))"
  using assms(1)
proof cases
  case (p_arm cands revision live armed s' selected)
  note arm = arm_spec [OF p_arm(3)]
  have "distinct (map fst selected)" using assms(2) p_arm by (simp add: distinct_map_filter)
  moreover have "reclaimable refs s' (fst c)" if "c \<in> set selected" for c
  proof -
    have "fst c \<in> set armed" using that p_arm by auto
    then have "fst c \<in> set (map fst (orphan_candidates cands live))" using arm by auto
    then have "fst c \<notin> live" by (auto simp: orphan_candidates_def)
    moreover have "refs (ms_driver (ps_meta st)) = live" using assms(2) p_arm arm by simp
    ultimately show ?thesis using arm \<open>fst c \<in> set armed\<close> by (simp add: reclaimable_def)
  qed
  ultimately show ?thesis using p_arm assms(3) by simp
next
  case (p_arm_moved cands revision live s')
  then show ?thesis using assms arm_moved by simp
next
  case (p_disarm selected c rest b s')
  note dis = disarm_spec [OF p_disarm(3)]
  have "reclaimable refs s' (fst x)" if "x \<in> set rest" for x
  proof -
    have "fst c \<notin> fst ` set rest" using assms(2) p_disarm by simp
    then have "fst x \<noteq> fst c" using that by (metis imageI)
    then show ?thesis using dis assms(2) p_disarm that by (simp add: reclaimable_def)
  qed
  then show ?thesis using p_disarm assms by simp
next
  case (p_delete selected c rest)
  then show ?thesis using assms by (simp add: distinct_map_filter)
qed (use assms in \<open>auto simp: distinct_orphans\<close>)

lemma purge_run_inv: "purge_run refs now st \<Longrightarrow> purge_inv refs (ps_meta st) (ps_pc st) \<and> distinct (map fst (ps_blobs st))"
proof (induction rule: purge_run.induct)
  case (collect st st')
  then show ?case using purge_inv_step by blast
next
  case (writer st s')
  then show ?case using purge_inv_writer [OF writer_step_guarantee] by auto
qed auto


section \<open>Witness\<close>

text \<open>One orphaned file, drivers whose rows name the blob they reference, and no writer in between.\<close>

definition row_refs :: "(string, string) fmap \<Rightarrow> string set" where
  "row_refs table = fset (fmran table)"

definition orphan_state :: "meta_store \<Rightarrow> purge_pc \<Rightarrow> purge_state" where
  "orphan_state s pc = \<lparr>ps_meta = s, ps_blobs = [(''aa'', 3)], ps_pc = pc\<rparr>"

definition orphan_armed :: meta_store where
  "orphan_armed = (case compare_and_arm_reclaim_guards_and_remove_placements meta_store_empty [''aa''] 0 10 (purge_guard 10) of
     Inl _ \<Rightarrow> meta_store_empty | Inr (_, s) \<Rightarrow> s)"

lemma orphan_arm:
  "compare_and_arm_reclaim_guards_and_remove_placements meta_store_empty [''aa''] 0 10 (purge_guard 10) =
     Inr (Armed [''aa''], orphan_armed)"
  by (simp add: orphan_armed_def compare_and_arm_reclaim_guards_and_remove_placements_def arm_reclaim_guards_def
      advance_artifact_placement_revision_def u64_checked_add_def meta_store_empty_def)

lemma orphan_run: "purge_run row_refs 10 (orphan_state orphan_armed (PcDelete [(''aa'', 3)] [(''aa'', 3)]))"
proof -
  let ?R = "purge_run row_refs 10" and ?c = "[(''aa'', 3)]"
  have refs: "row_refs (ms_driver meta_store_empty) = {}" by (simp add: row_refs_def meta_store_empty_def)
  have guards: "reclaim_guards meta_store_empty = []" by code_simp
  have rev: "ms_reference_revision meta_store_empty = 0" by code_simp
  have cands: "orphan_candidates ?c {} = ?c" by (simp add: orphan_candidates_def)
  have "?R (orphan_state meta_store_empty PcScan)" by (rule start) (simp_all add: orphan_state_def)
  from collect [OF this p_scan] have "?R (orphan_state meta_store_empty (PcVisit {}))"
    by (simp add: orphan_state_def refs)
  from collect [OF this p_visit] have "?R (orphan_state meta_store_empty (PcGuards ?c))"
    by (simp add: orphan_state_def cands)
  from collect [OF this p_guards] have "?R (orphan_state meta_store_empty (PcRelease ?c []))"
    by (simp add: orphan_state_def guards)
  from collect [OF this p_released] have "?R (orphan_state meta_store_empty (PcRevision ?c))"
    by (simp add: orphan_state_def)
  from collect [OF this p_revision] have "?R (orphan_state meta_store_empty (PcRescan ?c 0))"
    by (simp add: orphan_state_def rev)
  from collect [OF this p_rescan] have "?R (orphan_state meta_store_empty (PcArm ?c 0 {}))"
    by (simp add: orphan_state_def refs)
  from collect [OF this p_arm [where armed = "[''aa'']" and s' = orphan_armed, OF _ _ refl]] show ?thesis
    by (simp add: orphan_state_def cands orphan_arm)
qed


end
