(* ===== verification/Journal.thy ===== *)
theory Journal
  imports Meta_Store
begin

text \<open>
  The journal of \<open>peryx-storage/src/meta/journal.rs\<close> as its readers see it (pages, floor, pruning), and the
  revocation writers of \<open>meta/revocation.rs\<close>, which journal what they write. \<open>encode\<close> stands for
  \<open>ServerMutation::encode\<close>, a \<open>serde_json\<close> call. The lemmas connect the three journal tables with the
  list of entries that was committed to them.
\<close>

section \<open>Reading and pruning\<close>

record journal_record =
  jr_serial :: u64
  jr_payload :: string
  jr_mutations :: "driver_mutation list"
  jr_blobs :: "driver_blob_reference list"

record journal_snapshot =
  jn_current_serial :: u64
  jn_records :: "journal_record list"

fun mutation_key :: "driver_mutation \<Rightarrow> string" where
  "mutation_key (MutPut key _) = key"
| "mutation_key (MutDelete key) = key"

definition current_serial :: "meta_store \<Rightarrow> u64" where
  "current_serial s = ms_serial s"

definition rows_or_empty :: "('k, 'a list) fmap \<Rightarrow> 'k \<Rightarrow> 'a list" where
  "rows_or_empty table k = (case fmlookup table k of None \<Rightarrow> [] | Some xs \<Rightarrow> xs)"

definition journal_record_of :: "meta_store \<Rightarrow> u64 \<times> string \<Rightarrow> journal_record" where
  "journal_record_of s entry =
     \<lparr>jr_serial = fst entry, jr_payload = snd entry,
      jr_mutations = rows_or_empty (ms_journal_mutations s) (fst entry),
      jr_blobs = rows_or_empty (ms_journal_blobs s) (fst entry)\<rparr>"

text \<open>The visitor's state is threaded; its flag is \<open>ControlFlow::Break\<close>.\<close>

fun visit_loop :: "meta_store \<Rightarrow> ('v \<Rightarrow> journal_record \<Rightarrow> 'v \<times> bool) \<Rightarrow> (u64 \<times> string) list \<Rightarrow> 'v \<Rightarrow> 'v" where
  "visit_loop s visit [] v = v"
| "visit_loop s visit (entry # entries) v =
     (case visit v (journal_record_of s entry) of (v', stop) \<Rightarrow>
        if stop then v' else visit_loop s visit entries v')"

definition journal_floor :: "meta_store \<Rightarrow> u64 option" where
  "journal_floor s =
     (case ms_retained_floor s of
        Some retained \<Rightarrow> Some retained
      | None \<Rightarrow> (case sorted_list_of_fmap (ms_journal s) of [] \<Rightarrow> None | (serial, _) # _ \<Rightarrow> Some serial))"

definition visit_retained_journal_page ::
  "meta_store \<Rightarrow> u64 \<Rightarrow> usize \<Rightarrow> ('v \<Rightarrow> journal_record \<Rightarrow> 'v \<times> bool) \<Rightarrow> 'v \<Rightarrow> 'v \<times> u64 \<times> u64 option" where
  "visit_retained_journal_page s after limit visit v =
     (visit_loop s visit (take limit (rows_after (Some after) (ms_journal s))) v, ms_serial s, journal_floor s)"

definition visit_journal_page ::
  "meta_store \<Rightarrow> u64 \<Rightarrow> usize \<Rightarrow> ('v \<Rightarrow> journal_record \<Rightarrow> 'v \<times> bool) \<Rightarrow> 'v \<Rightarrow> 'v \<times> u64" where
  "visit_journal_page s after limit visit v =
     (case visit_retained_journal_page s after limit visit v of (v', current, _) \<Rightarrow> (v', current))"

definition journal_snapshot_of :: "meta_store \<Rightarrow> u64 \<Rightarrow> usize \<Rightarrow> journal_snapshot" where
  "journal_snapshot_of s after limit =
     (case visit_journal_page s after limit (\<lambda>records record. (records @ [record], False)) [] of (records, current) \<Rightarrow>
        \<lparr>jn_current_serial = current, jn_records = records\<rparr>)"

definition journal_page_after :: "meta_store \<Rightarrow> u64 \<Rightarrow> usize \<Rightarrow> u64 \<times> journal_record list" where
  "journal_page_after s serial limit =
     (let snapshot = journal_snapshot_of s serial limit in (jn_current_serial snapshot, jn_records snapshot))"

definition journal_after :: "meta_store \<Rightarrow> u64 \<Rightarrow> usize \<Rightarrow> journal_record list" where
  "journal_after s serial limit = snd (journal_page_after s serial limit)"

definition prune_journal_batch :: "meta_store \<Rightarrow> usize \<Rightarrow> usize \<times> meta_store" where
  "prune_journal_batch s limit =
     (if limit = 0 then (0, s)
      else
        let retained = (case ms_retained_floor s of None \<Rightarrow> 1 | Some r \<Rightarrow> r);
            serials = take limit (filter (\<lambda>serial. serial < retained) (map fst (sorted_list_of_fmap (ms_journal s))))
        in if serials = [] then (0, s)
           else (length serials,
                 foldl (\<lambda>t serial. t\<lparr>ms_journal := fmdrop serial (ms_journal t),
                                    ms_journal_mutations := fmdrop serial (ms_journal_mutations t),
                                    ms_journal_blobs := fmdrop serial (ms_journal_blobs t)\<rparr>) s serials))"

definition next_serial :: "meta_store \<Rightarrow> u64 \<times> meta_store" where
  "next_serial s = (ms_serial s + 1, s\<lparr>ms_serial := ms_serial s + 1\<rparr>)"

section \<open>Revocation writers\<close>

definition journal_digest_revocation :: "(server_mutation \<Rightarrow> string) \<Rightarrow> meta_store \<Rightarrow> digest_revocation \<Rightarrow> meta_store" where
  "journal_digest_revocation encode s r =
     snd (commit_journal s [\<lparr>je_payload = encode (DigestRevocationMutation r), je_mutations = [], je_blobs = []\<rparr>])"

text \<open>Both writers apply the row and journal it in one transaction.\<close>

definition write_revocation ::
  "(server_mutation \<Rightarrow> string) \<Rightarrow> meta_store \<Rightarrow> digest_revocation \<Rightarrow> (meta_error, meta_store) result" where
  "write_revocation encode s r =
     and_then (apply_digest_revocation (ms_revocations s) r) (\<lambda>t.
       Inr (journal_digest_revocation encode (s\<lparr>ms_revocations := t\<rparr>) r))"

definition active_revocation ::
  "artifact_digest \<Rightarrow> revocation_reason \<Rightarrow> user_id \<Rightarrow> i64 \<Rightarrow> u64 \<Rightarrow> digest_revocation" where
  "active_revocation digest reason actor now revision =
     \<lparr>dr_digest = digest, dr_reason = reason, dr_created_by = actor, dr_created_at_unix = now,
      dr_state = RevActive, dr_revision = revision\<rparr>"

definition put_digest_revocation ::
  "(server_mutation \<Rightarrow> string) \<Rightarrow> meta_store \<Rightarrow> artifact_digest \<Rightarrow> revocation_reason \<Rightarrow> user_id \<Rightarrow> i64 \<Rightarrow>
   (put_revocation_error, put_revocation_outcome \<times> meta_store) result" where
  "put_digest_revocation encode s digest reason actor now =
     (let commit = (\<lambda>r outcome. and_then (map_err PutRevStore (write_revocation encode s r)) (\<lambda>s'. Inr (outcome, s'))) in
      case fmlookup (open_rows (ms_revocations s)) (canonical digest) of
        Some r \<Rightarrow>
          if dr_state r = RevActive \<and> dr_reason r = reason then Inr (RevUnchanged r, s)
          else if dr_state r = RevActive then Inl ReasonConflict
          else let reopened = active_revocation digest reason actor now (dr_revision r + 1) in commit reopened (RevReopened reopened)
      | None \<Rightarrow> let created = active_revocation digest reason actor now 1 in commit created (RevCreated created))"

definition lift_digest_revocation ::
  "(server_mutation \<Rightarrow> string) \<Rightarrow> meta_store \<Rightarrow> artifact_digest \<Rightarrow> user_id \<Rightarrow> i64 \<Rightarrow>
   (meta_error, lift_revocation_outcome option \<times> meta_store) result" where
  "lift_digest_revocation encode s digest actor now =
     (case fmlookup (open_rows (ms_revocations s)) (canonical digest) of
        None \<Rightarrow> Inr (None, s)
      | Some r \<Rightarrow>
          (case dr_state r of
             RevLifted _ _ \<Rightarrow> Inr (Some (LiftUnchanged r), s)
           | RevActive \<Rightarrow>
               let lifted = r\<lparr>dr_state := RevLifted actor now, dr_revision := dr_revision r + 1\<rparr> in
               and_then (write_revocation encode s lifted) (\<lambda>s'. Inr (Some (LiftLifted lifted), s'))))"

section \<open>The revocation set\<close>

datatype revocation_op =
  OpRevoke artifact_digest revocation_reason user_id i64
| OpLift artifact_digest user_id i64
| OpReopen

text \<open>A refused operation aborts its transaction; opening a store again rebuilds what is derived.\<close>

fun revocation_step :: "(server_mutation \<Rightarrow> string) \<Rightarrow> meta_store \<Rightarrow> revocation_op \<Rightarrow> meta_store" where
  "revocation_step encode s (OpRevoke d r a t) = (case put_digest_revocation encode s d r a t of Inl _ \<Rightarrow> s | Inr (_, s') \<Rightarrow> s')"
| "revocation_step encode s (OpLift d a t) = (case lift_digest_revocation encode s d a t of Inl _ \<Rightarrow> s | Inr (_, s') \<Rightarrow> s')"
| "revocation_step encode s OpReopen = s\<lparr>ms_revocations := backfill_digest_revocation_state (ms_revocations s)\<rparr>"

fun revoked_step :: "artifact_digest set \<Rightarrow> revocation_op \<Rightarrow> artifact_digest set" where
  "revoked_step R (OpRevoke d _ _ _) = insert d R"
| "revoked_step R (OpLift d _ _) = R - {d}"
| "revoked_step R OpReopen = R"

definition revoked_digests :: "revocation_tables \<Rightarrow> artifact_digest set" where
  "revoked_digests t = {d. \<exists>r. digest_revocation_of t d = Some r \<and> dr_state r = RevActive}"

lemma canonical_eq_iff [simp]: "canonical a = canonical b \<longleftrightarrow> a = b"
  by (simp add: canonical_def)

lemma digest_revocation_of_eq: "digest_revocation_of t d = fmlookup (open_rows t) (canonical d)"
  by (simp add: digest_revocation_of_def open_rows_def split: option.splits)

lemma active_rows_canonical: "rev_inv t \<Longrightarrow> active_rows (open_rows t) = canonical ` revoked_digests t"
  by (auto simp: active_rows_def revoked_digests_def digest_revocation_of_eq rev_inv_def rows_keyed_def active_state_iff
      image_iff)

lemma write_revocation_tables:
  assumes "write_revocation encode s r = Inr s'"
  shows "apply_digest_revocation (ms_revocations s) r = Inr (ms_revocations s')"
  using assms by (auto simp: write_revocation_def and_then_Inr_iff journal_digest_revocation_def commit_journal_def
      journal_one_def Let_def)

lemma write_revocation_succeeds:
  "apply_digest_revocation (ms_revocations s) r = Inr t \<Longrightarrow> \<exists>s'. write_revocation encode s r = Inr s'"
  by (simp add: write_revocation_def)

lemma apply_revoked:
  assumes "apply_digest_revocation t r = Inr t'"
  shows "revoked_digests t' = (if dr_state r = RevActive then insert (dr_digest r) (revoked_digests t) else revoked_digests t - {dr_digest r})"
  using apply_rows [OF assms] by (auto simp: revoked_digests_def digest_revocation_of_eq)

lemma apply_card: "apply_digest_revocation t r = Inr t' \<Longrightarrow> fcard (fmdom (open_rows t')) \<le> Suc (fcard (fmdom (open_rows t)))"
  by (drule apply_rows) (simp add: fcard_finsert_if)

definition rev_state_ok :: "nat \<Rightarrow> revocation_tables \<Rightarrow> bool" where
  "rev_state_ok n t \<longleftrightarrow> rev_inv t \<and> fcard (fmdom (open_rows t)) \<le> n"

lemma write_step:
  assumes "rev_state_ok n (ms_revocations s)" "n < 2 ^ 64 - 1" "lifts_existing (ms_revocations s) r"
  obtains s' where "write_revocation encode s r = Inr s'" "rev_state_ok (Suc n) (ms_revocations s')"
    "revoked_digests (ms_revocations s') = (if dr_state r = RevActive then insert (dr_digest r) (revoked_digests (ms_revocations s))
       else revoked_digests (ms_revocations s) - {dr_digest r})"
proof -
  have "card (active_rows (open_rows (ms_revocations s))) < 2 ^ 64 - 1"
    using card_active_rows_le [of "open_rows (ms_revocations s)"] assms(1,2) by (simp add: rev_state_ok_def)
  then obtain t where "apply_digest_revocation (ms_revocations s) r = Inr t"
    using apply_succeeds assms by (auto simp: rev_state_ok_def)
  then obtain s' where w: "write_revocation encode s r = Inr s'" using write_revocation_succeeds by blast
  note a = write_revocation_tables [OF w]
  have "rev_state_ok (Suc n) (ms_revocations s')"
    using rev_inv_apply [OF _ a assms(3)] apply_card [OF a] assms(1) by (auto simp: rev_state_ok_def)
  with that w apply_revoked [OF a] show thesis by blast
qed

lemma revoked_iff: "d \<in> revoked_digests t \<longleftrightarrow> (\<exists>r. fmlookup (open_rows t) (canonical d) = Some r \<and> dr_state r = RevActive)"
  by (simp add: revoked_digests_def digest_revocation_of_eq)

lemma revocation_step_ok:
  assumes "rev_state_ok n (ms_revocations s)" "n < 2 ^ 64 - 1"
  shows "rev_state_ok (Suc n) (ms_revocations (revocation_step encode s op)) \<and>
    revoked_digests (ms_revocations (revocation_step encode s op)) = revoked_step (revoked_digests (ms_revocations s)) op"
proof (cases op)
  case (OpRevoke d r a t)
  let ?old = "fmlookup (open_rows (ms_revocations s)) (canonical d)"
  show ?thesis
  proof (cases "\<exists>x. ?old = Some x \<and> dr_state x = RevActive")
    case True
    then have "revocation_step encode s op = s"
      using OpRevoke by (auto simp: put_digest_revocation_def Let_def)
    moreover have "d \<in> revoked_digests (ms_revocations s)" using True by (simp add: revoked_iff)
    ultimately show ?thesis using assms(1) OpRevoke by (auto simp: rev_state_ok_def insert_absorb)
  next
    case False
    define rec where "rec = active_revocation d r a t (case ?old of None \<Rightarrow> 1 | Some x \<Rightarrow> dr_revision x + 1)"
    have "lifts_existing (ms_revocations s) rec" by (simp add: rec_def active_revocation_def lifts_existing_def)
    then obtain s' where s': "write_revocation encode s rec = Inr s'" "rev_state_ok (Suc n) (ms_revocations s')"
      "revoked_digests (ms_revocations s') = insert d (revoked_digests (ms_revocations s))"
      using write_step [OF assms, of rec encode] by (auto simp: rec_def active_revocation_def)
    have "revocation_step encode s op = s'"
      using False s'(1) OpRevoke by (auto simp: put_digest_revocation_def Let_def rec_def split: option.splits)
    with s' OpRevoke show ?thesis by simp
  qed
next
  case (OpLift d a t)
  let ?old = "fmlookup (open_rows (ms_revocations s)) (canonical d)"
  show ?thesis
  proof (cases "\<exists>x. ?old = Some x \<and> dr_state x = RevActive")
    case False
    then have "revocation_step encode s op = s"
      using OpLift by (auto simp: lift_digest_revocation_def split: option.splits digest_revocation_state.splits)
    moreover have "d \<notin> revoked_digests (ms_revocations s)" using False by (simp add: revoked_iff)
    ultimately show ?thesis using assms(1) OpLift by (auto simp: rev_state_ok_def)
  next
    case True
    then obtain x where x: "?old = Some x" "dr_state x = RevActive" by blast
    define rec where "rec = x\<lparr>dr_state := RevLifted a t, dr_revision := dr_revision x + 1\<rparr>"
    have "dr_digest x = d" 
      using x assms(1) unfolding rev_state_ok_def rev_inv_def rows_keyed_def by (metis canonical_eq_iff)
    moreover from this have "lifts_existing (ms_revocations s) rec" using x by (simp add: rec_def lifts_existing_def)
    ultimately obtain s' where s': "write_revocation encode s rec = Inr s'" "rev_state_ok (Suc n) (ms_revocations s')"
      "revoked_digests (ms_revocations s') = revoked_digests (ms_revocations s) - {d}"
      using write_step [OF assms, of rec encode] by (auto simp: rec_def)
    have "revocation_step encode s op = s'"
      using x s'(1) OpLift by (simp add: lift_digest_revocation_def rec_def)
    with s' OpLift show ?thesis by simp
  qed
next
  case OpReopen
  have "rows_keyed (open_rows (ms_revocations s))" "fcard (fmdom (open_rows (ms_revocations s))) < 2 ^ 64"
    using assms by (auto simp: rev_state_ok_def rev_inv_def)
  note b = rev_inv_backfill [OF this]
  have "revoked_digests (backfill_digest_revocation_state (ms_revocations s)) = revoked_digests (ms_revocations s)"
    using b(2) by (simp add: revoked_digests_def digest_revocation_of_eq)
  with b assms(1) OpReopen show ?thesis by (simp add: rev_state_ok_def)
qed

lemma revocation_run_ok:
  assumes "rev_state_ok n (ms_revocations s)" "n + length ops < 2 ^ 64"
  shows "rev_state_ok (n + length ops) (ms_revocations (foldl (revocation_step encode) s ops)) \<and>
    revoked_digests (ms_revocations (foldl (revocation_step encode) s ops)) =
      foldl revoked_step (revoked_digests (ms_revocations s)) ops"
  using assms
proof (induction ops arbitrary: n s)
  case (Cons op ops)
  then have "n < 2 ^ 64 - 1" by simp
  note step = revocation_step_ok [OF Cons.prems(1) this, of encode op]
  then show ?case using Cons.IH [of "Suc n" "revocation_step encode s op"] Cons.prems(2) by simp
qed simp

lemma revocation_start_ok: "rev_state_ok 0 (ms_revocations meta_store_empty)"
  using rev_inv_absent
  by (simp add: rev_state_ok_def meta_store_empty_def open_rows_def revocation_tables_absent_def)

lemma revoked_start: "revoked_digests (ms_revocations meta_store_empty) = {}"
  by (simp add: revoked_digests_def digest_revocation_of_def meta_store_empty_def revocation_tables_absent_def)

text \<open>C20: After any sequence of revocations, lifts and restarts a digest is reported revoked exactly when the
  last operation on it revoked it, and the check that only reads the transactional count answers whether
  any digest is.\<close>

theorem revoked_set_correct:
  assumes "length ops < 2 ^ 64"
    and "t = ms_revocations (foldl (revocation_step encode) meta_store_empty ops)"
  shows "revoked_digests t = foldl revoked_step {} ops
    \<and> has_active_digest_revocation t = Inr (foldl revoked_step {} ops \<noteq> {})"
proof -
  have run: "rev_state_ok (length ops) t" "revoked_digests t = foldl revoked_step {} ops"
    using revocation_run_ok [OF revocation_start_ok, of ops encode] assms by (simp_all add: revoked_start)
  then have "active_rows (open_rows t) = {} \<longleftrightarrow> revoked_digests t = {}"
    using active_rows_canonical [of t] by (simp add: rev_state_ok_def)
  with run has_active_iff [of t] show ?thesis by (simp add: rev_state_ok_def)
qed

definition sample_ops :: "revocation_op list" where
  "sample_ops = [OpRevoke ''aa'' ''malware'' ''root'' 5, OpRevoke ''bb'' ''leak'' ''root'' 6, OpReopen, OpLift ''aa'' ''root'' 7]"

lemma sample_ops_length: "length sample_ops < 2 ^ 64"
  by (simp add: sample_ops_def)

lemma revoked_set_correct_witness:
  "revoked_digests (ms_revocations (foldl (revocation_step (\<lambda>_. ''x'')) meta_store_empty sample_ops)) = {''bb''}
   \<and> has_active_digest_revocation (ms_revocations (foldl (revocation_step (\<lambda>_. ''x'')) meta_store_empty sample_ops)) = Inr True"
proof -
  have "foldl revoked_step {} sample_ops = {''bb''}" by (auto simp: sample_ops_def)
  with revoked_set_correct [OF sample_ops_length refl, of "\<lambda>_. ''x''"] show ?thesis by simp
qed

text \<open>C21: A page filtered by status, which is read through the status index alone, holds exactly the rows of that
  status after the cursor in digest order, up to the limit, and names a next cursor exactly when more follow;
  an unfiltered page does the same over all rows.\<close>

theorem revocation_pages_exact:
  assumes "length ops < 2 ^ 64" "t = ms_revocations (foldl (revocation_step encode) meta_store_empty ops)"
    and "1 \<le> rq_limit query" "rq_limit query \<le> MAX_REVOCATION_LIMIT"
  shows "query_digest_revocations t query =
    (let rows = query_rows (open_rows t) query in
     Inr \<lparr>rp_revocations = take (rq_limit query) rows,
          rp_next_cursor = (if length rows > rq_limit query
            then Some (canonical (dr_digest (rows ! (rq_limit query - 1)))) else None)\<rparr>)"
proof -
  have "rev_inv t"
    using revocation_run_ok [OF revocation_start_ok, of ops encode] assms(1,2) by (simp add: rev_state_ok_def)
  then show ?thesis using query_eq assms(3,4) by blast
qed

lemma revocation_pages_exact_witness:
  "map dr_digest (case query_digest_revocations
      (ms_revocations (foldl (revocation_step (\<lambda>_. ''x'')) meta_store_empty [OpRevoke ''b'' ''x'' ''x'' 5]))
      \<lparr>rq_status = Some StatusActive, rq_cursor = None, rq_limit = 1\<rparr> of Inl _ \<Rightarrow> [] | Inr p \<Rightarrow> rp_revocations p) = [''b'']"
proof -
  let ?t = "ms_revocations (foldl (revocation_step (\<lambda>_. ''x'')) meta_store_empty [OpRevoke ''b'' ''x'' ''x'' 5])"
  let ?q = "\<lparr>rq_status = Some StatusActive, rq_cursor = None, rq_limit = 1\<rparr>"
  have rows: "map dr_digest (take 1 (query_rows (open_rows ?t) ?q)) = [''b'']" by code_simp
  have len: "length [OpRevoke ''b'' ''x'' ''x'' 5] < 2 ^ 64" by simp
  from revocation_pages_exact [OF len refl, of ?q "\<lambda>_. ''x''"] rows show ?thesis
    by (simp del: foldl.simps add: MAX_REVOCATION_LIMIT_def Let_def)
qed

section \<open>The tables hold the committed entries\<close>

definition record_at :: "journal_entry list \<Rightarrow> nat \<Rightarrow> journal_record" where
  "record_at log i = \<lparr>jr_serial = of_nat (Suc i), jr_payload = je_payload (log ! i),
     jr_mutations = je_mutations (log ! i), jr_blobs = je_blobs (log ! i)\<rparr>"

definition retained_from :: "meta_store \<Rightarrow> u64" where
  "retained_from s = (case ms_retained_floor s of None \<Rightarrow> 1 | Some r \<Rightarrow> r)"

text \<open>The entries committed so far are \<open>log\<close>, the entry of serial \<open>n\<close> at position \<open>n - 1\<close>; what is at or above the
  retained floor is still there, and every row that is there is the row of its entry.\<close>

definition journal_matches :: "journal_entry list \<Rightarrow> meta_store \<Rightarrow> bool" where
  "journal_matches log s \<longleftrightarrow>
     length log < 2 ^ 64 \<and> ms_serial s = of_nat (length log) \<and>
     (\<forall>i. i < length log \<longrightarrow> unat (retained_from s) \<le> Suc i \<longrightarrow> fmlookup (ms_journal s) (of_nat (Suc i)) \<noteq> None) \<and>
     (\<forall>n p. fmlookup (ms_journal s) n = Some p \<longrightarrow> (\<exists>i < length log. journal_record_of s (n, p) = record_at log i)) \<and>
     (\<forall>n. fmlookup (ms_journal_mutations s) n \<noteq> None \<or> fmlookup (ms_journal_blobs s) n \<noteq> None \<longrightarrow> unat n \<le> length log)"

definition same_journal :: "meta_store \<Rightarrow> meta_store \<Rightarrow> bool" where
  "same_journal s s' \<longleftrightarrow> ms_serial s' = ms_serial s \<and> ms_journal s' = ms_journal s
     \<and> ms_journal_mutations s' = ms_journal_mutations s \<and> ms_journal_blobs s' = ms_journal_blobs s
     \<and> ms_retained_floor s' = ms_retained_floor s"

lemma same_journal_refl [simp]: "same_journal s s"
  by (simp add: same_journal_def)

lemma same_journal_trans: "same_journal a b \<Longrightarrow> same_journal b c \<Longrightarrow> same_journal a c"
  by (simp add: same_journal_def)

lemma journal_matches_same: "same_journal s s' \<Longrightarrow> journal_matches log s \<Longrightarrow> journal_matches log s'"
  by (simp add: same_journal_def journal_matches_def journal_record_of_def retained_from_def)

lemma of_nat_Suc_u64: "Suc n < 2 ^ 64 \<Longrightarrow> unat (of_nat (Suc n) :: u64) = Suc n"
  by (rule unat_u64_of_nat)

lemma record_at_append: "i < length log \<Longrightarrow> record_at (log @ es) i = record_at log i"
  by (simp add: record_at_def nth_append)

lemma record_at_last: "record_at (log @ [e]) (length log) =
  \<lparr>jr_serial = of_nat (Suc (length log)), jr_payload = je_payload e, jr_mutations = je_mutations e, jr_blobs = je_blobs e\<rparr>"
  by (simp add: record_at_def nth_append)

lemma journal_one_matches:
  assumes "journal_matches log s" "Suc (length log) < 2 ^ 64"
  shows "journal_matches (log @ [e]) (journal_one s e)"
proof -
  let ?n = "of_nat (Suc (length log)) :: u64" and ?s = "journal_one s e"
  note m = assms(1) [unfolded journal_matches_def]
  have serial: "ms_serial s + 1 = ?n" using m by simp
  have n: "unat ?n = Suc (length log)" using assms(2) by (rule unat_u64_of_nat)
  have fields: "ms_serial ?s = ?n" "ms_journal ?s = fmupd ?n (je_payload e) (ms_journal s)"
    "ms_retained_floor ?s = ms_retained_floor s"
    "ms_journal_mutations ?s = (if je_mutations e = [] then ms_journal_mutations s else fmupd ?n (je_mutations e) (ms_journal_mutations s))"
    "ms_journal_blobs ?s = (if je_blobs e = [] then ms_journal_blobs s else fmupd ?n (je_blobs e) (ms_journal_blobs s))"
    using serial by (simp_all add: journal_one_def Let_def del: of_nat_Suc)
  have fresh: "fmlookup (ms_journal_mutations s) ?n = None" "fmlookup (ms_journal_blobs s) ?n = None"
    using m n by (metis Suc_n_not_le_n)+
  have last: "journal_record_of ?s (?n, je_payload e) = record_at (log @ [e]) (length log)"
    using fresh by (simp add: journal_record_of_def record_at_last rows_or_empty_def fields)
  have old: "journal_record_of ?s (k, p) = journal_record_of s (k, p)" if "k \<noteq> ?n" for k p
    using that by (simp add: journal_record_of_def rows_or_empty_def fields)
  have rows: "\<exists>i < Suc (length log). journal_record_of ?s (k, p) = record_at (log @ [e]) i"
    if "fmlookup (ms_journal ?s) k = Some p" for k p
  proof (cases "k = ?n")
    case True
    then have "p = je_payload e" using that by (simp add: fields)
    with True last show ?thesis by blast
  next
    case False
    then have "fmlookup (ms_journal s) k = Some p" using that by (simp add: fields del: of_nat_Suc)
    with m obtain i where "i < length log" "journal_record_of s (k, p) = record_at log i" by blast
    then show ?thesis using old [OF False] record_at_append [of i log "[e]"] less_Suc_eq by metis
  qed
  have present: "fmlookup (ms_journal ?s) (of_nat (Suc i)) \<noteq> None"
    if "i < Suc (length log)" "unat (retained_from ?s) \<le> Suc i" for i
    using that m by (cases "i = length log") (auto simp: fields retained_from_def)
  have bound: "unat k \<le> Suc (length log)"
    if "fmlookup (ms_journal_mutations ?s) k \<noteq> None \<or> fmlookup (ms_journal_blobs ?s) k \<noteq> None" for k
  proof (cases "k = ?n")
    case False
    then have "fmlookup (ms_journal_mutations s) k \<noteq> None \<or> fmlookup (ms_journal_blobs s) k \<noteq> None"
      using that by (auto simp: fields split: if_splits)
    then show ?thesis using m by (meson le_SucI)
  qed (simp only: n)
  show ?thesis
    unfolding journal_matches_def
    using assms(2) rows present bound fields(1) by simp
qed

lemma commit_journal_matches:
  assumes "journal_matches log s" "length log + length js < 2 ^ 64"
  shows "journal_matches (log @ js) (snd (commit_journal s js))"
proof -
  have "journal_matches (log @ js) (foldl journal_one s js)"
    using assms
  proof (induction js arbitrary: log s)
    case (Cons j js)
    then show ?case using journal_one_matches [of log s j] Cons.IH [of "log @ [j]" "journal_one s j"] by simp
  qed simp
  then show ?thesis by (auto simp: commit_journal_def Let_def)
qed

lemma journal_key_is_position:
  assumes "journal_matches log s" "fmlookup (ms_journal s) n = Some p"
  obtains i where "i < length log" "n = of_nat (Suc i)" "unat n = Suc i" "p = je_payload (log ! i)"
proof -
  from assms obtain i where i: "i < length log" "journal_record_of s (n, p) = record_at log i"
    unfolding journal_matches_def by blast
  have "length log < 2 ^ 64" using assms(1) by (simp add: journal_matches_def)
  then have "unat (of_nat (Suc i) :: u64) = Suc i" using i(1) by (intro unat_u64_of_nat) simp
  with i that show thesis by (auto simp: journal_record_of_def record_at_def)
qed

text \<open>Reading on from a cursor the journal still covers yields exactly the entries after it.\<close>

lemma journal_rows_after:
  assumes "journal_matches log s" "unat (retained_from s) \<le> Suc (unat a)"
  shows "rows_after (Some a) (ms_journal s) = map (\<lambda>i. (of_nat (Suc i), je_payload (log ! i))) [unat a ..< length log]"
    (is "?L = ?R")
proof -
  have len: "length log < 2 ^ 64" using assms(1) by (simp add: journal_matches_def)
  have pos: "unat (of_nat (Suc i) :: u64) = Suc i" if "i < length log" for i
    using that len by (intro unat_u64_of_nat) simp
  have "map fst ?R = map (\<lambda>i. of_nat (Suc i)) [unat a ..< length log]" by simp
  have sortedR: "sorted_wrt (<) (map fst ?R)"
    unfolding sorted_wrt_iff_nth_less using pos by (auto simp del: of_nat_Suc simp: word_less_nat_alt)
  have keys: "set (map fst ?L) = set (map fst ?R)"
  proof (intro set_eqI iffI)
    fix n assume "n \<in> set (map fst ?L)"
    then obtain p where p: "fmlookup (ms_journal s) n = Some p" "a < n"
      by (auto simp: rows_after_def)
    from journal_key_is_position [OF assms(1) p(1)] obtain i where "i < length log" "n = of_nat (Suc i)" "unat n = Suc i" by blast
    with p(2) show "n \<in> set (map fst ?R)" by (auto simp: word_less_nat_alt)
  next
    fix n assume "n \<in> set (map fst ?R)"
    then obtain i where i: "unat a \<le> i" "i < length log" "n = of_nat (Suc i)" by auto
    then have "fmlookup (ms_journal s) n \<noteq> None" using assms unfolding journal_matches_def by (simp del: of_nat_Suc)
    moreover have "a < n" using i pos [OF i(2)] by (simp add: word_less_nat_alt del: of_nat_Suc)
    ultimately show "n \<in> set (map fst ?L)" by (force simp: rows_after_def)
  qed
  have "map fst ?L = map fst ?R"
    by (rule strict_sorted_equal [OF sortedR rows_after_sorted keys])
  moreover have "x = (fst x, je_payload (log ! (unat (fst x) - 1)))" if "x \<in> set ?L" for x
  proof -
    obtain n p where x: "x = (n, p)" by force
    then have "fmlookup (ms_journal s) n = Some p" using that by (auto simp: rows_after_def)
    from journal_key_is_position [OF assms(1) this] show ?thesis using x by (metis diff_Suc_1 fst_conv)
  qed
  then have "?L = map (\<lambda>n. (n, je_payload (log ! (unat n - 1)))) (map fst ?L)"
    by (simp add: map_idI)
  ultimately show ?thesis using pos by (simp del: of_nat_Suc)
qed

lemma journal_records_after:
  assumes "journal_matches log s" "unat (retained_from s) \<le> Suc (unat a)"
  shows "map (journal_record_of s) (rows_after (Some a) (ms_journal s)) = map (record_at log) [unat a ..< length log]"
proof -
  have len: "length log < 2 ^ 64" using assms(1) by (simp add: journal_matches_def)
  have "journal_record_of s (of_nat (Suc i), je_payload (log ! i)) = record_at log i"
    if "i \<in> set [unat a ..< length log]" for i
  proof -
    have i: "unat a \<le> i" "i < length log" using that by auto
    then have "fmlookup (ms_journal s) (of_nat (Suc i)) \<noteq> None"
      using assms unfolding journal_matches_def by (simp del: of_nat_Suc)
    then obtain p where "fmlookup (ms_journal s) (of_nat (Suc i)) = Some p" by blast
    then obtain j where j: "j < length log" "journal_record_of s (of_nat (Suc i), p) = record_at log j"
      using assms(1) unfolding journal_matches_def by blast
    have "(of_nat (Suc i) :: u64) = of_nat (Suc j)" using j(2) by (simp add: journal_record_of_def record_at_def)
    then have "Suc i = Suc j" using i(2) j(1) len by (metis Suc_leI le_less_trans unat_u64_of_nat)
    with j(2) show ?thesis by (simp add: journal_record_of_def record_at_def)
  qed
  then show ?thesis unfolding journal_rows_after [OF assms] by simp
qed

lemma prune_matches:
  assumes "journal_matches log s"
  shows "journal_matches log (snd (prune_journal_batch s limit))"
proof -
  let ?drop = "\<lambda>t serial. t\<lparr>ms_journal := fmdrop serial (ms_journal t),
    ms_journal_mutations := fmdrop serial (ms_journal_mutations t), ms_journal_blobs := fmdrop serial (ms_journal_blobs t)\<rparr>"
  have one: "journal_matches log (?drop t n)" if "journal_matches log t" "n < retained_from t" for t n
  proof -
    have "of_nat (Suc i) \<noteq> n" if "i < length log" "unat (retained_from t) \<le> Suc i" for i
    proof -
      have "unat (of_nat (Suc i) :: u64) = Suc i"
        using that(1) \<open>journal_matches log t\<close> by (intro unat_u64_of_nat) (simp add: journal_matches_def)
      then show ?thesis using that(2) \<open>n < retained_from t\<close> by (metis leD word_less_nat_alt)
    qed
    moreover have "journal_record_of (?drop t n) (k, p) = journal_record_of t (k, p)" if "k \<noteq> n" for k p
      using that by (simp add: journal_record_of_def rows_or_empty_def)
    moreover have "retained_from (?drop t n) = retained_from t" by (simp add: retained_from_def)
    ultimately show ?thesis using that(1) unfolding journal_matches_def by (auto split: if_splits)
  qed
  have folded: "journal_matches log (foldl ?drop t ns)" if "journal_matches log t" "\<forall>n \<in> set ns. n < retained_from t" for t ns
    using that
  proof (induction ns arbitrary: t)
    case (Cons n ns)
    moreover have "retained_from (?drop t n) = retained_from t" by (simp add: retained_from_def)
    ultimately show ?case using one [of t n] by simp
  qed simp
  have taken: "\<forall>n \<in> set (take limit (filter P ns)). P n" for P :: "u64 \<Rightarrow> bool" and ns
    using set_take_subset [of limit "filter P ns"] by auto
  have "journal_matches log (foldl ?drop s
      (take limit (filter (\<lambda>n. n < retained_from s) (map fst (sorted_list_of_fmap (ms_journal s))))))"
    by (rule folded [OF assms taken])
  then show ?thesis using assms by (simp add: prune_journal_batch_def Let_def retained_from_def)
qed

end
