(* ===== verification/Checkpoint_Codec.thy ===== *)
theory Checkpoint_Codec
  imports Journal "HOL-Library.Countable"
begin

text \<open>
  The canonical checkpoint encoding: the writer's side of \<open>peryx-storage/src/meta/checkpoint.rs\<close>
  (\<open>CheckpointState::canonical\<close>), the chunked writer and the incremental decoder of
  \<open>meta/checkpoint_transfer.rs\<close>, and the cursor tokens. Bytes are characters. The record encoding of
  \<open>serde_json\<close> and the \<open>hex\<close> crate are the fields of \<open>codecs\<close>; the laws used of them are \<open>codec_laws\<close>.
\<close>

section \<open>Bytes\<close>

text \<open>\<open>u64::to_le_bytes\<close> and \<open>u64::from_le_bytes\<close>.\<close>

fun le_bytes :: "nat \<Rightarrow> int \<Rightarrow> string" where
  "le_bytes 0 x = []"
| "le_bytes (Suc n) x = char_of (x mod 256) # le_bytes n (x div 256)"

definition to_le_bytes :: "u64 \<Rightarrow> string" where
  "to_le_bytes w = le_bytes 8 (uint w)"

definition from_le :: "string \<Rightarrow> int" where
  "from_le bs = foldr (\<lambda>c n. of_char c + 256 * n) bs 0"

definition from_le_bytes :: "string \<Rightarrow> u64" where
  "from_le_bytes bs = of_int (from_le bs)"

text \<open>Well-formed UTF-8, as \<open>String::from_utf8\<close> accepts it.\<close>

definition is_continuation :: "char \<Rightarrow> bool" where
  "is_continuation c \<longleftrightarrow> CHR 0x80 \<le> c \<and> c \<le> CHR 0xBF"

fun valid_utf8 :: "string \<Rightarrow> bool" where
  "valid_utf8 [] = True"
| "valid_utf8 (a # r) =
     (if a \<le> CHR 0x7F then valid_utf8 r
      else case r of
        [] \<Rightarrow> False
      | b # r1 \<Rightarrow>
          if CHR 0xC2 \<le> a \<and> a \<le> CHR 0xDF then is_continuation b \<and> valid_utf8 r1
          else case r1 of
            [] \<Rightarrow> False
          | c # r2 \<Rightarrow>
              if CHR 0xE0 \<le> a \<and> a \<le> CHR 0xEF
              then is_continuation b \<and> (a = CHR 0xE0 \<longrightarrow> CHR 0xA0 \<le> b) \<and> (a = CHR 0xED \<longrightarrow> b \<le> CHR 0x9F)
                   \<and> is_continuation c \<and> valid_utf8 r2
              else case r2 of
                [] \<Rightarrow> False
              | d # r3 \<Rightarrow>
                  CHR 0xF0 \<le> a \<and> a \<le> CHR 0xF4 \<and> is_continuation b \<and> (a = CHR 0xF0 \<longrightarrow> CHR 0x90 \<le> b)
                  \<and> (a = CHR 0xF4 \<longrightarrow> b \<le> CHR 0x8F) \<and> is_continuation c \<and> is_continuation d \<and> valid_utf8 r3)"

section \<open>External codecs\<close>

record codecs =
  enc_revocation :: "digest_revocation \<Rightarrow> string"
  dec_revocation :: "string \<Rightarrow> digest_revocation option"
  enc_server :: "server_mutation \<Rightarrow> string"
  dec_server :: "string \<Rightarrow> (meta_error, server_mutation option) result"
  hex_encode :: "string \<Rightarrow> string"
  hex_decode :: "string \<Rightarrow> string option"
  sha256_hex :: "string \<Rightarrow> string"

definition codec_laws :: "codecs \<Rightarrow> bool" where
  "codec_laws c \<longleftrightarrow> (\<forall>r. dec_revocation c (enc_revocation c r) = Some r)
     \<and> (\<forall>m. dec_server c (enc_server c m) = Inr (Some m))
     \<and> (\<forall>s. hex_decode c (hex_encode c s) = Some s)"

section \<open>The canonical encoding\<close>

record checkpoint_state =
  cs_rows :: "(string, string) fmap"
  cs_revocations :: "(string, digest_revocation) fmap"
  cs_blobs :: "driver_blob_reference fset"

definition checkpoint_state_default :: checkpoint_state where
  "checkpoint_state_default = \<lparr>cs_rows = fmempty, cs_revocations = fmempty, cs_blobs = {||}\<rparr>"

definition push_bytes :: "string \<Rightarrow> string \<Rightarrow> string" where
  "push_bytes encoded bytes = encoded @ to_le_bytes (of_nat (length bytes)) @ bytes"

definition push_field :: "string \<Rightarrow> char \<Rightarrow> string \<Rightarrow> string" where
  "push_field encoded tag key = push_bytes (encoded @ [tag]) key"

definition ROW_TAG :: char where
  "ROW_TAG = CHR ''r''"

definition REVOCATION_TAG :: char where
  "REVOCATION_TAG = CHR ''v''"

definition BLOB_TAG :: char where
  "BLOB_TAG = CHR ''b''"

definition push_row :: "string \<Rightarrow> string \<times> string \<Rightarrow> string" where
  "push_row encoded row = push_bytes (push_field encoded ROW_TAG (fst row)) (snd row)"

definition push_revocation :: "codecs \<Rightarrow> string \<Rightarrow> string \<times> digest_revocation \<Rightarrow> string" where
  "push_revocation c encoded row = push_bytes (push_field encoded REVOCATION_TAG (fst row)) (enc_revocation c (snd row))"

definition push_blob :: "string \<Rightarrow> string \<times> u64 \<Rightarrow> string" where
  "push_blob encoded blob = push_field encoded BLOB_TAG (fst blob) @ to_le_bytes (snd blob)"

definition blob_rows :: "driver_blob_reference fset \<Rightarrow> (string \<times> u64) list" where
  "blob_rows blobs = map (\<lambda>b. (br_sha256 b, br_size b)) (sorted_list_of_fset blobs)"

definition cs_canonical :: "codecs \<Rightarrow> checkpoint_state \<Rightarrow> string" where
  "cs_canonical c st =
     foldl push_blob
       (foldl (push_revocation c)
         (foldl push_row [] (sorted_list_of_fmap (cs_rows st)))
         (sorted_list_of_fmap (cs_revocations st)))
       (blob_rows (cs_blobs st))"

section \<open>Chunks\<close>

datatype checkpoint_cursor =
  CurRows "string option" | CurRevocations "string option" | CurBlobs "string option" | CurDone

definition cursor_start :: checkpoint_cursor where
  "cursor_start = CurRows None"

record checkpoint_chunk =
  cc_bytes :: string
  cc_next :: checkpoint_cursor

text \<open>The loop every section runs: push an entry, stop at its key once the window is full.\<close>

fun section_loop :: "(string \<Rightarrow> string \<times> 'v \<Rightarrow> string) \<Rightarrow> usize \<Rightarrow> (string \<times> 'v) list \<Rightarrow> string \<Rightarrow> string \<times> string option" where
  "section_loop push budget [] bytes = (bytes, None)"
| "section_loop push budget (entry # entries) bytes =
     (let bytes' = push bytes entry in
      if length bytes' \<ge> budget then (bytes', Some (fst entry)) else section_loop push budget entries bytes')"

definition chunk_blobs :: "checkpoint_tables \<Rightarrow> usize \<Rightarrow> string option \<Rightarrow> string \<Rightarrow> checkpoint_chunk" where
  "chunk_blobs t budget after bytes =
     (case section_loop push_blob budget (rows_after after (ct_blobs t)) bytes of (bytes', stopped) \<Rightarrow>
        \<lparr>cc_bytes = bytes', cc_next = (case stopped of None \<Rightarrow> CurDone | Some k \<Rightarrow> CurBlobs (Some k))\<rparr>)"

definition chunk_revocations :: "codecs \<Rightarrow> checkpoint_tables \<Rightarrow> usize \<Rightarrow> string option \<Rightarrow> string \<Rightarrow> checkpoint_chunk" where
  "chunk_revocations c t budget after bytes =
     (case section_loop (push_revocation c) budget (rows_after after (ct_revocations t)) bytes of (bytes', stopped) \<Rightarrow>
        (case stopped of
           Some k \<Rightarrow> \<lparr>cc_bytes = bytes', cc_next = CurRevocations (Some k)\<rparr>
         | None \<Rightarrow> chunk_blobs t budget None bytes'))"

definition chunk_rows :: "codecs \<Rightarrow> checkpoint_tables \<Rightarrow> usize \<Rightarrow> string option \<Rightarrow> string \<Rightarrow> checkpoint_chunk" where
  "chunk_rows c t budget after bytes =
     (case section_loop push_row budget (rows_after after (ct_rows t)) bytes of (bytes', stopped) \<Rightarrow>
        (case stopped of
           Some k \<Rightarrow> \<lparr>cc_bytes = bytes', cc_next = CurRows (Some k)\<rparr>
         | None \<Rightarrow> chunk_revocations c t budget None bytes'))"

fun checkpoint_chunk_at :: "codecs \<Rightarrow> checkpoint_tables \<Rightarrow> checkpoint_cursor \<Rightarrow> usize \<Rightarrow> checkpoint_chunk" where
  "checkpoint_chunk_at c t (CurRows after) budget = chunk_rows c t budget after []"
| "checkpoint_chunk_at c t (CurRevocations after) budget = chunk_revocations c t budget after []"
| "checkpoint_chunk_at c t (CurBlobs after) budget = chunk_blobs t budget after []"
| "checkpoint_chunk_at c t CurDone budget = \<lparr>cc_bytes = [], cc_next = CurDone\<rparr>"

section \<open>The incremental decoder\<close>

datatype checkpoint_verify_error =
  CheckpointTruncated string u64 u64
| CheckpointDigest string string

datatype checkpoint_install_error =
  NotStaged
| Incomplete u64 u64
| InstallVerify checkpoint_verify_error
| Malformed u64
| InstallStore meta_error

record canonical_decoder =
  cd_buffer :: string
  cd_consumed :: u64
  cd_hashed :: string
  cd_state :: checkpoint_state

definition canonical_decoder_default :: canonical_decoder where
  "canonical_decoder_default = \<lparr>cd_buffer = [], cd_consumed = 0, cd_hashed = [], cd_state = checkpoint_state_default\<rparr>"

text \<open>\<open>split_first_chunk::<8>\<close>, and one length-prefixed field.\<close>

definition split8 :: "string \<Rightarrow> (string \<times> string) option" where
  "split8 bytes = (if length bytes < 8 then None else Some (take 8 bytes, drop 8 bytes))"

definition take_field :: "string \<Rightarrow> (string \<times> string) option" where
  "take_field bytes =
     (case split8 bytes of
        None \<Rightarrow> None
      | Some (len, rest) \<Rightarrow>
          let n = nat (from_le len) in
          if length rest \<ge> n then Some (take n rest, drop n rest) else None)"

definition malformed :: "canonical_decoder \<Rightarrow> checkpoint_install_error" where
  "malformed d = Malformed (cd_consumed d)"

text \<open>The part of an entry after its key: \<open>None\<close> for an unknown tag, \<open>Some None\<close> while bytes are missing.\<close>

definition take_value :: "char \<Rightarrow> string \<Rightarrow> (string \<times> string) option option" where
  "take_value tag rest =
     (if tag = ROW_TAG \<or> tag = REVOCATION_TAG then Some (take_field rest)
      else if tag = BLOB_TAG then Some (split8 rest)
      else None)"

definition keep_entry :: "codecs \<Rightarrow> char \<Rightarrow> string \<Rightarrow> string \<Rightarrow> checkpoint_state \<Rightarrow> checkpoint_state option" where
  "keep_entry c tag key v st =
     (if tag = ROW_TAG then Some (st\<lparr>cs_rows := fmupd key v (cs_rows st)\<rparr>)
      else if tag = REVOCATION_TAG
        then map_option (\<lambda>r. st\<lparr>cs_revocations := fmupd key r (cs_revocations st)\<rparr>) (dec_revocation c v)
      else Some (st\<lparr>cs_blobs := finsert (DriverBlobReference key (from_le_bytes v)) (cs_blobs st)\<rparr>))"

definition take_entry :: "codecs \<Rightarrow> canonical_decoder \<Rightarrow> (checkpoint_install_error, canonical_decoder \<times> bool) result" where
  "take_entry c d =
     (case cd_buffer d of
        [] \<Rightarrow> Inr (d, False)
      | tag # rest \<Rightarrow>
          (case take_field rest of
             None \<Rightarrow> Inr (d, False)
           | Some (key, rest1) \<Rightarrow>
               (case take_value tag rest1 of
                  None \<Rightarrow> Inl (malformed d)
                | Some None \<Rightarrow> Inr (d, False)
                | Some (Some (v, rest2)) \<Rightarrow>
                    if \<not> valid_utf8 key then Inl (malformed d)
                    else (case keep_entry c tag key v (cd_state d) of
                            None \<Rightarrow> Inl (malformed d)
                          | Some st \<Rightarrow>
                              Inr (d\<lparr>cd_state := st, cd_consumed := cd_consumed d + of_nat (length (cd_buffer d) - length rest2),
                                    cd_buffer := rest2\<rparr>, True)))))"

lemma split8_shorter: "split8 bs = Some (a, rest) \<Longrightarrow> length rest \<le> length bs"
  by (auto simp: split8_def split: if_splits)

lemma take_field_shorter: "take_field bs = Some (a, rest) \<Longrightarrow> length rest \<le> length bs"
  by (auto simp: take_field_def Let_def dest!: split8_shorter split: option.splits if_splits)

lemma take_value_shorter: "take_value tag bs = Some (Some (a, rest)) \<Longrightarrow> length rest \<le> length bs"
  by (auto simp: take_value_def dest: split8_shorter take_field_shorter split: if_splits)

lemma take_entry_shorter:
  "take_entry c d = Inr (d', True) \<Longrightarrow> length (cd_buffer d') < length (cd_buffer d)"
  by (fastforce simp: take_entry_def dest!: take_field_shorter take_value_shorter
      split: list.splits option.splits prod.splits if_splits)

function drain_entries :: "codecs \<Rightarrow> canonical_decoder \<Rightarrow> (checkpoint_install_error, canonical_decoder) result" where
  "drain_entries c d =
     (case take_entry c d of
        Inl e \<Rightarrow> Inl e
      | Inr (d', again) \<Rightarrow> if again then drain_entries c d' else Inr d')"
  by auto
termination
  by (relation "measure (\<lambda>(_, d). length (cd_buffer d))") (auto dest: take_entry_shorter)

declare drain_entries.simps [simp del]

definition decoder_push :: "codecs \<Rightarrow> canonical_decoder \<Rightarrow> string \<Rightarrow> (checkpoint_install_error, canonical_decoder) result" where
  "decoder_push c d bytes = drain_entries c (d\<lparr>cd_hashed := cd_hashed d @ bytes, cd_buffer := cd_buffer d @ bytes\<rparr>)"

record decoded_checkpoint =
  dc_state :: checkpoint_state
  dc_digest :: string

definition decoder_finish :: "codecs \<Rightarrow> canonical_decoder \<Rightarrow> (checkpoint_install_error, decoded_checkpoint) result" where
  "decoder_finish c d =
     (if cd_buffer d \<noteq> [] then Inl (Malformed (cd_consumed d))
      else Inr \<lparr>dc_state = cd_state d, dc_digest = sha256_hex c (cd_hashed d)\<rparr>)"

definition decode_pieces :: "codecs \<Rightarrow> string list \<Rightarrow> (checkpoint_install_error, decoded_checkpoint) result" where
  "decode_pieces c pieces = and_then (try_fold (decoder_push c) canonical_decoder_default pieces) (decoder_finish c)"

section \<open>Fields\<close>

lemma length_le_bytes [simp]: "length (le_bytes n x) = n"
  by (induction n arbitrary: x) auto

lemma length_to_le_bytes [simp]: "length (to_le_bytes w) = 8"
  by (simp add: to_le_bytes_def)

lemma from_le_bytes_le: "from_le (le_bytes n x) = x mod 256 ^ n"
proof (induction n arbitrary: x)
  case (Suc n)
  have "(of_char (char_of (x mod 256)) :: int) = x mod 256" by (simp add: of_char_mod_256)
  then show ?case using Suc [of "x div 256"] by (simp add: from_le_def zmod_zmult2_eq)
qed (simp add: from_le_def)

lemma from_le_to_le: "from_le (to_le_bytes w) = uint w"
proof -
  have "uint w < 256 ^ 8" using uint_bounded [of w] by simp
  then show ?thesis by (simp add: to_le_bytes_def from_le_bytes_le)
qed

lemma from_to_le_bytes [simp]: "from_le_bytes (to_le_bytes w) = w"
  by (simp add: from_le_bytes_def from_le_to_le)

lemma split8_le [simp]: "split8 (to_le_bytes w @ rest) = Some (to_le_bytes w, rest)"
  by (simp add: split8_def)

lemma take_field_pushed:
  assumes "length bytes < 2 ^ 64"
  shows "take_field (to_le_bytes (of_nat (length bytes)) @ bytes @ rest) = Some (bytes, rest)"
proof -
  have "nat (from_le (to_le_bytes (of_nat (length bytes)))) = length bytes"
    using assms by (simp add: from_le_to_le uint_nat unat_u64_of_nat)
  then show ?thesis by (simp add: take_field_def)
qed

section \<open>Pieces\<close>

definition decoder_extend :: "canonical_decoder \<Rightarrow> string \<Rightarrow> canonical_decoder" where
  "decoder_extend d x = d\<lparr>cd_hashed := cd_hashed d @ x, cd_buffer := cd_buffer d @ x\<rparr>"

lemma split8_extend: "split8 bs = Some (a, rest) \<Longrightarrow> split8 (bs @ x) = Some (a, rest @ x)"
  by (auto simp: split8_def split: if_splits)

lemma take_field_extend:
  assumes "take_field bs = Some (a, rest)"
  shows "take_field (bs @ x) = Some (a, rest @ x)"
proof -
  from assms obtain len r where r: "split8 bs = Some (len, r)" "nat (from_le len) \<le> length r"
    "a = take (nat (from_le len)) r" "rest = drop (nat (from_le len)) r"
    by (auto simp: take_field_def Let_def split: option.splits if_splits)
  then show ?thesis by (simp add: take_field_def Let_def split8_extend [OF r(1)])
qed

lemma take_value_extend:
  "take_value tag bs = Some (Some (a, rest)) \<Longrightarrow> take_value tag (bs @ x) = Some (Some (a, rest @ x))"
  "take_value tag bs = None \<Longrightarrow> take_value tag (bs @ x) = None"
  by (auto simp: take_value_def dest: split8_extend take_field_extend split: if_splits)

lemma take_entry_waits: "take_entry c d = Inr (d', False) \<Longrightarrow> d' = d"
  by (auto simp: take_entry_def split: list.splits option.splits if_splits)

lemma take_entry_complete:
  assumes "cd_buffer d = tag # rest" "take_field rest = Some (key, rest1)" "take_value tag rest1 = Some (Some (v, rest2))"
  shows "take_entry c d =
    (if \<not> valid_utf8 key then Inl (malformed d)
     else case keep_entry c tag key v (cd_state d) of
       None \<Rightarrow> Inl (malformed d)
     | Some st \<Rightarrow> Inr (d\<lparr>cd_state := st, cd_consumed := cd_consumed d + of_nat (length (cd_buffer d) - length rest2),
         cd_buffer := rest2\<rparr>, True))"
  using assms by (simp add: take_entry_def)

text \<open>An entry that was complete, or wrong, stays so when more bytes arrive.\<close>

lemma take_entry_extend:
  assumes "take_entry c d = Inl e \<or> take_entry c d = Inr (d', True)"
  shows "take_entry c (decoder_extend d x) = (if take_entry c d = Inl e then Inl e else Inr (decoder_extend d' x, True))"
proof (cases "cd_buffer d")
  case (Cons tag rest)
  then obtain key rest1 where f: "take_field rest = Some (key, rest1)"
    using assms by (auto simp: take_entry_def split: option.splits)
  note f' = take_field_extend [OF f, of x]
  show ?thesis
  proof (cases "take_value tag rest1")
    case None
    then show ?thesis using assms Cons f f' take_value_extend(2) [OF None, of x]
      by (auto simp: take_entry_def decoder_extend_def malformed_def)
  next
    case (Some ov)
    then obtain v rest2 where v: "take_value tag rest1 = Some (Some (v, rest2))"
      using assms Cons f by (cases ov) (auto simp: take_entry_def)
    have "cd_buffer (decoder_extend d x) = tag # rest @ x" by (simp add: decoder_extend_def Cons)
    note ext = take_entry_complete [OF this f' take_value_extend(1) [OF v], of c]
    show ?thesis using assms Cons take_entry_complete [OF Cons f v, of c] ext
      by (cases "keep_entry c tag key v (cd_state d)") (auto simp: decoder_extend_def malformed_def split: if_splits)
  qed
qed (use assms in \<open>simp add: take_entry_def\<close>)

lemma drain_extend:
  "drain_entries c (decoder_extend d x) = and_then (drain_entries c d) (\<lambda>d1. drain_entries c (decoder_extend d1 x))"
proof (induction c d rule: drain_entries.induct)
  case (1 c d)
  show ?case
  proof (cases "take_entry c d")
    case (Inl e)
    then show ?thesis using take_entry_extend [of c d e _ x] drain_entries.simps [of c d] drain_entries.simps [of c "decoder_extend d x"]
      by simp
  next
    case (Inr r)
    obtain d' b where r: "r = (d', b)" by force
    show ?thesis
    proof (cases b)
      case True
      then have "take_entry c (decoder_extend d x) = Inr (decoder_extend d' x, True)"
        using Inr r take_entry_extend [of c d _ d' x] by auto
      then show ?thesis using Inr r True 1 [OF Inr r [symmetric]]
        by (simp add: drain_entries.simps [of c d] drain_entries.simps [of c "decoder_extend d x"])
    next
      case False
      then show ?thesis using Inr r take_entry_waits [of c d d'] by (simp add: drain_entries.simps [of c d])
    qed
  qed
qed

lemma drain_drained: "drain_entries c d = Inr d' \<Longrightarrow> drain_entries c d' = Inr d'"
proof (induction c d rule: drain_entries.induct)
  case (1 c d)
  show ?case
  proof (cases "take_entry c d")
    case (Inr r)
    obtain d1 b where r: "r = (d1, b)" by force
    show ?thesis
    proof (cases b)
      case True
      then show ?thesis using 1(1) [OF Inr r [symmetric]] Inr r 1(2) by (simp add: drain_entries.simps [of c d])
    next
      case False
      then show ?thesis using 1(2) Inr r take_entry_waits [of c d d1] by (simp add: drain_entries.simps [of c d])
    qed
  qed (use 1(2) in \<open>simp add: drain_entries.simps [of c d]\<close>)
qed

lemma decoder_extend_extend: "decoder_extend (decoder_extend d x) y = decoder_extend d (x @ y)"
  by (simp add: decoder_extend_def)

lemma push_pieces:
  assumes "drain_entries c d = Inr d"
  shows "try_fold (decoder_push c) d pieces = drain_entries c (decoder_extend d (concat pieces))"
  using assms
proof (induction pieces arbitrary: d)
  case Nil
  then show ?case by (simp add: decoder_extend_def)
next
  case (Cons p ps)
  have push: "decoder_push c d p = drain_entries c (decoder_extend d p)" by (simp add: decoder_push_def decoder_extend_def)
  show ?case
  proof (cases "drain_entries c (decoder_extend d p)")
    case (Inl e)
    then show ?thesis using push drain_extend [of c "decoder_extend d p" "concat ps"] by (simp add: decoder_extend_extend)
  next
    case (Inr d1)
    then show ?thesis
      using push drain_extend [of c "decoder_extend d p" "concat ps"] Cons.IH [OF drain_drained [OF Inr]] by (simp add: decoder_extend_extend)
  qed
qed

lemma drain_default: "drain_entries c canonical_decoder_default = Inr canonical_decoder_default"
  by (subst drain_entries.simps) (simp add: take_entry_def canonical_decoder_default_def)

lemma decode_pieces_concat: "decode_pieces c pieces = decode_pieces c [concat pieces]"
  unfolding decode_pieces_def push_pieces [OF drain_default] by simp

section \<open>Round trip\<close>

definition key_ok :: "string \<Rightarrow> bool" where
  "key_ok k \<longleftrightarrow> valid_utf8 k \<and> length k < 2 ^ 64"

text \<open>What the Rust types give: keys are \<open>String\<close>s and no buffer is longer than a \<open>u64\<close>.\<close>

definition state_ok :: "codecs \<Rightarrow> checkpoint_state \<Rightarrow> bool" where
  "state_ok c st \<longleftrightarrow>
     (\<forall>(k, v) \<in> set (sorted_list_of_fmap (cs_rows st)). key_ok k \<and> length v < 2 ^ 64)
     \<and> (\<forall>(k, r) \<in> set (sorted_list_of_fmap (cs_revocations st)). key_ok k \<and> length (enc_revocation c r) < 2 ^ 64)
     \<and> (\<forall>(k, n) \<in> set (blob_rows (cs_blobs st)). key_ok k)"

lemmas push_defs = push_row_def push_revocation_def push_blob_def push_field_def push_bytes_def
lemmas tag_defs = ROW_TAG_def REVOCATION_TAG_def BLOB_TAG_def

lemma push_row_append: "push_row acc e = acc @ push_row [] e"
  and push_revocation_append: "push_revocation c acc r = acc @ push_revocation c [] r"
  and push_blob_append: "push_blob acc b = acc @ push_blob [] b"
  by (simp_all add: push_defs)

lemma foldl_push:
  assumes "\<And>acc e. push acc e = acc @ push [] e"
  shows "foldl push acc es = acc @ concat (map (push []) es)"
proof (induction es arbitrary: acc)
  case (Cons e es)
  then show ?case using assms [of acc e] by simp
qed simp

definition decodes_to :: "codecs \<Rightarrow> canonical_decoder \<Rightarrow> string \<Rightarrow> checkpoint_state \<Rightarrow> bool" where
  "decodes_to c d rest st \<longleftrightarrow>
     (\<exists>d'. drain_entries c d = drain_entries c d' \<and> cd_buffer d' = rest \<and> cd_hashed d' = cd_hashed d \<and> cd_state d' = st)"

lemma decodes_entry:
  assumes "cd_buffer d = tag # rest0" "take_field rest0 = Some (key, rest1)"
    and "take_value tag rest1 = Some (Some (v, rest))" "valid_utf8 key" "keep_entry c tag key v (cd_state d) = Some st"
  shows "decodes_to c d rest st"
proof -
  let ?d = "d\<lparr>cd_state := st, cd_consumed := cd_consumed d + of_nat (length (cd_buffer d) - length rest), cd_buffer := rest\<rparr>"
  have "take_entry c d = Inr (?d, True)" using take_entry_complete [OF assms(1-3), of c] assms(4,5) by simp
  then have "drain_entries c d = drain_entries c ?d" by (simp add: drain_entries.simps [of c d])
  then show ?thesis unfolding decodes_to_def by (intro exI [of _ ?d]) simp
qed

lemma decodes_row:
  assumes "cd_buffer d = push_row [] (k, v) @ rest" "key_ok k" "length v < 2 ^ 64"
  shows "decodes_to c d rest ((cd_state d)\<lparr>cs_rows := fmupd k v (cs_rows (cd_state d))\<rparr>)"
proof (rule decodes_entry)
  show "cd_buffer d = ROW_TAG # to_le_bytes (of_nat (length k)) @ k @ to_le_bytes (of_nat (length v)) @ v @ rest"
    using assms(1) by (simp add: push_defs)
  show "take_field (to_le_bytes (of_nat (length k)) @ k @ to_le_bytes (of_nat (length v)) @ v @ rest) =
      Some (k, to_le_bytes (of_nat (length v)) @ v @ rest)"
    using assms(2) by (intro take_field_pushed) (simp add: key_ok_def)
  show "take_value ROW_TAG (to_le_bytes (of_nat (length v)) @ v @ rest) = Some (Some (v, rest))"
    using take_field_pushed [OF assms(3)] by (simp add: take_value_def)
qed (use assms(2) in \<open>simp_all add: key_ok_def keep_entry_def\<close>)

lemma decodes_revocation:
  assumes "cd_buffer d = push_revocation c [] (k, r) @ rest" "key_ok k" "length (enc_revocation c r) < 2 ^ 64" "codec_laws c"
  shows "decodes_to c d rest ((cd_state d)\<lparr>cs_revocations := fmupd k r (cs_revocations (cd_state d))\<rparr>)"
proof (rule decodes_entry)
  let ?v = "enc_revocation c r"
  show "cd_buffer d = REVOCATION_TAG # to_le_bytes (of_nat (length k)) @ k @ to_le_bytes (of_nat (length ?v)) @ ?v @ rest"
    using assms(1) by (simp add: push_defs)
  show "take_field (to_le_bytes (of_nat (length k)) @ k @ to_le_bytes (of_nat (length ?v)) @ ?v @ rest) =
      Some (k, to_le_bytes (of_nat (length ?v)) @ ?v @ rest)"
    using assms(2) by (intro take_field_pushed) (simp add: key_ok_def)
  show "take_value REVOCATION_TAG (to_le_bytes (of_nat (length ?v)) @ ?v @ rest) = Some (Some (?v, rest))"
    using take_field_pushed [OF assms(3)] by (simp add: take_value_def)
qed (use assms(2,4) in \<open>simp_all add: key_ok_def keep_entry_def tag_defs codec_laws_def\<close>)

lemma decodes_blob:
  assumes "cd_buffer d = push_blob [] (k, n) @ rest" "key_ok k"
  shows "decodes_to c d rest ((cd_state d)\<lparr>cs_blobs := finsert (DriverBlobReference k n) (cs_blobs (cd_state d))\<rparr>)"
proof (rule decodes_entry)
  show "cd_buffer d = BLOB_TAG # to_le_bytes (of_nat (length k)) @ k @ to_le_bytes n @ rest"
    using assms(1) by (simp add: push_defs)
  show "take_field (to_le_bytes (of_nat (length k)) @ k @ to_le_bytes n @ rest) = Some (k, to_le_bytes n @ rest)"
    using assms(2) by (intro take_field_pushed) (simp add: key_ok_def)
  show "take_value BLOB_TAG (to_le_bytes n @ rest) = Some (Some (to_le_bytes n, rest))"
    by (simp add: take_value_def tag_defs)
qed (use assms(2) in \<open>simp_all add: key_ok_def keep_entry_def tag_defs\<close>)

lemma decodes_section:
  assumes "\<And>d e rest. e \<in> set es \<Longrightarrow> cd_buffer d = enc e @ rest \<Longrightarrow> decodes_to c d rest (ins (cd_state d) e)"
    and "cd_buffer d = concat (map enc es) @ rest"
  shows "decodes_to c d rest (foldl ins (cd_state d) es)"
  using assms
proof (induction es arbitrary: d)
  case Nil
  then show ?case by (auto simp: decodes_to_def)
next
  case (Cons e es)
  have "decodes_to c d (concat (map enc es) @ rest) (ins (cd_state d) e)" using Cons.prems by simp
  then obtain d1 where d1: "drain_entries c d = drain_entries c d1" "cd_buffer d1 = concat (map enc es) @ rest"
    "cd_hashed d1 = cd_hashed d" "cd_state d1 = ins (cd_state d) e" by (auto simp: decodes_to_def)
  have "decodes_to c d1 rest (foldl ins (cd_state d1) es)" using Cons.IH [of d1] Cons.prems(1) d1(2) by simp
  with d1 show ?case by (auto simp: decodes_to_def)
qed

lemma decodes_trans:
  assumes "decodes_to c d rest st" "\<And>d'. cd_buffer d' = rest \<Longrightarrow> cd_state d' = st \<Longrightarrow> decodes_to c d' rest' st'"
  shows "decodes_to c d rest' st'"
proof -
  from assms(1) obtain d1 where d1: "drain_entries c d = drain_entries c d1" "cd_buffer d1 = rest"
    "cd_hashed d1 = cd_hashed d" "cd_state d1 = st" by (auto simp: decodes_to_def)
  with assms(2) [of d1] show ?thesis by (auto simp: decodes_to_def)
qed

lemma canonical_concat:
  "cs_canonical c st = concat (map (push_row []) (sorted_list_of_fmap (cs_rows st)))
     @ concat (map (push_revocation c []) (sorted_list_of_fmap (cs_revocations st)))
     @ concat (map (push_blob []) (blob_rows (cs_blobs st)))"
  unfolding cs_canonical_def
  by (simp add: foldl_push [of push_row, OF push_row_append] foldl_push [of "push_revocation c", OF push_revocation_append]
      foldl_push [of push_blob, OF push_blob_append])

lemma foldl_rows: "foldl (\<lambda>st (k, v). st\<lparr>cs_rows := fmupd k v (cs_rows st)\<rparr>) st es =
    st\<lparr>cs_rows := foldl (\<lambda>m (k, v). fmupd k v m) (cs_rows st) es\<rparr>"
  by (induction es arbitrary: st) auto

lemma foldl_revocations: "foldl (\<lambda>st (k, r). st\<lparr>cs_revocations := fmupd k r (cs_revocations st)\<rparr>) st rs =
    st\<lparr>cs_revocations := foldl (\<lambda>m (k, r). fmupd k r m) (cs_revocations st) rs\<rparr>"
  by (induction rs arbitrary: st) auto

lemma foldl_blobs: "foldl (\<lambda>st (k, n). st\<lparr>cs_blobs := finsert (DriverBlobReference k n) (cs_blobs st)\<rparr>) st bs =
    st\<lparr>cs_blobs := foldl (\<lambda>m (k, n). finsert (DriverBlobReference k n) m) (cs_blobs st) bs\<rparr>"
  by (induction bs arbitrary: st) auto

lemma in_blob_rows [simp]: "(k, n) \<in> set (blob_rows blobs) \<longleftrightarrow> DriverBlobReference k n |\<in>| blobs"
proof -
  have "(k, n) = (br_sha256 b, br_size b) \<longleftrightarrow> b = DriverBlobReference k n" for b by (cases b) auto
  then show ?thesis by (auto simp: blob_rows_def image_iff)
qed

lemma foldl_blob_rows: "foldl (\<lambda>m (k, n). finsert (DriverBlobReference k n) m) {||} (blob_rows blobs) = blobs"
proof -
  have "DriverBlobReference k n |\<in>| foldl (\<lambda>m (k, n). finsert (DriverBlobReference k n) m) m0 es \<longleftrightarrow>
      DriverBlobReference k n |\<in>| m0 \<or> (k, n) \<in> set es" for k n m0 es
    by (induction es arbitrary: m0) auto
  then show ?thesis by (intro fset_eqI) (metis driver_blob_reference.exhaust fempty_iff in_blob_rows)
qed

lemma decodes_canonical:
  assumes "state_ok c st" "codec_laws c" "cd_buffer d = cs_canonical c st" "cd_state d = checkpoint_state_default"
  shows "decodes_to c d [] st"
proof -
  let ?rows = "sorted_list_of_fmap (cs_rows st)" and ?revs = "sorted_list_of_fmap (cs_revocations st)" and ?blobs = "blob_rows (cs_blobs st)"
  let ?B = "concat (map (push_blob []) ?blobs)" and ?V = "concat (map (push_revocation c []) ?revs)"
  have rows: "decodes_to c d (?V @ ?B) (foldl (\<lambda>st (k, v). st\<lparr>cs_rows := fmupd k v (cs_rows st)\<rparr>) (cd_state d) ?rows)"
    by (rule decodes_section [where enc = "push_row []"])
      (use assms(1) in \<open>auto simp: assms(3) canonical_concat state_ok_def split: prod.splits intro!: decodes_row\<close>)
  have revs: "decodes_to c d' ?B (foldl (\<lambda>st (k, r). st\<lparr>cs_revocations := fmupd k r (cs_revocations st)\<rparr>) S ?revs)"
    if "cd_buffer d' = ?V @ ?B" "cd_state d' = S" for d' S
    unfolding that(2) [symmetric] by (rule decodes_section [where enc = "push_revocation c []", OF _ that(1)])
      (use assms(1,2) in \<open>auto simp: state_ok_def split: prod.splits intro!: decodes_revocation\<close>)
  have blobs: "decodes_to c d' [] (foldl (\<lambda>st (k, n). st\<lparr>cs_blobs := finsert (DriverBlobReference k n) (cs_blobs st)\<rparr>) S ?blobs)"
    if "cd_buffer d' = ?B" "cd_state d' = S" for d' S
    unfolding that(2) [symmetric] by (rule decodes_section [where enc = "push_blob []"])
      (use assms(1) that(1) in \<open>auto simp: state_ok_def split: prod.splits intro!: decodes_blob\<close>)
  have final: "foldl (\<lambda>st (k, n). st\<lparr>cs_blobs := finsert (DriverBlobReference k n) (cs_blobs st)\<rparr>)
      (foldl (\<lambda>st (k, r). st\<lparr>cs_revocations := fmupd k r (cs_revocations st)\<rparr>)
        (foldl (\<lambda>st (k, v). st\<lparr>cs_rows := fmupd k v (cs_rows st)\<rparr>) (cd_state d) ?rows) ?revs) ?blobs = st"
    by (simp add: assms(4) foldl_rows foldl_revocations foldl_blobs foldl_fmupd_rows foldl_blob_rows checkpoint_state_default_def)
  have "decodes_to c d [] (foldl (\<lambda>st (k, n). st\<lparr>cs_blobs := finsert (DriverBlobReference k n) (cs_blobs st)\<rparr>)
      (foldl (\<lambda>st (k, r). st\<lparr>cs_revocations := fmupd k r (cs_revocations st)\<rparr>)
        (foldl (\<lambda>st (k, v). st\<lparr>cs_rows := fmupd k v (cs_rows st)\<rparr>) (cd_state d) ?rows) ?revs) ?blobs)"
    by (rule decodes_trans [OF decodes_trans [OF rows]], rule revs, assumption, assumption, rule blobs)
  then show ?thesis unfolding final .
qed

lemma decode_canonical:
  assumes "state_ok c st" "codec_laws c" "concat pieces = cs_canonical c st"
  shows "decode_pieces c pieces = Inr \<lparr>dc_state = st, dc_digest = sha256_hex c (cs_canonical c st)\<rparr>"
proof -
  let ?d = "decoder_extend canonical_decoder_default (cs_canonical c st)"
  have "decodes_to c ?d [] st"
    by (rule decodes_canonical [OF assms(1,2)]) (simp_all add: decoder_extend_def canonical_decoder_default_def)
  then obtain d where d: "drain_entries c ?d = drain_entries c d" "cd_buffer d = []" "cd_hashed d = cd_hashed ?d" "cd_state d = st"
    by (auto simp: decodes_to_def)
  have "drain_entries c d = Inr d" by (subst drain_entries.simps) (simp add: take_entry_def d(2))
  with d show ?thesis
    unfolding decode_pieces_def push_pieces [OF drain_default] assms(3)
    by (simp add: decoder_finish_def decoder_extend_def canonical_decoder_default_def)
qed

text \<open>No two states share an encoding: every field is length-prefixed.\<close>

lemma canonical_injective:
  assumes "state_ok c a" "state_ok c b" "codec_laws c" "cs_canonical c a = cs_canonical c b"
  shows "a = b"
  using decode_canonical [of c a "[cs_canonical c a]"] decode_canonical [of c b "[cs_canonical c a]"] assms by simp

section \<open>Following the cursors\<close>

lemma section_loop_spec:
  assumes "\<And>acc e. push acc e = acc @ push [] e"
  obtains n where "n \<le> length es"
    "fst (section_loop push budget es bytes) = bytes @ concat (map (push []) (take n es))"
    "snd (section_loop push budget es bytes) = None \<longrightarrow> n = length es"
    "snd (section_loop push budget es bytes) \<noteq> None \<longrightarrow> 0 < n \<and> snd (section_loop push budget es bytes) = Some (fst (es ! (n - 1)))"
proof (induction es arbitrary: bytes thesis)
  case (Cons e es)
  show ?case
  proof (cases "length (push bytes e) \<ge> budget")
    case True
    then show ?thesis using Cons.prems [of 1] assms [of bytes e] by simp
  next
    case False
    obtain n where n: "n \<le> length es"
      "fst (section_loop push budget es (push bytes e)) = push bytes e @ concat (map (push []) (take n es))"
      "snd (section_loop push budget es (push bytes e)) = None \<longrightarrow> n = length es"
      "snd (section_loop push budget es (push bytes e)) \<noteq> None \<longrightarrow> 0 < n
        \<and> snd (section_loop push budget es (push bytes e)) = Some (fst (es ! (n - 1)))"
      using Cons.IH [of "push bytes e"] by blast
    have "section_loop push budget (e # es) bytes = section_loop push budget es (push bytes e)" using False by simp
    moreover have "push bytes e @ concat (map (push []) (take n es)) = bytes @ concat (map (push []) (take (Suc n) (e # es)))"
      using assms [of bytes e] by simp
    ultimately show ?thesis using Cons.prems [of "Suc n"] n by (auto simp: nth_Cons')
  qed
qed simp

lemma section_after:
  fixes table :: "(string, 'v) fmap"
  assumes "\<And>acc e. push acc e = acc @ push [] e"
    and "section_loop push budget (rows_after after table) bytes = (bytes', stopped)"
  shows "case stopped of
      None \<Rightarrow> bytes' = bytes @ concat (map (push []) (rows_after after table))
    | Some k \<Rightarrow> bytes' @ concat (map (push []) (rows_after (Some k) table)) = bytes @ concat (map (push []) (rows_after after table))
        \<and> length (rows_after (Some k) table) < length (rows_after after table)"
proof -
  let ?es = "rows_after after table"
  obtain n where n: "n \<le> length ?es" "bytes' = bytes @ concat (map (push []) (take n ?es))"
    "stopped = None \<longrightarrow> n = length ?es" "stopped \<noteq> None \<longrightarrow> 0 < n \<and> stopped = Some (fst (?es ! (n - 1)))"
    by (rule section_loop_spec [where push = push and es = ?es and budget = budget and bytes = bytes, OF assms(1)])
      (simp_all add: assms(2))
  show ?thesis
  proof (cases stopped)
    case (Some k)
    then have k: "0 < n" "k = fst (?es ! (n - 1))" using n(4) by auto
    then have "rows_after (Some k) table = drop n ?es"
      using rows_after_Some_drop [OF refl, of "n - 1" after table] n(1) by simp
    moreover have "concat (map (push []) (take n ?es)) @ concat (map (push []) (drop n ?es)) = concat (map (push []) ?es)"
      by (simp flip: concat_append map_append)
    ultimately show ?thesis using Some n(1,2) k(1) by simp
  qed (use n in simp)
qed

definition tables_state :: "checkpoint_tables \<Rightarrow> checkpoint_state" where
  "tables_state t = \<lparr>cs_rows = ct_rows t, cs_revocations = ct_revocations t,
     cs_blobs = fset_of_list (map (\<lambda>(k, n). DriverBlobReference k n) (sorted_list_of_fmap (ct_blobs t)))\<rparr>"

fun tail_bytes :: "codecs \<Rightarrow> checkpoint_tables \<Rightarrow> checkpoint_cursor \<Rightarrow> string" where
  "tail_bytes c t (CurRows a) = concat (map (push_row []) (rows_after a (ct_rows t)))
     @ concat (map (push_revocation c []) (rows_after None (ct_revocations t)))
     @ concat (map (push_blob []) (rows_after None (ct_blobs t)))"
| "tail_bytes c t (CurRevocations a) = concat (map (push_revocation c []) (rows_after a (ct_revocations t)))
     @ concat (map (push_blob []) (rows_after None (ct_blobs t)))"
| "tail_bytes c t (CurBlobs a) = concat (map (push_blob []) (rows_after a (ct_blobs t)))"
| "tail_bytes c t CurDone = []"

fun tail_entries :: "checkpoint_tables \<Rightarrow> checkpoint_cursor \<Rightarrow> nat" where
  "tail_entries t (CurRows a) = Suc (length (rows_after a (ct_rows t)) + length (rows_after None (ct_revocations t))
     + length (rows_after None (ct_blobs t)))"
| "tail_entries t (CurRevocations a) = Suc (length (rows_after a (ct_revocations t)) + length (rows_after None (ct_blobs t)))"
| "tail_entries t (CurBlobs a) = Suc (length (rows_after a (ct_blobs t)))"
| "tail_entries t CurDone = 0"

lemma chunk_blobs_tail:
  "cc_bytes (chunk_blobs t budget a bytes) @ tail_bytes c t (cc_next (chunk_blobs t budget a bytes)) = bytes @ tail_bytes c t (CurBlobs a)
   \<and> tail_entries t (cc_next (chunk_blobs t budget a bytes)) < tail_entries t (CurBlobs a)"
proof -
  obtain bytes' stopped where l: "section_loop push_blob budget (rows_after a (ct_blobs t)) bytes = (bytes', stopped)" by force
  then show ?thesis using section_after [OF push_blob_append l] by (cases stopped) (simp_all add: chunk_blobs_def)
qed

lemma chunk_revocations_tail:
  "cc_bytes (chunk_revocations c t budget a bytes) @ tail_bytes c t (cc_next (chunk_revocations c t budget a bytes)) =
     bytes @ tail_bytes c t (CurRevocations a)
   \<and> tail_entries t (cc_next (chunk_revocations c t budget a bytes)) < tail_entries t (CurRevocations a)"
proof -
  obtain bytes' stopped where l: "section_loop (push_revocation c) budget (rows_after a (ct_revocations t)) bytes = (bytes', stopped)" by force
  then show ?thesis using section_after [OF push_revocation_append l] chunk_blobs_tail [of t budget None bytes' c]
    by (cases stopped) (auto simp: chunk_revocations_def)
qed

lemma chunk_rows_tail:
  "cc_bytes (chunk_rows c t budget a bytes) @ tail_bytes c t (cc_next (chunk_rows c t budget a bytes)) =
     bytes @ tail_bytes c t (CurRows a)
   \<and> tail_entries t (cc_next (chunk_rows c t budget a bytes)) < tail_entries t (CurRows a)"
proof -
  obtain bytes' stopped where l: "section_loop push_row budget (rows_after a (ct_rows t)) bytes = (bytes', stopped)" by force
  then show ?thesis using section_after [OF push_row_append l] chunk_revocations_tail [of c t budget None bytes']
    by (cases stopped) (auto simp: chunk_rows_def)
qed

lemma chunk_tail:
  assumes "cursor \<noteq> CurDone"
  shows "cc_bytes (checkpoint_chunk_at c t cursor budget) @ tail_bytes c t (cc_next (checkpoint_chunk_at c t cursor budget)) = tail_bytes c t cursor"
    and "tail_entries t (cc_next (checkpoint_chunk_at c t cursor budget)) < tail_entries t cursor"
  using assms chunk_rows_tail [of c t budget _ "[]"] chunk_revocations_tail [of c t budget _ "[]"] chunk_blobs_tail [of t budget _ "[]" c]
  by (cases cursor; simp)+

text \<open>A transfer: ask for the chunk at the cursor until the cursor is \<open>Done\<close>.\<close>

function walk_chunks :: "codecs \<Rightarrow> checkpoint_tables \<Rightarrow> usize \<Rightarrow> checkpoint_cursor \<Rightarrow> string list" where
  "walk_chunks c t budget cursor =
     (if cursor = CurDone then []
      else let k = checkpoint_chunk_at c t cursor budget in cc_bytes k # walk_chunks c t budget (cc_next k))"
  by auto
termination
  by (relation "measure (\<lambda>(c, t, budget, cursor). tail_entries t cursor)") (auto intro: chunk_tail(2))

declare walk_chunks.simps [simp del]

lemma walk_chunks_bytes: "concat (walk_chunks c t budget cursor) = tail_bytes c t cursor"
proof (induction c t budget cursor rule: walk_chunks.induct)
  case (1 c t budget cursor)
  show ?case
  proof (cases "cursor = CurDone")
    case False
    then show ?thesis using 1 [OF False refl] chunk_tail(1) [OF False, of c t budget]
      by (subst walk_chunks.simps) (simp add: Let_def)
  qed (simp add: walk_chunks.simps)
qed

lemma blob_rows_of_table:
  "blob_rows (fset_of_list (map (\<lambda>(k, n). DriverBlobReference k n) (sorted_list_of_fmap m))) = sorted_list_of_fmap m"
proof -
  let ?bs = "map (\<lambda>(k, n). DriverBlobReference k n) (sorted_list_of_fmap m)"
  have "sorted_wrt (\<lambda>x y. fst x < fst y) (sorted_list_of_fmap m)"
    using sorted_keys_fmap [of m] by (simp add: sorted_wrt_map)
  then have "sorted_wrt (<) ?bs"
    unfolding sorted_wrt_map by (rule sorted_wrt_mono_rel [rotated]) (auto simp: less_driver_blob_reference_def less_prod_def)
  moreover have "sorted_wrt (<) (sorted_list_of_fset (fset_of_list ?bs))" by (simp add: sorted_list_of_fset.rep_eq)
  moreover have "set (sorted_list_of_fset (fset_of_list ?bs)) = set ?bs" by (simp add: fset_of_list.rep_eq)
  ultimately have "sorted_list_of_fset (fset_of_list ?bs) = ?bs" using strict_sorted_equal by blast
  then show ?thesis by (simp add: blob_rows_def comp_def case_prod_unfold)
qed

lemma tail_bytes_start: "tail_bytes c t cursor_start = cs_canonical c (tables_state t)"
  unfolding canonical_concat
  by (simp add: cursor_start_def tables_state_def blob_rows_of_table rows_after_def del: fset_of_list_map)


section \<open>Cursor tokens\<close>

text \<open>\<open>u64\<close>'s decimal \<open>Display\<close> and \<open>FromStr\<close>.\<close>

function show_decimal :: "u64 \<Rightarrow> string" where
  "show_decimal n = (if n < 10 then [char_of (48 + uint n)] else show_decimal (n div 10) @ [char_of (48 + uint (n mod 10))])"
  by auto
termination
  by (relation "measure unat") (auto simp: unat_div word_less_nat_alt)

declare show_decimal.simps [simp del]

definition decimal_value :: "string \<Rightarrow> int" where
  "decimal_value s = foldl (\<lambda>n c. 10 * n + (of_char c - 48)) 0 s"

definition is_digit :: "char \<Rightarrow> bool" where
  "is_digit c \<longleftrightarrow> CHR ''0'' \<le> c \<and> c \<le> CHR ''9''"

definition parse_u64 :: "string \<Rightarrow> u64 option" where
  "parse_u64 s =
     (let digits = (case s of [] \<Rightarrow> [] | c # cs \<Rightarrow> if c = CHR ''+'' then cs else s) in
      if digits \<noteq> [] \<and> list_all is_digit digits \<and> decimal_value digits < 2 ^ 64 then Some (of_int (decimal_value digits)) else None)"

definition split_once :: "char \<Rightarrow> string \<Rightarrow> (string \<times> string) option" where
  "split_once sep s =
     (let front = takeWhile (\<lambda>c. c \<noteq> sep) s in
      if length front = length s then None else Some (front, drop (Suc (length front)) s))"

fun cursor_token :: "codecs \<Rightarrow> checkpoint_cursor \<Rightarrow> string" where
  "cursor_token c (CurRows after) = (case after of None \<Rightarrow> ''r'' | Some key \<Rightarrow> ''r'' @ '':'' @ hex_encode c key)"
| "cursor_token c (CurRevocations after) = (case after of None \<Rightarrow> ''v'' | Some key \<Rightarrow> ''v'' @ '':'' @ hex_encode c key)"
| "cursor_token c (CurBlobs after) = (case after of None \<Rightarrow> ''b'' | Some key \<Rightarrow> ''b'' @ '':'' @ hex_encode c key)"
| "cursor_token c CurDone = ''done''"

definition generation_token :: "codecs \<Rightarrow> checkpoint_cursor \<Rightarrow> u64 \<Rightarrow> string" where
  "generation_token c cursor g = ''g'' @ show_decimal g @ '':'' @ cursor_token c cursor"

definition from_token :: "codecs \<Rightarrow> string \<Rightarrow> checkpoint_cursor option" where
  "from_token c token =
     (if token = ''done'' then Some CurDone
      else
        let parts = (case split_once CHR '':'' token of
              Some (tag, key) \<Rightarrow>
                (case hex_decode c key of
                   None \<Rightarrow> None
                 | Some decoded \<Rightarrow> if valid_utf8 decoded then Some (tag, Some decoded) else None)
            | None \<Rightarrow> Some (token, None))
        in case parts of
             None \<Rightarrow> None
           | Some (tag, after) \<Rightarrow>
               if tag = ''r'' then Some (CurRows after)
               else if tag = ''v'' then Some (CurRevocations after)
               else if tag = ''b'' then Some (CurBlobs after)
               else None)"

definition from_generation_token :: "codecs \<Rightarrow> string \<Rightarrow> (u64 \<times> checkpoint_cursor) option" where
  "from_generation_token c token =
     (case token of
        [] \<Rightarrow> None
      | g # rest \<Rightarrow>
          if g \<noteq> CHR ''g'' then None
          else (case split_once CHR '':'' rest of
                  None \<Rightarrow> None
                | Some (generation, cursor) \<Rightarrow>
                    (case (parse_u64 generation, from_token c cursor) of
                       (Some n, Some cur) \<Rightarrow> Some (n, cur)
                     | _ \<Rightarrow> None)))"

lemma digit_char:
  assumes "(0 :: int) \<le> d" "d < 10"
  shows "(of_char (char_of (48 + d)) :: int) = 48 + d" "is_digit (char_of (48 + d))"
proof -
  show v: "(of_char (char_of (48 + d)) :: int) = 48 + d" using assms by simp
  have "int (of_char (char_of (48 + d))) = of_char (char_of (48 + d))" by (simp only: of_nat_of_char)
  then have "of_char (char_of (48 + d)) = nat (48 + d)" using v by linarith
  then show "is_digit (char_of (48 + d))" using assms unfolding is_digit_def less_eq_char_def by (simp; arith)
qed

lemma show_decimal_spec: "list_all is_digit (show_decimal n) \<and> show_decimal n \<noteq> [] \<and> decimal_value (show_decimal n) = uint n"
proof (induction n rule: show_decimal.induct)
  case (1 n)
  show ?case
  proof (cases "n < 10")
    case True
    then have d: "0 \<le> uint n" "uint n < 10" by (simp_all add: word_less_def)
    show ?thesis using True digit_char [OF d] by (subst (1 2 3) show_decimal.simps) (simp add: decimal_value_def)
  next
    case False
    have d: "0 \<le> uint (n mod 10)" "uint (n mod 10) < 10" by (simp_all add: uint_mod)
    have "10 * uint (n div 10) + uint (n mod 10) = uint n" by (simp add: uint_div uint_mod)
    then show ?thesis using False 1 [OF False] digit_char [OF d]
      by (subst (1 2 3) show_decimal.simps) (simp add: decimal_value_def)
  qed
qed

lemma parse_show [simp]: "parse_u64 (show_decimal n) = Some n"
proof -
  obtain x xs where x: "show_decimal n = x # xs" using show_decimal_spec [of n] by (cases "show_decimal n") auto
  have "is_digit x" using show_decimal_spec [of n] x by simp
  then have "x \<noteq> CHR ''+''" by (auto simp: is_digit_def less_eq_char_def)
  moreover have "uint n < 2 ^ 64" using uint_bounded [of n] by simp
  ultimately show ?thesis using show_decimal_spec [of n] x by (simp add: parse_u64_def)
qed

lemma split_once_append: "\<forall>x \<in> set front. x \<noteq> sep \<Longrightarrow> split_once sep (front @ sep # rest) = Some (front, rest)"
  by (simp add: split_once_def takeWhile_append Let_def)

lemma decimal_no_colon: "\<forall>x \<in> set (show_decimal n). x \<noteq> CHR '':''"
  using show_decimal_spec [of n] by (auto simp: list_all_iff is_digit_def less_eq_char_def)

fun cursor_after :: "checkpoint_cursor \<Rightarrow> string option" where
  "cursor_after (CurRows a) = a" | "cursor_after (CurRevocations a) = a" | "cursor_after (CurBlobs a) = a" | "cursor_after CurDone = None"

lemma split_once_tag: "t \<noteq> CHR '':'' \<Longrightarrow> split_once CHR '':'' (t # CHR '':'' # rest) = Some ([t], rest)"
  using split_once_append [of "[t]" "CHR '':''" rest] by simp

lemma split_once_none: "t \<noteq> CHR '':'' \<Longrightarrow> split_once CHR '':'' [t] = None"
  by (simp add: split_once_def)

lemma from_generation_token_inverse:
  assumes "codec_laws c" "\<And>k. cursor_after cursor = Some k \<Longrightarrow> valid_utf8 k"
  shows "from_generation_token c (generation_token c cursor g) = Some (g, cursor)"
proof -
  have hex: "hex_decode c (hex_encode c k) = Some k" for k using assms(1) by (simp add: codec_laws_def)
  have "from_token c (cursor_token c cursor) = Some cursor"
    using assms(2) by (cases cursor) (auto simp: from_token_def Let_def hex split_once_tag split_once_none split: option.splits)
  then show ?thesis
    using split_once_append [OF decimal_no_colon, of g "cursor_token c cursor"]
    by (simp add: generation_token_def from_generation_token_def)
qed

text \<open>C23: A token the writer hands out resumes exactly where it says.\<close>

theorem cursor_token_roundtrip:
  assumes "codec_laws c" "\<And>k. cursor_after cursor = Some k \<Longrightarrow> valid_utf8 k"
  shows "from_generation_token c (generation_token c cursor g) = Some (g, cursor)"
  using from_generation_token_inverse [OF assms] .

section \<open>Witnesses\<close>

text \<open>Codecs that keep the laws: records by their position in an enumeration of all records, a tag in front of a
  server mutation, and the identity for \<open>hex\<close>; the digest of some bytes is the bytes.\<close>

instance digest_revocation_state :: countable
  by countable_datatype

definition revocation_number :: "digest_revocation \<Rightarrow> nat" where
  "revocation_number r = to_nat (dr_digest r, dr_reason r, dr_created_by r, dr_created_at_unix r, dr_state r, dr_revision r)"

definition numbered_revocation :: "nat \<Rightarrow> digest_revocation" where
  "numbered_revocation n = (case from_nat n of (d, why, who, at, st, n) \<Rightarrow>
     \<lparr>dr_digest = d, dr_reason = why, dr_created_by = who, dr_created_at_unix = at, dr_state = st, dr_revision = n\<rparr>)"

lemma numbered_revocation_number [simp]: "numbered_revocation (revocation_number r) = r"
  by (simp add: numbered_revocation_def revocation_number_def)

definition sample_codecs :: codecs where
  "sample_codecs = \<lparr>
     enc_revocation = (\<lambda>r. replicate (revocation_number r) CHR ''x''),
     dec_revocation = (\<lambda>s. Some (numbered_revocation (length s))),
     enc_server = (\<lambda>m. case m of DigestRevocationMutation r \<Rightarrow> CHR ''s'' # replicate (revocation_number r) CHR ''x''),
     dec_server = (\<lambda>s. case s of
        [] \<Rightarrow> Inr None
      | c # xs \<Rightarrow> Inr (if c = CHR ''s'' then Some (DigestRevocationMutation (numbered_revocation (length xs))) else None)),
     hex_encode = (\<lambda>s. s), hex_decode = Some, sha256_hex = (\<lambda>s. s)\<rparr>"

lemma sample_codec_laws: "codec_laws sample_codecs"
  by (auto simp: codec_laws_def sample_codecs_def split: server_mutation.splits)

definition sample_tables :: checkpoint_tables where
  "sample_tables = checkpoint_tables_empty\<lparr>ct_rows := fmupd ''k'' ''v'' (fmupd ''a'' '''' fmempty), ct_blobs := fmupd ''d'' 7 fmempty\<rparr>"

lemma sample_state_ok: "state_ok sample_codecs (tables_state sample_tables)"
proof -
  have "sorted_list_of_fmap (cs_rows (tables_state sample_tables)) = [(''a'', ''''), (''k'', ''v'')]" by code_simp
  moreover have "sorted_list_of_fmap (cs_revocations (tables_state sample_tables)) = []"
    by (simp add: tables_state_def sample_tables_def checkpoint_tables_empty_def sorted_list_of_fmap_def sorted_list_of_fset.rep_eq)
  moreover have "blob_rows (cs_blobs (tables_state sample_tables)) = [(''d'', 7)]" by code_simp
  ultimately show ?thesis by (simp add: state_ok_def key_ok_def)
qed


lemma cursor_token_roundtrip_witness:
  "from_generation_token sample_codecs (generation_token sample_codecs (CurRows (Some ''k'')) 12) = Some (12, CurRows (Some ''k''))"
  by (rule cursor_token_roundtrip [OF sample_codec_laws]) simp

end
