(* ===== verification/Checkpoint.thy ===== *)
theory Checkpoint
  imports Checkpoint_Codec
begin

text \<open>
  Checkpoints of \<open>peryx-storage/src/meta/checkpoint.rs\<close> and their transfer in \<open>meta/checkpoint_transfer.rs\<close>: the
  fold of the journal, manifests, verification, publication with its retained floor and generation pin, staging,
  installation and the recovery of the blobs an installed checkpoint names. \<open>now\<close> is the store's clock; \<open>scan\<close> is the
  drivers' reference scan.
\<close>

section \<open>Folding the journal\<close>

fun apply_mutation :: "(string, string) fmap \<Rightarrow> driver_mutation \<Rightarrow> (string, string) fmap" where
  "apply_mutation rows (MutPut key v) = fmupd key v rows"
| "apply_mutation rows (MutDelete key) = fmdrop key rows"

definition cs_apply ::
  "codecs \<Rightarrow> checkpoint_state \<Rightarrow> driver_mutation list \<Rightarrow> driver_blob_reference list \<Rightarrow> string \<Rightarrow> (meta_error, checkpoint_state) result" where
  "cs_apply c st mutations blobs payload =
     (let st1 = st\<lparr>cs_rows := foldl apply_mutation (cs_rows st) mutations\<rparr> in
      and_then (dec_server c payload) (\<lambda>decoded.
        let st2 = (case decoded of
              Some (DigestRevocationMutation r) \<Rightarrow> st1\<lparr>cs_revocations := fmupd (canonical (dr_digest r)) r (cs_revocations st1)\<rparr>
            | None \<Rightarrow> st1)
        in Inr (st2\<lparr>cs_blobs := cs_blobs st2 |\<union>| fset_of_list blobs\<rparr>)))"

definition cs_apply_record :: "codecs \<Rightarrow> checkpoint_state \<Rightarrow> journal_record \<Rightarrow> (meta_error, checkpoint_state) result" where
  "cs_apply_record c st r = cs_apply c st (jr_mutations r) (jr_blobs r) (jr_payload r)"

definition fold_journal :: "codecs \<Rightarrow> meta_store \<Rightarrow> checkpoint_state \<Rightarrow> u64 \<Rightarrow> u64 \<Rightarrow> (meta_error, checkpoint_state) result" where
  "fold_journal c s st base through =
     try_fold (cs_apply_record c) st
       (map (journal_record_of s) (filter (\<lambda>(serial, _). serial \<le> through) (rows_after (Some base) (ms_journal s))))"

definition folded_state :: "codecs \<Rightarrow> meta_store \<Rightarrow> u64 \<Rightarrow> (meta_error, checkpoint_state) result" where
  "folded_state c s through = fold_journal c s checkpoint_state_default 0 through"

section \<open>Manifests\<close>

definition cs_manifest :: "codecs \<Rightarrow> checkpoint_state \<Rightarrow> checkpoint_identity \<Rightarrow> u64 \<Rightarrow> checkpoint_manifest" where
  "cs_manifest c st identity serial =
     (let bytes = cs_canonical c st in
      \<lparr>cm_generation = 0, cm_identity = identity, cm_serial = serial,
       cm_rows = of_nat (fcard (fmdom (cs_rows st))), cm_revocations = of_nat (fcard (fmdom (cs_revocations st))),
       cm_blobs = of_nat (fcard (cs_blobs st)), cm_bytes = of_nat (length bytes), cm_digest = sha256_hex c bytes\<rparr>)"

fun check_counts :: "(string \<times> u64 \<times> u64) list \<Rightarrow> (checkpoint_verify_error, unit) result" where
  "check_counts [] = Inr ()"
| "check_counts ((kind, declared, actual) # rest) =
     (if declared \<noteq> actual then Inl (CheckpointTruncated kind declared actual) else check_counts rest)"

definition checkpoint_verify :: "codecs \<Rightarrow> checkpoint_manifest \<Rightarrow> checkpoint_state \<Rightarrow> (checkpoint_verify_error, unit) result" where
  "checkpoint_verify c m st =
     (let bytes = cs_canonical c st in
      and_then (check_counts
        [(''rows'', cm_rows m, of_nat (fcard (fmdom (cs_rows st)))),
         (''revocations'', cm_revocations m, of_nat (fcard (fmdom (cs_revocations st)))),
         (''blobs'', cm_blobs m, of_nat (fcard (cs_blobs st))),
         (''bytes'', cm_bytes m, of_nat (length bytes))])
        (\<lambda>_. let actual = sha256_hex c bytes in
             if actual \<noteq> cm_digest m then Inl (CheckpointDigest (cm_digest m) actual) else Inr ()))"

section \<open>Publication\<close>

definition MISSING_BLOB_SIZE_BATCH :: usize where
  "MISSING_BLOB_SIZE_BATCH = 256"

definition retain_one ::
  "(string, u64) fmap \<Rightarrow> driver_blob_reference fset \<times> string list \<Rightarrow> string \<Rightarrow> driver_blob_reference fset \<times> string list" where
  "retain_one supplemental bm digest =
     (case fmlookup supplemental digest of
        Some n \<Rightarrow> (finsert (DriverBlobReference digest n) (fst bm), snd bm)
      | None \<Rightarrow> if length (snd bm) < MISSING_BLOB_SIZE_BATCH then (fst bm, snd bm @ [digest]) else bm)"

definition retain_blobs ::
  "checkpoint_state \<Rightarrow> string fset \<Rightarrow> (string, u64) fmap \<Rightarrow> (meta_error, checkpoint_state) result" where
  "retain_blobs st digests supplemental =
     (let kept = ffilter (\<lambda>b. br_sha256 b |\<in>| digests) (cs_blobs st);
          found = br_sha256 |`| kept
      in case foldl (retain_one supplemental) (kept, []) (sorted_list_of_fset (digests |-| found)) of (blobs, missing) \<Rightarrow>
           if missing \<noteq> [] then Inl (CheckpointBlobSizesMissing missing) else Inr (st\<lparr>cs_blobs := blobs\<rparr>))"

definition published_checkpoint :: "meta_store \<Rightarrow> (checkpoint_manifest \<times> checkpoint_state) option" where
  "published_checkpoint s = map_option (\<lambda>m. (m, tables_state (ms_checkpoint s))) (ct_manifest (ms_checkpoint s))"

definition checkpoint_blob_digests :: "meta_store \<Rightarrow> string fset" where
  "checkpoint_blob_digests s = fmdom (ct_blobs (ms_checkpoint s))"

definition pin_live :: "checkpoint_tables \<Rightarrow> i64 \<Rightarrow> bool" where
  "pin_live t now =
     (case (ct_manifest t, ct_pin t) of
        (Some m, Some p) \<Rightarrow> pin_generation p = cm_generation m \<and> now < pin_expires_at p
      | _ \<Rightarrow> False)"

definition publication_current :: "checkpoint_tables \<Rightarrow> u64 \<Rightarrow> checkpoint_identity \<Rightarrow> bool" where
  "publication_current t serial identity =
     (case ct_manifest t of
        Some m \<Rightarrow> cm_generation m > 0 \<and> cm_serial m = serial \<and> cm_identity m = identity \<and> ct_pin t = None
      | None \<Rightarrow> False)"

definition write_publication :: "meta_store \<Rightarrow> checkpoint_state \<Rightarrow> checkpoint_manifest \<Rightarrow> u64 \<Rightarrow> meta_store" where
  "write_publication s st m serial =
     s\<lparr>ms_checkpoint := (ms_checkpoint s)\<lparr>ct_rows := cs_rows st, ct_revocations := cs_revocations st,
          ct_blobs := foldl (\<lambda>t (k, n). fmupd k n t) fmempty (blob_rows (cs_blobs st)),
          ct_manifest := Some m, ct_pin := None\<rparr>,
       ms_retained_floor := Some (u64_saturating_add serial 1)\<rparr>"

definition publication_state ::
  "codecs \<Rightarrow> meta_store \<Rightarrow> (string, u64) fmap \<Rightarrow> (checkpoint_state \<Rightarrow> (string, string fset) result) \<Rightarrow>
   (meta_error, checkpoint_state) result" where
  "publication_state c s supplemental scan =
     (let published = published_checkpoint s;
          base = (case published of None \<Rightarrow> 0 | Some (m, _) \<Rightarrow> cm_serial m);
          st0 = (case published of None \<Rightarrow> checkpoint_state_default | Some (_, st) \<Rightarrow> st)
      in and_then (fold_journal c s st0 base (ms_serial s)) (\<lambda>st1.
         and_then (map_err CheckpointReferences (scan st1)) (\<lambda>live. retain_blobs st1 live supplemental)))"

definition next_generation :: "checkpoint_tables \<Rightarrow> u64" where
  "next_generation t = (case ct_manifest t of None \<Rightarrow> 1 | Some m \<Rightarrow> u64_saturating_add (cm_generation m) 1)"

definition fold_and_write ::
  "codecs \<Rightarrow> meta_store \<Rightarrow> checkpoint_identity \<Rightarrow> (string, u64) fmap \<Rightarrow>
   (checkpoint_state \<Rightarrow> (string, string fset) result) \<Rightarrow> (meta_error, checkpoint_manifest \<times> meta_store) result" where
  "fold_and_write c s identity supplemental scan =
     and_then (publication_state c s supplemental scan) (\<lambda>st.
       let m = (cs_manifest c st identity (ms_serial s))\<lparr>cm_generation := next_generation (ms_checkpoint s)\<rparr>
       in Inr (m, write_publication s st m (ms_serial s)))"

definition publish_checkpoint_with_sizes ::
  "codecs \<Rightarrow> meta_store \<Rightarrow> i64 \<Rightarrow> checkpoint_identity \<Rightarrow> (string, u64) fmap \<Rightarrow>
   (checkpoint_state \<Rightarrow> (string, string fset) result) \<Rightarrow> (meta_error, checkpoint_manifest \<times> meta_store) result" where
  "publish_checkpoint_with_sizes c s now identity supplemental scan =
     (case ct_manifest (ms_checkpoint s) of
        Some m \<Rightarrow>
          if pin_live (ms_checkpoint s) now \<or> publication_current (ms_checkpoint s) (ms_serial s) identity then Inr (m, s)
          else fold_and_write c s identity supplemental scan
      | None \<Rightarrow> fold_and_write c s identity supplemental scan)"

definition publish_checkpoint_with ::
  "codecs \<Rightarrow> meta_store \<Rightarrow> i64 \<Rightarrow> checkpoint_identity \<Rightarrow>
   (checkpoint_state \<Rightarrow> (string, string fset) result) \<Rightarrow> (meta_error, checkpoint_manifest \<times> meta_store) result" where
  "publish_checkpoint_with c s now identity scan = publish_checkpoint_with_sizes c s now identity fmempty scan"

definition publish_checkpoint ::
  "codecs \<Rightarrow> meta_store \<Rightarrow> i64 \<Rightarrow> checkpoint_identity \<Rightarrow> (meta_error, checkpoint_manifest \<times> meta_store) result" where
  "publish_checkpoint c s now identity =
     publish_checkpoint_with c s now identity (\<lambda>st. Inr (br_sha256 |`| cs_blobs st))"

section \<open>Serving a generation\<close>

definition PIN_LEASE_SECS :: i64 where
  "PIN_LEASE_SECS = 30"

definition PIN_MAX_LIFETIME_SECS :: i64 where
  "PIN_MAX_LIFETIME_SECS = 300"

definition current_generation :: "checkpoint_tables \<Rightarrow> u64" where
  "current_generation t = (case ct_manifest t of None \<Rightarrow> 0 | Some m \<Rightarrow> cm_generation m)"

definition checkpoint_chunk_from_generation ::
  "codecs \<Rightarrow> meta_store \<Rightarrow> checkpoint_cursor \<Rightarrow> usize \<Rightarrow> u64 option \<Rightarrow> (meta_error, checkpoint_chunk) result" where
  "checkpoint_chunk_from_generation c s cursor budget generation =
     (case generation of
        Some g \<Rightarrow>
          if g \<noteq> current_generation (ms_checkpoint s)
          then Inl (StaleCheckpointGeneration g (current_generation (ms_checkpoint s)))
          else Inr (checkpoint_chunk_at c (ms_checkpoint s) cursor budget)
      | None \<Rightarrow> Inr (checkpoint_chunk_at c (ms_checkpoint s) cursor budget))"

definition checkpoint_chunk_at_generation ::
  "codecs \<Rightarrow> meta_store \<Rightarrow> i64 \<Rightarrow> u64 \<Rightarrow> checkpoint_cursor \<Rightarrow> usize \<Rightarrow> (meta_error, checkpoint_chunk \<times> meta_store) result" where
  "checkpoint_chunk_at_generation c s now generation cursor budget =
     (let t = ms_checkpoint s; current = current_generation t in
      if generation \<noteq> current then Inl (StaleCheckpointGeneration generation current)
      else
        let started_at = (case ct_pin t of
              Some p \<Rightarrow> if pin_generation p = generation then pin_started_at p else now
            | None \<Rightarrow> now);
            deadline = i64_saturating_add started_at PIN_MAX_LIFETIME_SECS
        in if now \<ge> deadline then Inl (CheckpointGenerationExpired generation)
           else
             let pin = \<lparr>pin_generation = generation, pin_started_at = started_at,
                        pin_expires_at = min (i64_saturating_add now PIN_LEASE_SECS) deadline\<rparr>;
                 s' = s\<lparr>ms_checkpoint := t\<lparr>ct_pin := Some pin\<rparr>\<rparr>
             in and_then (checkpoint_chunk_from_generation c s' cursor budget (Some generation)) (\<lambda>chunk. Inr (chunk, s')))"

section \<open>Staging and installation\<close>

record staged_checkpoint =
  sc_manifest :: checkpoint_manifest
  sc_received :: u64
  sc_cursor :: string

datatype checkpoint_stage_error = OutOfOrder u64 u64 | Overrun u64 u64

definition begin_checkpoint_transfer :: "codecs \<Rightarrow> meta_store \<Rightarrow> checkpoint_manifest \<Rightarrow> meta_store" where
  "begin_checkpoint_transfer c s m =
     s\<lparr>ms_checkpoint := (ms_checkpoint s)\<lparr>ct_staging := fmempty,
        ct_staged := Some \<lparr>sh_manifest = m, sh_cursor = generation_token c cursor_start (cm_generation m)\<rparr>\<rparr>\<rparr>"

definition staged_pieces :: "meta_store \<Rightarrow> string list" where
  "staged_pieces s = map snd (sorted_list_of_fmap (ct_staging (ms_checkpoint s)))"

definition staged_checkpoint_of :: "meta_store \<Rightarrow> staged_checkpoint option" where
  "staged_checkpoint_of s =
     (case ct_staged (ms_checkpoint s) of
        None \<Rightarrow> None
      | Some h \<Rightarrow> Some \<lparr>sc_manifest = sh_manifest h,
           sc_received = foldl (\<lambda>n bytes. n + of_nat (length bytes)) 0 (staged_pieces s), sc_cursor = sh_cursor h\<rparr>)"

definition stage_checkpoint_chunk ::
  "meta_store \<Rightarrow> checkpoint_manifest \<Rightarrow> u64 \<Rightarrow> string \<Rightarrow> string \<Rightarrow> (checkpoint_stage_error, staged_checkpoint \<times> meta_store) result" where
  "stage_checkpoint_chunk s m offset bytes cursor =
     (let received = (case staged_checkpoint_of s of
            Some staged \<Rightarrow> if sc_manifest staged = m then sc_received staged else 0
          | None \<Rightarrow> 0)
      in if received \<noteq> offset then Inl (OutOfOrder offset received)
         else
           let total = u64_saturating_add received (of_nat (length bytes)) in
           if total > cm_bytes m then Inl (Overrun total (cm_bytes m))
           else Inr (\<lparr>sc_manifest = m, sc_received = total, sc_cursor = cursor\<rparr>,
                     s\<lparr>ms_checkpoint := (ms_checkpoint s)\<lparr>
                        ct_staging := fmupd offset bytes (ct_staging (ms_checkpoint s)),
                        ct_staged := Some \<lparr>sh_manifest = m, sh_cursor = cursor\<rparr>\<rparr>\<rparr>))"

definition discard_staged_checkpoint :: "meta_store \<Rightarrow> meta_store" where
  "discard_staged_checkpoint s = s\<lparr>ms_checkpoint := (ms_checkpoint s)\<lparr>ct_staging := fmempty, ct_staged := None\<rparr>\<rparr>"

definition decode_staged :: "codecs \<Rightarrow> meta_store \<Rightarrow> (checkpoint_install_error, decoded_checkpoint) result" where
  "decode_staged c s = decode_pieces c (staged_pieces s)"

definition AVAILABILITY_BLOB_VIEW :: string where
  "AVAILABILITY_BLOB_VIEW = ''blob''"

definition replace_state :: "meta_store \<Rightarrow> checkpoint_state \<Rightarrow> checkpoint_manifest \<Rightarrow> string \<Rightarrow> string \<Rightarrow> meta_store" where
  "replace_state s st m cursor_key cursor_value =
     (let serial = cm_serial m in
      s\<lparr>ms_driver := fmupd cursor_key cursor_value (cs_rows st),
        ms_journal := fmempty, ms_journal_mutations := fmempty, ms_journal_blobs := fmempty,
        ms_revocations := replace_digest_revocations (cs_revocations st),
        ms_checkpoint := (ms_checkpoint s)\<lparr>ct_rows := cs_rows st, ct_revocations := cs_revocations st,
          ct_blobs := foldl (\<lambda>t (k, n). fmupd k n t) fmempty (blob_rows (cs_blobs st)),
          ct_manifest := Some m, ct_blob_recovery := Some ''''\<rparr>,
        ms_retained_floor := Some (u64_saturating_add serial 1),
        ms_view_frontier := fmupd AVAILABILITY_BLOB_VIEW (u64_saturating_sub serial 1) (ms_view_frontier s),
        ms_serial := serial\<rparr>)"

definition install_staged_checkpoint ::
  "codecs \<Rightarrow> meta_store \<Rightarrow> string \<Rightarrow> string \<Rightarrow> (checkpoint_install_error, checkpoint_manifest \<times> meta_store) result" where
  "install_staged_checkpoint c s cursor_key cursor_value =
     (case staged_checkpoint_of s of
        None \<Rightarrow> Inl NotStaged
      | Some staged \<Rightarrow>
          let m = sc_manifest staged in
          if sc_received staged \<noteq> cm_bytes m then Inl (Incomplete (sc_received staged) (cm_bytes m))
          else and_then (decode_staged c s) (\<lambda>decoded.
            let st = dc_state decoded in
            and_then (map_err InstallVerify (check_counts
              [(''rows'', cm_rows m, of_nat (fcard (fmdom (cs_rows st)))),
               (''revocations'', cm_revocations m, of_nat (fcard (fmdom (cs_revocations st)))),
               (''blobs'', cm_blobs m, of_nat (fcard (cs_blobs st)))]))
              (\<lambda>_. if dc_digest decoded \<noteq> cm_digest m then Inl (InstallVerify (CheckpointDigest (cm_digest m) (dc_digest decoded)))
                   else Inr (m, discard_staged_checkpoint (replace_state s st m cursor_key cursor_value)))))"

section \<open>Recovering the blobs an installed checkpoint names\<close>

record checkpoint_blob_page =
  cbp_serial :: u64
  cbp_after :: string
  cbp_references :: "driver_blob_reference list"
  cbp_next :: "string option"

definition checkpoint_blob_recovery_page :: "meta_store \<Rightarrow> usize \<Rightarrow> (meta_error, checkpoint_blob_page option) result" where
  "checkpoint_blob_recovery_page s limit =
     (case ct_blob_recovery (ms_checkpoint s) of
        None \<Rightarrow> Inr None
      | Some after \<Rightarrow>
          (case ct_manifest (ms_checkpoint s) of
             None \<Rightarrow> Inl (CheckpointReferences ''blob recovery has no checkpoint manifest'')
           | Some m \<Rightarrow>
               let references = map (\<lambda>(k, n). DriverBlobReference k n)
                     (take (limit + 1) (rows_after (if after = [] then None else Some after) (ct_blobs (ms_checkpoint s))))
               in Inr (Some \<lparr>cbp_serial = cm_serial m, cbp_after = after,
                     cbp_references = take limit references,
                     cbp_next = (if length references > limit then Some (br_sha256 (references ! (limit - 1))) else None)\<rparr>)))"

definition advance_checkpoint_blob_recovery ::
  "meta_store \<Rightarrow> string \<Rightarrow> string option \<Rightarrow> string \<Rightarrow> u64 \<Rightarrow> (meta_error, meta_store) result" where
  "advance_checkpoint_blob_recovery s expected_after next_after view serial =
     (if ct_blob_recovery (ms_checkpoint s) \<noteq> Some expected_after
      then Inl (DriverPrecondition ''checkpoint blob recovery cursor moved'')
      else case next_after of
        Some k \<Rightarrow> Inr (s\<lparr>ms_checkpoint := (ms_checkpoint s)\<lparr>ct_blob_recovery := Some k\<rparr>\<rparr>)
      | None \<Rightarrow> Inr (s\<lparr>ms_checkpoint := (ms_checkpoint s)\<lparr>ct_blob_recovery := None\<rparr>,
                     ms_view_frontier := fmupd view serial (ms_view_frontier s)\<rparr>))"

section \<open>The replicated state of a log\<close>

definition log_rows :: "journal_entry list \<Rightarrow> (string, string) fmap" where
  "log_rows log = foldl apply_mutation fmempty (concat (map je_mutations log))"

definition server_records :: "codecs \<Rightarrow> journal_entry \<Rightarrow> digest_revocation list" where
  "server_records c e = (case dec_server c (je_payload e) of Inr (Some (DigestRevocationMutation r)) \<Rightarrow> [r] | _ \<Rightarrow> [])"

definition put_revocation_row :: "(string, digest_revocation) fmap \<Rightarrow> digest_revocation \<Rightarrow> (string, digest_revocation) fmap" where
  "put_revocation_row m r = fmupd (canonical (dr_digest r)) r m"

definition log_revocations :: "codecs \<Rightarrow> journal_entry list \<Rightarrow> (string, digest_revocation) fmap" where
  "log_revocations c log = foldl put_revocation_row fmempty (concat (map (server_records c) log))"

definition log_decodes :: "codecs \<Rightarrow> journal_entry list \<Rightarrow> bool" where
  "log_decodes c log \<longleftrightarrow> (\<forall>e \<in> set log. \<exists>d. dec_server c (je_payload e) = Inr d)"

lemma log_decodes_append [simp]: "log_decodes c (a @ b) \<longleftrightarrow> log_decodes c a \<and> log_decodes c b"
  by (auto simp: log_decodes_def)

lemma log_decodes_take: "log_decodes c log \<Longrightarrow> log_decodes c (take n log)"
  by (auto simp: log_decodes_def dest: in_set_takeD)

lemma log_decodes_drop: "log_decodes c log \<Longrightarrow> log_decodes c (drop n log)"
  by (auto simp: log_decodes_def dest: in_set_dropD)

lemma log_rows_append: "log_rows (a @ b) = foldl apply_mutation (log_rows a) (concat (map je_mutations b))"
  by (simp add: log_rows_def)

lemma log_revocations_append:
  "log_revocations c (a @ b) = foldl put_revocation_row (log_revocations c a) (concat (map (server_records c) b))"
  by (simp add: log_revocations_def)

definition cs_apply_entry :: "codecs \<Rightarrow> checkpoint_state \<Rightarrow> journal_entry \<Rightarrow> checkpoint_state" where
  "cs_apply_entry c st e = st\<lparr>cs_rows := foldl apply_mutation (cs_rows st) (je_mutations e),
     cs_revocations := foldl put_revocation_row (cs_revocations st) (server_records c e),
     cs_blobs := cs_blobs st |\<union>| fset_of_list (je_blobs e)\<rparr>"

lemma cs_apply_record_at:
  assumes "i < length log" "log_decodes c log"
  shows "cs_apply_record c st (record_at log i) = Inr (cs_apply_entry c st (log ! i))"
proof -
  obtain d where "dec_server c (je_payload (log ! i)) = Inr d" using assms unfolding log_decodes_def by (meson nth_mem)
  then show ?thesis
    by (cases d) (auto simp: cs_apply_record_def record_at_def cs_apply_def cs_apply_entry_def server_records_def
        put_revocation_row_def Let_def split: server_mutation.splits)
qed

lemma try_fold_Inr: "(\<And>st x. x \<in> set xs \<Longrightarrow> f st x = Inr (g st x)) \<Longrightarrow> try_fold f st xs = Inr (foldl g st xs)"
  by (induction xs arbitrary: st) auto

lemma fold_entries:
  "cs_rows (foldl (cs_apply_entry c) st es) = foldl apply_mutation (cs_rows st) (concat (map je_mutations es))"
  "cs_revocations (foldl (cs_apply_entry c) st es) = foldl put_revocation_row (cs_revocations st) (concat (map (server_records c) es))"
  by (induction es arbitrary: st) (simp_all add: cs_apply_entry_def)

text \<open>Folding the journal from a cursor it still covers applies exactly the entries after the cursor.\<close>

lemma fold_journal_eq:
  assumes "journal_matches log s" "log_decodes c log" "unat (retained_from s) \<le> Suc (unat base)"
  shows "fold_journal c s st base (ms_serial s) = Inr (foldl (cs_apply_entry c) st (drop (unat base) log))"
proof -
  have serial: "unat (ms_serial s) = length log" using assms(1) by (simp add: journal_matches_def unat_u64_of_nat)
  have all: "filter (\<lambda>(n, _). n \<le> ms_serial s) (rows_after (Some base) (ms_journal s)) = rows_after (Some base) (ms_journal s)"
  proof (rule filter_True, clarify)
    fix n p assume "(n, p) \<in> set (rows_after (Some base) (ms_journal s))"
    then have "fmlookup (ms_journal s) n = Some p" by (auto simp: rows_after_def)
    from journal_key_is_position [OF assms(1) this] obtain i where "i < length log" "unat n = Suc i" by blast
    then show "n \<le> ms_serial s" using serial by (simp add: word_le_nat_alt)
  qed
  have "try_fold (cs_apply_record c) st (map (record_at log) is) = Inr (foldl (cs_apply_entry c) st (map ((!) log) is))"
    if "\<forall>i \<in> set is. i < length log" for "is"
    using that assms(2) by (induction "is" arbitrary: st) (simp_all add: cs_apply_record_at)
  moreover have "map ((!) log) [unat base ..< length log] = drop (unat base) log" by (rule nth_equalityI) auto
  ultimately show ?thesis
    unfolding fold_journal_def all journal_records_after [OF assms(1,3)] by simp
qed

section \<open>Publication keeps the log\<close>

lemma retain_blobs_keeps:
  assumes "retain_blobs st digests supplemental = Inr st'"
  shows "cs_rows st' = cs_rows st" "cs_revocations st' = cs_revocations st"
  using assms by (auto simp: retain_blobs_def Let_def split: prod.splits if_splits)

text \<open>The published checkpoint is the fold of the log through its serial, its digest is that of a state with these
  rows and revocations, and the journal above it is retained.\<close>

definition publishes :: "codecs \<Rightarrow> journal_entry list \<Rightarrow> checkpoint_manifest \<Rightarrow> checkpoint_state \<Rightarrow> bool" where
  "publishes c log m st \<longleftrightarrow> unat (cm_serial m) \<le> length log
     \<and> cs_rows st = log_rows (take (unat (cm_serial m)) log)
     \<and> cs_revocations st = log_revocations c (take (unat (cm_serial m)) log)
     \<and> cm_digest m = sha256_hex c (cs_canonical c st) \<and> state_ok c st"

definition publication_ok :: "codecs \<Rightarrow> journal_entry list \<Rightarrow> meta_store \<Rightarrow> bool" where
  "publication_ok c log s \<longleftrightarrow>
     (case ct_manifest (ms_checkpoint s) of
        None \<Rightarrow> ms_retained_floor s = None
      | Some m \<Rightarrow> ms_retained_floor s = Some (u64_saturating_add (cm_serial m) 1)
          \<and> (\<exists>st. publishes c log m st \<and> cs_rows st = ct_rows (ms_checkpoint s) \<and> cs_revocations st = ct_revocations (ms_checkpoint s)))"

lemma publishes_grow: "publishes c log m st \<Longrightarrow> publishes c (log @ es) m st"
  by (auto simp: publishes_def)

lemma publication_ok_grow:
  assumes "publication_ok c log s" "ms_retained_floor s' = ms_retained_floor s"
    and "ct_manifest (ms_checkpoint s') = ct_manifest (ms_checkpoint s)" "ct_rows (ms_checkpoint s') = ct_rows (ms_checkpoint s)"
    "ct_revocations (ms_checkpoint s') = ct_revocations (ms_checkpoint s)"
  shows "publication_ok c (log @ es) s'"
  using assms publishes_grow by (fastforce simp: publication_ok_def split: option.splits)

lemma retained_covers_checkpoint:
  assumes "publication_ok c log s"
  shows "unat (retained_from s) \<le> Suc (unat (case published_checkpoint s of None \<Rightarrow> 0 | Some (m, _) \<Rightarrow> cm_serial m))"
  using assms
  by (auto simp: publication_ok_def retained_from_def published_checkpoint_def unat_u64_saturating_add split: option.splits)

lemma publication_state_eq:
  assumes "journal_matches log s" "log_decodes c log" "publication_ok c log s"
    and "publication_state c s supplemental scan = Inr st"
  shows "cs_rows st = log_rows log" "cs_revocations st = log_revocations c log"
proof -
  let ?p = "published_checkpoint s"
  let ?base = "case ?p of None \<Rightarrow> 0 | Some (m, _) \<Rightarrow> cm_serial m"
  let ?st0 = "case ?p of None \<Rightarrow> checkpoint_state_default | Some (_, st) \<Rightarrow> st"
  let ?st1 = "foldl (cs_apply_entry c) ?st0 (drop (unat ?base) log)"
  have base: "cs_rows ?st0 = log_rows (take (unat ?base) log)" "cs_revocations ?st0 = log_revocations c (take (unat ?base) log)"
    using assms(3)
    by (auto simp: published_checkpoint_def publication_ok_def publishes_def tables_state_def checkpoint_state_default_def
        log_rows_def log_revocations_def split: option.splits)
  obtain live where "retain_blobs ?st1 live supplemental = Inr st"
    using assms(4) fold_journal_eq [OF assms(1,2) retained_covers_checkpoint [OF assms(3)], of ?st0]
    by (auto simp: publication_state_def Let_def and_then_Inr_iff)
  note kept = retain_blobs_keeps [OF this]
  show "cs_rows st = log_rows log"
    using kept(1) base(1) log_rows_append [of "take (unat ?base) log" "drop (unat ?base) log"] by (simp add: fold_entries)
  show "cs_revocations st = log_revocations c log"
    using kept(2) base(2) log_revocations_append [of c "take (unat ?base) log" "drop (unat ?base) log"] by (simp add: fold_entries)
qed

lemma publish_cases:
  assumes "publish_checkpoint_with_sizes c s now identity supplemental scan = Inr (m, s')"
  obtains "s' = s" "ct_manifest (ms_checkpoint s) = Some m"
  | st where "publication_state c s supplemental scan = Inr st"
      "m = (cs_manifest c st identity (ms_serial s))\<lparr>cm_generation := next_generation (ms_checkpoint s)\<rparr>"
      "s' = write_publication s st m (ms_serial s)"
proof -
  have "(s' = s \<and> ct_manifest (ms_checkpoint s) = Some m) \<or> fold_and_write c s identity supplemental scan = Inr (m, s')"
    using assms by (auto simp: publish_checkpoint_with_sizes_def split: option.splits if_splits)
  then show thesis
  proof
    assume "fold_and_write c s identity supplemental scan = Inr (m, s')"
    then obtain st where "publication_state c s supplemental scan = Inr st"
      "m = (cs_manifest c st identity (ms_serial s))\<lparr>cm_generation := next_generation (ms_checkpoint s)\<rparr>"
      "s' = write_publication s st m (ms_serial s)"
      unfolding fold_and_write_def and_then_Inr_iff Let_def by blast
    then show thesis by (rule that(2))
  qed (use that(1) in blast)
qed

lemma journal_matches_raise:
  assumes "journal_matches log s" "retained_from s \<le> retained_from s'" "ms_serial s' = ms_serial s"
    and "ms_journal s' = ms_journal s" "ms_journal_mutations s' = ms_journal_mutations s" "ms_journal_blobs s' = ms_journal_blobs s"
  shows "journal_matches log s'"
proof -
  note m = assms(1) [unfolded journal_matches_def]
  have rec: "journal_record_of s' e = journal_record_of s e" for e using assms by (simp add: journal_record_of_def)
  have le: "unat (retained_from s) \<le> unat (retained_from s')" using assms(2) by (simp add: word_le_nat_alt)
  show ?thesis
    unfolding journal_matches_def rec assms(3-6)
  proof (intro conjI)
    show "\<forall>i. i < length log \<longrightarrow> unat (retained_from s') \<le> Suc i \<longrightarrow> fmlookup (ms_journal s) (of_nat (Suc i)) \<noteq> None"
      using m le by (meson le_trans)
  qed (use m in blast)+
qed

lemma publish_ok:
  assumes "journal_matches log s" "log_decodes c log" "publication_ok c log s"
    and "publish_checkpoint_with_sizes c s now identity supplemental scan = Inr (m, s')"
    and "\<And>st. publication_state c s supplemental scan = Inr st \<Longrightarrow> state_ok c st"
  shows "publication_ok c log s'" "journal_matches log s'" "\<exists>st. publishes c log m st"
proof -
  have serial: "unat (ms_serial s) = length log" "ms_serial s = of_nat (length log)"
    using assms(1) by (simp_all add: journal_matches_def unat_u64_of_nat)
  show "publication_ok c log s'" "journal_matches log s'" "\<exists>st. publishes c log m st"
    using assms(4)
  proof (atomize (full), cases rule: publish_cases)
    case 1
    then show "publication_ok c log s' \<and> journal_matches log s' \<and> (\<exists>st. publishes c log m st)"
      using assms(1,3) by (auto simp: publication_ok_def)
  next
    case (2 st)
    note eq = publication_state_eq [OF assms(1-3) 2(1)]
    have pub: "publishes c log m st"
      using eq serial assms(5) [OF 2(1)] by (simp add: publishes_def 2(2) cs_manifest_def Let_def)
    have "publication_ok c log s'"
      using pub by (auto simp: publication_ok_def 2(2,3) write_publication_def cs_manifest_def Let_def)
    moreover have "journal_matches log s'"
    proof -
      have "retained_from s \<le> u64_saturating_add (ms_serial s) 1"
        using retained_covers_checkpoint [OF assms(3)] assms(3) serial unat_u64_less [of "retained_from s"]
        by (auto simp: published_checkpoint_def publication_ok_def publishes_def word_le_nat_alt unat_u64_saturating_add
            min_def split: option.splits)
      then show ?thesis
        by (intro journal_matches_raise [OF assms(1)]) (simp_all add: 2(3) write_publication_def retained_from_def)
    qed
    ultimately show "publication_ok c log s' \<and> journal_matches log s' \<and> (\<exists>st. publishes c log m st)"
      using pub by blast
  qed
qed

section \<open>Installation\<close>

lemma take_entry_hashed: "take_entry c d = Inr (d', b) \<Longrightarrow> cd_hashed d' = cd_hashed d"
  by (auto simp: take_entry_def split: list.splits option.splits if_splits)

lemma drain_hashed: "drain_entries c d = Inr d' \<Longrightarrow> cd_hashed d' = cd_hashed d"
proof (induction c d rule: drain_entries.induct)
  case (1 c d)
  show ?case
  proof (cases "take_entry c d")
    case (Inr r)
    obtain d1 b where r: "r = (d1, b)" by force
    show ?thesis using 1(1) [OF Inr r [symmetric]] 1(2) Inr r take_entry_hashed [of c d d1 b]
      by (cases b) (simp_all add: drain_entries.simps [of c d])
  qed (use 1(2) in \<open>simp add: drain_entries.simps [of c d]\<close>)
qed

lemma decode_digest:
  assumes "decode_pieces c pieces = Inr decoded"
  shows "dc_digest decoded = sha256_hex c (concat pieces)"
proof -
  from assms obtain d where "drain_entries c (decoder_extend canonical_decoder_default (concat pieces)) = Inr d"
    "decoder_finish c d = Inr decoded"
    unfolding decode_pieces_def push_pieces [OF drain_default] by (auto simp: and_then_Inr_iff)
  with drain_hashed show ?thesis
    by (fastforce simp: decoder_finish_def decoder_extend_def canonical_decoder_default_def split: if_splits)
qed

lemma install_decoded:
  assumes "install_staged_checkpoint c s k v = Inr (m, s')"
  obtains st h where "ct_staged (ms_checkpoint s) = Some h" "sh_manifest h = m"
    "decode_pieces c (staged_pieces s) = Inr \<lparr>dc_state = st, dc_digest = cm_digest m\<rparr>"
    "s' = discard_staged_checkpoint (replace_state s st m k v)"
proof -
  from assms obtain h where h: "ct_staged (ms_checkpoint s) = Some h"
    by (auto simp: install_staged_checkpoint_def staged_checkpoint_of_def split: option.splits)
  from assms h obtain decoded where d: "sh_manifest h = m" "decode_staged c s = Inr decoded" "dc_digest decoded = cm_digest m"
    "s' = discard_staged_checkpoint (replace_state s (dc_state decoded) m k v)"
    by (auto simp: install_staged_checkpoint_def staged_checkpoint_of_def and_then_Inr_iff Let_def split: if_splits)
  show thesis by (rule that [OF h d(1)]) (use d in \<open>simp_all add: decode_staged_def\<close>)
qed

text \<open>The bytes staged for a manifest that publishes a state do not merely share that state's digest.\<close>

definition no_collision :: "codecs \<Rightarrow> meta_store \<Rightarrow> checkpoint_state \<Rightarrow> bool" where
  "no_collision c s st \<longleftrightarrow>
     (sha256_hex c (concat (staged_pieces s)) = sha256_hex c (cs_canonical c st) \<longrightarrow> concat (staged_pieces s) = cs_canonical c st)"

lemma install_published:
  assumes "install_staged_checkpoint c s k v = Inr (m, s')" "codec_laws c"
    and "cm_digest m = sha256_hex c (cs_canonical c st)" "state_ok c st" "no_collision c s st"
  shows "s' = discard_staged_checkpoint (replace_state s st m k v)"
proof -
  from install_decoded [OF assms(1)] obtain st' where st':
    "decode_pieces c (staged_pieces s) = Inr \<lparr>dc_state = st', dc_digest = cm_digest m\<rparr>"
    "s' = discard_staged_checkpoint (replace_state s st' m k v)" by metis
  have "concat (staged_pieces s) = cs_canonical c st"
    using decode_digest [OF st'(1)] assms(3,5) by (simp add: no_collision_def)
  from decode_canonical [OF assms(4,2) this] st' show ?thesis by simp
qed



section \<open>Witnesses\<close>

definition sample_identity :: checkpoint_identity where
  "sample_identity = \<lparr>ci_source = ''a'', ci_protocol_version = 1, ci_schema_version = 1\<rparr>"

definition sample_state :: checkpoint_state where
  "sample_state = \<lparr>cs_rows = fmupd ''k'' ''v'' fmempty, cs_revocations = fmempty, cs_blobs = {||}\<rparr>"

definition sample_manifest :: checkpoint_manifest where
  "sample_manifest = (cs_manifest sample_codecs sample_state sample_identity 1)\<lparr>cm_generation := 1\<rparr>"

definition staged_store :: meta_store where
  "staged_store = meta_store_empty\<lparr>ms_checkpoint := checkpoint_tables_empty\<lparr>
     ct_staging := fmupd 0 (cs_canonical sample_codecs sample_state) fmempty,
     ct_staged := Some \<lparr>sh_manifest = sample_manifest, sh_cursor = ''g1:done''\<rparr>\<rparr>\<rparr>"

definition installed_store :: meta_store where
  "installed_store = discard_staged_checkpoint (replace_state staged_store sample_state sample_manifest ''s'' ''1'')"

lemma sample_state_state_ok: "state_ok sample_codecs sample_state"
proof -
  have "sorted_list_of_fmap (cs_rows sample_state) = [(''k'', ''v'')]" by code_simp
  moreover have "sorted_list_of_fmap (cs_revocations sample_state) = []" "blob_rows (cs_blobs sample_state) = []"
    by (simp_all add: sample_state_def sorted_list_of_fmap_def sorted_list_of_fset.rep_eq blob_rows_def)
  ultimately show ?thesis by (simp add: state_ok_def key_ok_def)
qed

lemma staged_pieces_sample: "staged_pieces staged_store = [cs_canonical sample_codecs sample_state]"
proof -
  have "sorted_list_of_fmap (fmupd 0 x fmempty) = [(0 :: u64, x)]" for x :: string
    by (simp add: sorted_list_of_fmap_def sorted_list_of_fset.rep_eq)
  then show ?thesis by (simp add: staged_pieces_def staged_store_def)
qed

lemma sample_install: "install_staged_checkpoint sample_codecs staged_store ''s'' ''1'' = Inr (sample_manifest, installed_store)"
proof -
  have "decode_staged sample_codecs staged_store =
      Inr \<lparr>dc_state = sample_state, dc_digest = sha256_hex sample_codecs (cs_canonical sample_codecs sample_state)\<rparr>"
    unfolding decode_staged_def staged_pieces_sample
    by (rule decode_canonical [OF sample_state_state_ok sample_codec_laws]) simp
  moreover have "staged_checkpoint_of staged_store = Some \<lparr>sc_manifest = sample_manifest,
      sc_received = of_nat (length (cs_canonical sample_codecs sample_state)), sc_cursor = ''g1:done''\<rparr>"
    unfolding staged_checkpoint_of_def staged_pieces_sample by (simp add: staged_store_def)
  ultimately show ?thesis
    by (simp add: install_staged_checkpoint_def Let_def sample_manifest_def cs_manifest_def installed_store_def)
qed



end
