(* ===== verification/Replica.thy ===== *)
theory Replica
  imports Checkpoint
begin

text \<open>
  Replication in \<open>peryx-ha-distributed/src\<close>: the change pages a writer builds (\<open>change_page.rs\<close>, \<open>protocol.rs\<close>),
  and the replica that validates and applies them or installs a checkpoint (\<open>replica.rs\<close>). Pages are the decoded
  values; \<open>wire\<close> holds what \<open>serde_json\<close> does to them: the encoded size of a change and the encoding of the stored
  cursor. A checkpoint's peer is the list of windows it answers with, of which nothing is assumed.
\<close>

section \<open>Pages\<close>

definition PROTOCOL_VERSION :: u16 where
  "PROTOCOL_VERSION = 1"

definition SCHEMA_VERSION :: u16 where
  "SCHEMA_VERSION = 1"

record change =
  ch_serial :: u64
  ch_event :: string
  ch_metadata :: "driver_mutation list"
  ch_blobs :: "driver_blob_reference list"

record change_page =
  cp_version :: u16
  cp_source :: string
  cp_after :: u64
  cp_current_serial :: u64
  cp_changes :: "change list"

record replica_state =
  rs_source :: string
  rs_serial :: u64

record wire =
  change_size :: "change \<Rightarrow> nat"
  enc_state :: "replica_state \<Rightarrow> string"
  dec_state :: "string \<Rightarrow> replica_state option"

text \<open>A stored cursor reads back, and no buffer is longer than \<open>isize::MAX\<close>.\<close>

definition wire_laws :: "wire \<Rightarrow> bool" where
  "wire_laws w \<longleftrightarrow> (\<forall>st. dec_state w (enc_state w st) = Some st) \<and> (\<forall>ch. change_size w ch < 2 ^ 63)"

definition MAX_CHANGE_PAGE_BYTES :: u64 where
  "MAX_CHANGE_PAGE_BYTES = 4 * 1024 * 1024"

definition CHANGE_PAGE_ENVELOPE_BYTES :: u64 where
  "CHANGE_PAGE_ENVELOPE_BYTES = 4 * 1024"

datatype change_page_body =
  Encoded change_page
| RecordTooLarge u64 u64
| BelowFloor
| Unsynced
| PageCancelled
| PageFailed

definition below_floor :: "u64 \<Rightarrow> u64 \<Rightarrow> u64 option \<Rightarrow> bool" where
  "below_floor after current floor_serial =
     (case floor_serial of Some f \<Rightarrow> u64_saturating_add after 1 < f | None \<Rightarrow> after < current)"

definition change_of :: "journal_record \<Rightarrow> change" where
  "change_of r = \<lparr>ch_serial = jr_serial r, ch_event = jr_payload r, ch_metadata = jr_mutations r, ch_blobs = jr_blobs r\<rparr>"

text \<open>The visitor's state; \<open>cancelled n\<close> is what the \<open>n\<close>-th look at the cancellation flag sees.\<close>

record page_walk =
  pw_changes :: "change list"
  pw_used :: u64
  pw_oversized :: "(u64 \<times> u64) option"
  pw_polls :: nat

definition page_visit :: "wire \<Rightarrow> (nat \<Rightarrow> bool) \<Rightarrow> page_walk \<Rightarrow> journal_record \<Rightarrow> page_walk \<times> bool" where
  "page_visit w cancelled v record =
     (let v1 = v\<lparr>pw_polls := Suc (pw_polls v)\<rparr> in
      if cancelled (pw_polls v) then (v1, True)
      else
        let ch = change_of record; bytes = of_nat (change_size w ch) :: u64 in
        if pw_used v + bytes + 1 > MAX_CHANGE_PAGE_BYTES
        then (if pw_changes v = [] then v1\<lparr>pw_oversized := Some (ch_serial ch, bytes)\<rparr> else v1, True)
        else (v1\<lparr>pw_used := pw_used v + bytes + 1, pw_changes := pw_changes v @ [ch]\<rparr>, False))"

definition build_change_page :: "wire \<Rightarrow> meta_store \<Rightarrow> string \<Rightarrow> u64 \<Rightarrow> usize \<Rightarrow> (nat \<Rightarrow> bool) \<Rightarrow> change_page_body" where
  "build_change_page w s source after limit cancelled =
     (case visit_retained_journal_page s after limit (page_visit w cancelled)
         \<lparr>pw_changes = [], pw_used = CHANGE_PAGE_ENVELOPE_BYTES, pw_oversized = None, pw_polls = 0\<rparr> of
        (v, current, floor_serial) \<Rightarrow>
          if below_floor after current floor_serial then BelowFloor
          else if cancelled (pw_polls v) then PageCancelled
          else (case pw_oversized v of
                  Some (serial, bytes) \<Rightarrow> RecordTooLarge serial bytes
                | None \<Rightarrow> Encoded \<lparr>cp_version = PROTOCOL_VERSION, cp_source = source, cp_after = after,
                            cp_current_serial = current, cp_changes = pw_changes v\<rparr>))"

section \<open>The replica\<close>

definition REPLICA_KEY_PREFIX :: string where
  "REPLICA_KEY_PREFIX = ''replication'' @ [CHR 0x00]"

definition REPLICA_STATE_KEY :: string where
  "REPLICA_STATE_KEY = REPLICA_KEY_PREFIX @ ''state''"

datatype sync_error =
  SyncPrimary
| SyncStore meta_error
| SyncBlob string
| SyncState
| UnsupportedVersion u16 u16
| UnsupportedCheckpointSchema u32 u32
| EmptySource
| WrongPageStart u64 u64
| SerialGap u64 u64
| PrimaryBehind u64 u64
| MissingChanges u64 u64
| PageTooLarge usize usize
| SourceChanged string string
| LocalSerialMismatch u64 u64
| InvalidDigest string
| SyncCheckpoint checkpoint_install_error
| SyncCheckpointChunk checkpoint_stage_error
| CheckpointView string
| ConflictingBlobSize string u64 u64
| BlobSizeMismatch string u64 u64
| ReservedMetadataKey string
| BlobFetchFailed string string

record sync_outcome =
  so_changes :: usize
  so_serial :: u64
  so_primary_serial :: u64

definition caught_up :: "sync_outcome \<Rightarrow> bool" where
  "caught_up o1 \<longleftrightarrow> so_serial o1 = so_primary_serial o1"

record applied_page =
  ap_outcome :: sync_outcome
  ap_changed_keys :: "string list"
  ap_referenced :: "(digest \<times> u64) list"
  ap_revocations :: "artifact_digest list"

definition stored_state :: "wire \<Rightarrow> meta_store \<Rightarrow> (sync_error, replica_state option) result" where
  "stored_state w s =
     (case fmlookup (ms_driver s) REPLICA_STATE_KEY of
        None \<Rightarrow> Inr None
      | Some raw \<Rightarrow> (case dec_state w raw of None \<Rightarrow> Inl SyncState | Some st \<Rightarrow> Inr (Some st)))"

definition cursor_of :: "replica_state option \<Rightarrow> u64" where
  "cursor_of st = (case st of None \<Rightarrow> 0 | Some r \<Rightarrow> rs_serial r)"

definition replica_state_of :: "wire \<Rightarrow> meta_store \<Rightarrow> (sync_error, replica_state option) result" where
  "replica_state_of w s =
     and_then (stored_state w s) (\<lambda>st.
       if ms_serial s \<noteq> cursor_of st then Inl (LocalSerialMismatch (cursor_of st) (ms_serial s)) else Inr st)"

record validated_change =
  vc_event :: string
  vc_server :: "server_mutation option"
  vc_metadata :: "driver_mutation list"
  vc_blobs :: "(digest \<times> u64) list"

record validated_page =
  vp_source :: string
  vp_through :: u64
  vp_primary_serial :: u64
  vp_changes :: "validated_change list"
  vp_changed_keys :: "string fset"
  vp_referenced :: "(string, digest \<times> u64) fmap"

definition starts_with :: "string \<Rightarrow> string \<Rightarrow> bool" where
  "starts_with s p \<longleftrightarrow> take (length p) s = p"

fun validate_keys :: "driver_mutation list \<Rightarrow> string fset \<Rightarrow> (sync_error, string fset) result" where
  "validate_keys [] keys = Inr keys"
| "validate_keys (m # ms) keys =
     (if starts_with (mutation_key m) REPLICA_KEY_PREFIX then Inl (ReservedMetadataKey (mutation_key m))
      else validate_keys ms (finsert (mutation_key m) keys))"

fun validate_blobs ::
  "driver_blob_reference list \<Rightarrow> (string, digest \<times> u64) fmap \<Rightarrow> (digest \<times> u64) list \<Rightarrow>
   (sync_error, (string, digest \<times> u64) fmap \<times> (digest \<times> u64) list) result" where
  "validate_blobs [] referenced blobs = Inr (referenced, blobs)"
| "validate_blobs (b # bs) referenced blobs =
     (case digest_from_hex (br_sha256 b) of
        None \<Rightarrow> Inl (InvalidDigest (br_sha256 b))
      | Some digest \<Rightarrow>
          let referenced' = fmupd (br_sha256 b) (digest, br_size b) referenced in
          case fmlookup referenced (br_sha256 b) of
            Some (_, first) \<Rightarrow>
              if first \<noteq> br_size b then Inl (ConflictingBlobSize (br_sha256 b) first (br_size b))
              else validate_blobs bs referenced' (blobs @ [(digest, br_size b)])
          | None \<Rightarrow> validate_blobs bs referenced' (blobs @ [(digest, br_size b)]))"

definition validate_change :: "codecs \<Rightarrow> validated_page \<Rightarrow> change \<Rightarrow> (sync_error, validated_page) result" where
  "validate_change c v ch =
     (if u64_checked_sub (ch_serial ch) 1 \<noteq> Some (vp_through v) then Inl (SerialGap (vp_through v) (ch_serial ch))
      else
        and_then (validate_keys (ch_metadata ch) (vp_changed_keys v)) (\<lambda>keys.
        and_then (validate_blobs (ch_blobs ch) (vp_referenced v) []) (\<lambda>(referenced, blobs).
        and_then (map_err SyncStore (dec_server c (ch_event ch))) (\<lambda>server.
          Inr (v\<lparr>vp_through := ch_serial ch, vp_changed_keys := keys, vp_referenced := referenced,
                 vp_changes := vp_changes v @ [\<lparr>vc_event = ch_event ch, vc_server = server, vc_metadata = ch_metadata ch, vc_blobs = blobs\<rparr>]\<rparr>)))))"

definition validated_page_new ::
  "codecs \<Rightarrow> change_page \<Rightarrow> u64 \<Rightarrow> usize \<Rightarrow> replica_state option \<Rightarrow> (sync_error, validated_page) result" where
  "validated_page_new c page after limit state =
     (if cp_version page \<noteq> PROTOCOL_VERSION then Inl (UnsupportedVersion (cp_version page) PROTOCOL_VERSION)
      else if cp_source page = [] then Inl EmptySource
      else if cp_after page \<noteq> after then Inl (WrongPageStart after (cp_after page))
      else if length (cp_changes page) > limit then Inl (PageTooLarge limit (length (cp_changes page)))
      else if (case state of Some st \<Rightarrow> rs_source st \<noteq> cp_source page | None \<Rightarrow> False)
        then Inl (SourceChanged (case state of Some st \<Rightarrow> rs_source st | None \<Rightarrow> []) (cp_source page))
      else and_then (try_fold (validate_change c)
             \<lparr>vp_source = cp_source page, vp_through = after, vp_primary_serial = cp_current_serial page, vp_changes = [],
              vp_changed_keys = {||}, vp_referenced = fmempty\<rparr> (cp_changes page)) (\<lambda>v.
        if cp_current_serial page < vp_through v then Inl (PrimaryBehind (cp_current_serial page) (vp_through v))
        else if vp_changes v = [] \<and> cp_current_serial page > after then Inl (MissingChanges after (cp_current_serial page))
        else Inr v))"

text \<open>The body of the replica's transaction.\<close>

fun apply_metadata :: "driver_txn \<Rightarrow> driver_mutation \<Rightarrow> driver_txn" where
  "apply_metadata d (MutPut key v) = txn_put d key v"
| "apply_metadata d (MutDelete key) = snd (txn_remove d key)"

definition apply_change :: "driver_txn \<times> journal_entry list \<Rightarrow> validated_change \<Rightarrow> (meta_error, driver_txn \<times> journal_entry list) result" where
  "apply_change dj ch =
     (let d = foldl apply_metadata (fst dj) (vc_metadata ch);
          entry = \<lparr>je_payload = vc_event ch, je_mutations = vc_metadata ch,
                   je_blobs = map (\<lambda>(digest, n). DriverBlobReference digest n) (vc_blobs ch)\<rparr>
      in and_then (case vc_server ch of None \<Rightarrow> Inr d | Some server \<Rightarrow> txn_apply_server_mutation d server)
           (\<lambda>d'. Inr (d', snd dj @ [entry])))"

definition replica_body ::
  "validated_change list \<Rightarrow> string \<Rightarrow> driver_txn \<Rightarrow> (meta_error, (unit \<times> journal_entry list) \<times> driver_txn) result" where
  "replica_body changes next_state d =
     and_then (try_fold apply_change (d, []) changes) (\<lambda>(d', journal).
       Inr (((), journal), txn_put_local d' REPLICA_STATE_KEY next_state))"

definition page_revocations :: "validated_change list \<Rightarrow> artifact_digest list" where
  "page_revocations changes =
     List.map_filter (\<lambda>ch. case vc_server ch of Some (DigestRevocationMutation r) \<Rightarrow> Some (dr_digest r) | None \<Rightarrow> None) changes"

fun txn_error_of :: "meta_error txn_error \<Rightarrow> meta_error" where
  "txn_error_of (StoreError e) = e"
| "txn_error_of (BodyError e) = e"

definition apply_page ::
  "codecs \<Rightarrow> wire \<Rightarrow> meta_store \<Rightarrow> usize \<Rightarrow> bool \<Rightarrow> i64 \<Rightarrow> change_page \<Rightarrow> (sync_error, applied_page \<times> meta_store) result" where
  "apply_page c w s page_limit owned now page =
     and_then (replica_state_of w s) (\<lambda>state.
       let after = cursor_of state in
       and_then (validated_page_new c page after page_limit state) (\<lambda>v.
         let referenced = map snd (sorted_list_of_fmap (vp_referenced v)) in
         if vp_changes v = []
         then Inr (\<lparr>ap_outcome = \<lparr>so_changes = 0, so_serial = after, so_primary_serial = vp_primary_serial v\<rparr>,
                    ap_changed_keys = [], ap_referenced = referenced, ap_revocations = []\<rparr>, s)
         else
           let next_state = enc_state w \<lparr>rs_source = vp_source v, rs_serial = vp_through v\<rparr> in
           and_then (map_err (SyncStore \<circ> txn_error_of) (commit_replica_txn s owned now after (replica_body (vp_changes v) next_state)))
             (\<lambda>(_, s').
                Inr (\<lparr>ap_outcome = \<lparr>so_changes = length (vp_changes v), so_serial = vp_through v, so_primary_serial = vp_primary_serial v\<rparr>,
                      ap_changed_keys = sorted_list_of_fset (vp_changed_keys v), ap_referenced = referenced,
                      ap_revocations = page_revocations (vp_changes v)\<rparr>, s'))))"

text \<open>One round of synchronisation against whatever the primary answers.\<close>

definition replica_sync ::
  "codecs \<Rightarrow> wire \<Rightarrow> meta_store \<Rightarrow> usize \<Rightarrow> bool \<Rightarrow> i64 \<Rightarrow> (u64 \<Rightarrow> usize \<Rightarrow> (sync_error, change_page) result) \<Rightarrow>
   (sync_error, applied_page \<times> meta_store) result" where
  "replica_sync c w s page_limit owned now changes =
     and_then (replica_state_of w s) (\<lambda>state.
       and_then (changes (cursor_of state) page_limit) (apply_page c w s page_limit owned now))"

section \<open>Installing a peer's checkpoint\<close>

record checkpoint_window =
  cw_bytes :: string
  cw_next :: string

text \<open>The loop over the windows; an exhausted list is the peer failing to answer.\<close>

fun stage_windows ::
  "codecs \<Rightarrow> checkpoint_manifest \<Rightarrow> checkpoint_window list \<Rightarrow> u64 \<Rightarrow> string \<Rightarrow> meta_store \<Rightarrow> (sync_error \<times> meta_store) + meta_store" where
  "stage_windows c m windows offset cursor s =
     (if \<not> (offset < cm_bytes m \<and> cursor \<noteq> generation_token c CurDone (cm_generation m)) then Inr s
      else case windows of
        [] \<Rightarrow> Inl (SyncPrimary, s)
      | win # rest \<Rightarrow>
          (case stage_checkpoint_chunk s m offset (cw_bytes win) (cw_next win) of
             Inl refused \<Rightarrow> Inl (SyncCheckpointChunk refused, discard_staged_checkpoint s)
           | Inr (staged, s') \<Rightarrow> stage_windows c m rest (sc_received staged) (cw_next win) s'))"

declare stage_windows.simps [simp del]

definition stage_and_install ::
  "codecs \<Rightarrow> wire \<Rightarrow> meta_store \<Rightarrow> checkpoint_manifest \<Rightarrow> checkpoint_window list \<Rightarrow> u64 \<Rightarrow> string \<Rightarrow>
   (sync_error \<times> meta_store) + (u64 \<times> meta_store)" where
  "stage_and_install c w s m windows offset cursor =
     (case stage_windows c m windows offset cursor s of
        Inl e \<Rightarrow> Inl e
      | Inr s1 \<Rightarrow>
          (case install_staged_checkpoint c s1 REPLICA_STATE_KEY
              (enc_state w \<lparr>rs_source = ci_source (cm_identity m), rs_serial = cm_serial m\<rparr>) of
             Inl e \<Rightarrow> Inl (SyncCheckpoint e, s1)
           | Inr (installed, s2) \<Rightarrow> Inr (cm_serial installed, s2)))"

definition check_manifest :: "wire \<Rightarrow> meta_store \<Rightarrow> checkpoint_manifest \<Rightarrow> (sync_error, unit) result" where
  "check_manifest w s m =
     (if ci_source (cm_identity m) = [] then Inl EmptySource
      else and_then (stored_state w s) (\<lambda>state.
        if (case state of Some st \<Rightarrow> ci_source (cm_identity m) \<noteq> rs_source st | None \<Rightarrow> False)
        then Inl (SourceChanged (case state of Some st \<Rightarrow> rs_source st | None \<Rightarrow> []) (ci_source (cm_identity m)))
        else if ci_protocol_version (cm_identity m) \<noteq> PROTOCOL_VERSION
        then Inl (UnsupportedVersion (ci_protocol_version (cm_identity m)) PROTOCOL_VERSION)
        else if ci_schema_version (cm_identity m) \<noteq> ucast SCHEMA_VERSION
        then Inl (UnsupportedCheckpointSchema (ci_schema_version (cm_identity m)) (ucast SCHEMA_VERSION))
        else Inr ()))"

text \<open>Where the transfer of a manifest starts: after what is staged for it, or at the beginning of a new staging.\<close>

definition resume_transfer :: "codecs \<Rightarrow> meta_store \<Rightarrow> checkpoint_manifest \<Rightarrow> meta_store \<times> u64 \<times> string" where
  "resume_transfer c s m =
     (let fresh = (begin_checkpoint_transfer c s m, 0, generation_token c cursor_start (cm_generation m)) in
      case staged_checkpoint_of s of
        Some staged \<Rightarrow> if sc_manifest staged = m then (s, sc_received staged, sc_cursor staged) else fresh
      | None \<Rightarrow> fresh)"

definition install_checkpoint ::
  "codecs \<Rightarrow> wire \<Rightarrow> meta_store \<Rightarrow> (sync_error, checkpoint_manifest) result \<Rightarrow> checkpoint_window list \<Rightarrow>
   (sync_error \<times> meta_store) + (u64 \<times> meta_store)" where
  "install_checkpoint c w s manifest windows =
     (case and_then manifest (\<lambda>m. and_then (check_manifest w s m) (\<lambda>_. Inr m)) of
        Inl e \<Rightarrow> Inl (e, s)
      | Inr m \<Rightarrow>
          (case resume_transfer c s m of (s1, offset, cursor) \<Rightarrow> stage_and_install c w s1 m windows offset cursor))"

section \<open>Relaying the writer's feed\<close>

definition serve_follower_changes :: "wire \<Rightarrow> meta_store \<Rightarrow> u64 \<Rightarrow> usize \<Rightarrow> (nat \<Rightarrow> bool) \<Rightarrow> change_page_body" where
  "serve_follower_changes w s after limit cancelled =
     (case replica_state_of w s of
        Inr (Some applied) \<Rightarrow> build_change_page w s (rs_source applied) after limit cancelled
      | Inr None \<Rightarrow> Unsynced
      | Inl _ \<Rightarrow> PageFailed)"

section \<open>The frame of a driver transaction\<close>

definition same_replicated :: "meta_store \<Rightarrow> meta_store \<Rightarrow> bool" where
  "same_replicated s s' \<longleftrightarrow> same_journal s s' \<and> ms_driver s' = ms_driver s \<and> ms_revocations s' = ms_revocations s
     \<and> ms_checkpoint s' = ms_checkpoint s"

lemma same_replicated_refl [simp]: "same_replicated s s"
  by (simp add: same_replicated_def)

lemma same_replicated_trans: "same_replicated a b \<Longrightarrow> same_replicated b c \<Longrightarrow> same_replicated a c"
  by (simp add: same_replicated_def same_journal_def)

lemma try_fold_replicated:
  assumes "try_fold f s xs = Inr s'" "\<And>s x s'. f s x = Inr s' \<Longrightarrow> same_replicated s s'"
  shows "same_replicated s s'"
  using assms(1) by (rule try_fold_keeps) (use assms(2) same_replicated_trans same_replicated_refl in blast)+

lemma advance_revision_replicated: "advance_artifact_placement_revision s d = Inr s' \<Longrightarrow> same_replicated s s'"
  by (auto simp: advance_artifact_placement_revision_def same_replicated_def same_journal_def split: option.splits)

lemma webhooks_replicated: "enqueue_webhook_events s es = Inr s' \<Longrightarrow> same_replicated s s'"
  unfolding enqueue_webhook_events_def
  by (erule try_fold_replicated)
    (auto simp: insert_webhook_event_def Let_def same_replicated_def same_journal_def split: if_splits)

lemma guard_loop_replicated: "guard_loop now active blobs s ds = Inr (s', ds') \<Longrightarrow> same_replicated s s'"
proof (induction now active blobs s ds rule: guard_loop.induct)
  case (2 now active blob blobs s ds)
  show ?case
  proof (cases "fmlookup (ms_reclaim_guard s) (br_sha256 blob)")
    case (Some expires)
    let ?s = "s\<lparr>ms_reclaim_guard := fmdrop (br_sha256 blob) (ms_reclaim_guard s)\<rparr>"
    have "same_replicated s ?s" by (simp add: same_replicated_def same_journal_def)
    with 2 Some same_replicated_trans show ?thesis by (fastforce split: if_splits)
  qed (use 2 in simp)
qed simp

lemma guard_check_replicated: "check_blob_reclaim_guard s e blobs now active = Inr s' \<Longrightarrow> same_replicated s s'"
  by (auto simp: check_blob_reclaim_guard_def and_then_Inr_iff split: if_splits
      dest!: guard_loop_replicated try_fold_replicated [OF _ advance_revision_replicated] intro: same_replicated_trans)

lemma placement_rows_replicated:
  "same_replicated s (foldl (\<lambda>t (digest, placement). insert_placement_row t digest
     (preserve_source (fmlookup (ms_artifact_placement t) digest) placement)) s ps)"
  by (induction ps arbitrary: s)
    (auto intro: same_replicated_trans [rotated] simp: insert_placement_row_def same_replicated_def same_journal_def)

lemma placements_replicated: "write_artifact_placements s ps = Inr s' \<Longrightarrow> same_replicated s s'"
proof (cases "ps = []")
  case False
  assume "write_artifact_placements s ps = Inr s'"
  with False have "try_fold (\<lambda>t (digest, _). advance_artifact_placement_revision t digest)
      (foldl (\<lambda>t (digest, placement). insert_placement_row t digest
        (preserve_source (fmlookup (ms_artifact_placement t) digest) placement)) s ps) ps = Inr s'"
    by (auto simp: write_artifact_placements_def and_then_Inr_iff Let_def)
  from try_fold_replicated [OF this] placement_rows_replicated show ?thesis
    by (rule same_replicated_trans [rotated]) (auto intro: advance_revision_replicated)
qed (simp add: write_artifact_placements_def)

lemma generations_replicated: "same_replicated s (advance_repository_generations s rs)"
proof -
  have "same_replicated s (foldl (\<lambda>t repository. let g = policy_generation_of t repository in
      t\<lparr>ms_policy_generation := fmupd repository (g\<lparr>pg_repository := pg_repository g + 1\<rparr>) (ms_policy_generation t)\<rparr>) s xs)" for xs
    by (induction xs arbitrary: s) (auto simp: Let_def same_replicated_def same_journal_def)
  then show ?thesis by (simp add: advance_repository_generations_def)
qed

lemma journal_one_fields [simp]:
  "ms_driver (journal_one s e) = ms_driver s" "ms_revocations (journal_one s e) = ms_revocations s"
  "ms_checkpoint (journal_one s e) = ms_checkpoint s" "ms_retained_floor (journal_one s e) = ms_retained_floor s"
  by (simp_all add: journal_one_def Let_def)

lemma commit_journal_fields [simp]:
  "ms_driver (snd (commit_journal s js)) = ms_driver s" "ms_revocations (snd (commit_journal s js)) = ms_revocations s"
  "ms_checkpoint (snd (commit_journal s js)) = ms_checkpoint s"
  "ms_retained_floor (snd (commit_journal s js)) = ms_retained_floor s"
proof -
  have "ms_driver (foldl journal_one s js) = ms_driver s \<and> ms_revocations (foldl journal_one s js) = ms_revocations s
    \<and> ms_checkpoint (foldl journal_one s js) = ms_checkpoint s \<and> ms_retained_floor (foldl journal_one s js) = ms_retained_floor s"
    by (induction js arbitrary: s) simp_all
  then show "ms_driver (snd (commit_journal s js)) = ms_driver s" "ms_revocations (snd (commit_journal s js)) = ms_revocations s"
    "ms_checkpoint (snd (commit_journal s js)) = ms_checkpoint s"
    "ms_retained_floor (snd (commit_journal s js)) = ms_retained_floor s"
    by (simp_all add: commit_journal_def Let_def)
qed

text \<open>What a committed transaction did to the replicated tables: its rows, its revocations, and its journal at the end
  of the log.\<close>

definition commits :: "meta_store \<Rightarrow> driver_txn \<Rightarrow> journal_entry list \<Rightarrow> meta_store \<Rightarrow> bool" where
  "commits s d js s' \<longleftrightarrow> ms_driver s' = dt_table d \<and> ms_revocations s' = dt_revocations d
     \<and> ms_checkpoint s' = ms_checkpoint s \<and> ms_retained_floor s' = ms_retained_floor s
     \<and> (\<forall>log. journal_matches log s \<longrightarrow> length log + length js < 2 ^ 64 \<longrightarrow> journal_matches (log @ js) s')"

lemma commit_txn_effect:
  assumes "commit_driver_txn_with_journal s owned now expected None (\<lambda>_ t. Inr t) body = Inr ((v, jc), s')"
  obtains pending d where "body (driver_txn_open s) = Inr ((v, pending), d)"
    "check_replica_serial s expected = Inr ()" "commits s d (finish_journal pending d (dt_blobs d)) s'"
proof -
  from assms obtain pending d s3 s4 s5 where b: "body (driver_txn_open s) = Inr ((v, pending), d)"
    "check_replica_serial s expected = Inr ()" and
    3: "enqueue_webhook_events (let s1 = s\<lparr>ms_driver := dt_table d, ms_revocations := dt_revocations d\<rparr> in
      if dt_wrote_rows d then advance_reference_revision s1 else s1) (dt_webhooks d) = Inr s3" and
    4: "check_blob_reclaim_guard s3 expected (dt_blobs d) now (\<not> owned) = Inr s4" and
    5: "write_artifact_placements s4 (dt_placements d) = Inr s5" and
    7: "s' = advance_repository_generations (snd (commit_journal s5 (finish_journal pending d (dt_blobs d)))) (dt_policy_inputs d)"
    by (auto simp: commit_driver_txn_with_journal_def and_then_Inr_iff Let_def case_prod_unfold
        simp del: finish_journal.simps cong: if_cong)
  let ?js = "finish_journal pending d (dt_blobs d)" and ?s1 = "s\<lparr>ms_driver := dt_table d, ms_revocations := dt_revocations d\<rparr>"
  have "same_replicated ?s1 (let s1 = ?s1 in if dt_wrote_rows d then advance_reference_revision s1 else s1)"
    by (simp add: same_replicated_def same_journal_def advance_reference_revision_def Let_def)
  then have s5: "same_replicated ?s1 s5"
    using webhooks_replicated [OF 3] guard_check_replicated [OF 4] placements_replicated [OF 5] same_replicated_trans by blast
  have s': "same_replicated (snd (commit_journal s5 ?js)) s'" unfolding 7 by (rule generations_replicated)
  have "journal_matches (log @ ?js) s'" if "journal_matches log s" "length log + length ?js < 2 ^ 64" for log
  proof -
    have "same_journal s s5" using s5 by (simp add: same_replicated_def same_journal_def)
    from commit_journal_matches [OF journal_matches_same [OF this that(1)] that(2)] s' journal_matches_same
    show ?thesis unfolding same_replicated_def by blast
  qed
  then have "commits s d ?js s'"
    using s5 s' by (simp add: commits_def same_replicated_def same_journal_def del: finish_journal.simps)
  with that b show thesis by blast
qed

end
