(* ===== verification/Replication.thy ===== *)
theory Replication
  imports Replica
begin

text \<open>
  What replication guarantees: the pages a node sends are segments of the writer's log, a replica that applies them or
  installs a checkpoint always stands at a prefix of that log, and a replica that has caught up has the writer's
  rows and revocations.
\<close>

section \<open>Pages are segments of the log\<close>

definition log_change :: "journal_entry list \<Rightarrow> nat \<Rightarrow> change" where
  "log_change log i = change_of (record_at log i)"

definition page_of_log :: "string \<Rightarrow> journal_entry list \<Rightarrow> change_page \<Rightarrow> bool" where
  "page_of_log src log p \<longleftrightarrow> cp_version p = PROTOCOL_VERSION \<and> cp_source p = src \<and> unat (cp_current_serial p) \<le> length log
     \<and> cp_changes p = map (log_change log) [unat (cp_after p) ..< unat (cp_after p) + length (cp_changes p)]
     \<and> (cp_changes p \<noteq> [] \<longrightarrow> unat (cp_after p) + length (cp_changes p) \<le> unat (cp_current_serial p))"

lemma log_change_append: "i < length log \<Longrightarrow> log_change (log @ es) i = log_change log i"
  by (simp add: log_change_def record_at_append)

lemma log_change_take: "i < n \<Longrightarrow> log_change (take n log) i = log_change log i"
  by (simp add: log_change_def record_at_def)

lemma page_of_log_grow:
  assumes "page_of_log src log p"
  shows "page_of_log src (log @ es) p"
proof -
  let ?is = "[unat (cp_after p) ..< unat (cp_after p) + length (cp_changes p)]"
  have "\<forall>i \<in> set ?is. i < length log"
    using assms by (cases "cp_changes p = []") (auto simp: page_of_log_def)
  then have "map (log_change (log @ es)) ?is = map (log_change log) ?is"
    by (intro map_cong refl log_change_append) blast
  with assms show ?thesis by (simp add: page_of_log_def)
qed

lemma page_of_log_take:
  assumes "page_of_log src (take n log) p"
  shows "page_of_log src log p"
  using page_of_log_grow [OF assms, of "drop n log"] by simp

definition page_bytes :: "wire \<Rightarrow> change list \<Rightarrow> nat" where
  "page_bytes w chs = sum_list (map (\<lambda>ch. Suc (change_size w ch)) chs)"

lemma page_fits:
  assumes "b < 2 ^ 63" "used = of_nat u" "u \<le> 4194304"
  shows "(used :: u64) + of_nat b + 1 > MAX_CHANGE_PAGE_BYTES \<longleftrightarrow> Suc (u + b) > 4194304"
proof -
  have "used + of_nat b + 1 = of_nat (Suc (u + b))" by (simp add: assms(2) add.commute add.left_commute)
  also have "unat \<dots> = Suc (u + b)" using assms(1,3) by (intro unat_u64_of_nat) simp
  finally show ?thesis unfolding word_less_nat_alt by (simp add: MAX_CHANGE_PAGE_BYTES_def)
qed

text \<open>The visitor keeps a prefix of the entries it is shown, within the byte budget.\<close>

lemma visit_pages:
  assumes "\<forall>ch. change_size w ch < 2 ^ 63" "pw_used v = of_nat u" "u \<le> 4194304"
  shows "\<exists>j \<le> length entries. pw_changes (visit_loop s (page_visit w cancelled) entries v) =
      pw_changes v @ map (change_of \<circ> journal_record_of s) (take j entries)
    \<and> u + page_bytes w (map (change_of \<circ> journal_record_of s) (take j entries)) \<le> 4194304"
  using assms(2,3)
proof (induction entries arbitrary: v u)
  case Nil
  show ?case using Nil.prems by (simp add: page_bytes_def)
next
  case (Cons e entries)
  let ?ch = "change_of (journal_record_of s e)"
  let ?b = "change_size w ?ch"
  have max: "pw_used v + of_nat ?b + 1 > MAX_CHANGE_PAGE_BYTES \<longleftrightarrow> Suc (u + ?b) > 4194304"
    by (rule page_fits [OF _ Cons.prems(1,2)]) (use assms(1) in blast)
  show ?case
  proof (cases "cancelled (pw_polls v) \<or> Suc (u + ?b) > 4194304")
    case True
    then have "pw_changes (visit_loop s (page_visit w cancelled) (e # entries) v) = pw_changes v"
      using max by (auto simp: page_visit_def Let_def)
    then show ?thesis using Cons.prems by (intro exI [of _ 0]) (simp add: page_bytes_def)
  next
    case False
    define v' where "v' = v\<lparr>pw_polls := Suc (pw_polls v), pw_used := pw_used v + of_nat ?b + 1, pw_changes := pw_changes v @ [?ch]\<rparr>"
    have loop: "visit_loop s (page_visit w cancelled) (e # entries) v = visit_loop s (page_visit w cancelled) entries v'"
      using False max by (simp add: page_visit_def Let_def v'_def)
    have v': "pw_used v' = of_nat (Suc (u + ?b))" "pw_changes v' = pw_changes v @ [?ch]"
      by (simp_all add: v'_def Cons.prems(1) add.commute add.left_commute)
    have "Suc (u + ?b) \<le> 4194304" using False by simp
    from Cons.IH [OF v'(1) this] obtain j where "j \<le> length entries"
      "pw_changes (visit_loop s (page_visit w cancelled) entries v') =
         (pw_changes v @ [?ch]) @ map (change_of \<circ> journal_record_of s) (take j entries)"
      "Suc (u + ?b) + page_bytes w (map (change_of \<circ> journal_record_of s) (take j entries)) \<le> 4194304"
      unfolding v'(2) by blast
    then show ?thesis unfolding loop by (intro exI [of _ "Suc j"]) (simp add: page_bytes_def comp_def)
  qed
qed

lemma not_below_floor:
  assumes "\<not> below_floor after (ms_serial s) (journal_floor s)"
  shows "unat (retained_from s) \<le> Suc (unat after)"
  using assms
  by (auto simp: below_floor_def journal_floor_def retained_from_def word_less_nat_alt unat_u64_saturating_add
      split: option.splits)

lemma build_page_of_log:
  assumes "journal_matches log s" "wire_laws w" "build_change_page w s src after limit cancelled = Encoded p"
  shows "page_of_log src log p" "cp_after p = after" "length (cp_changes p) \<le> limit"
    "4096 + page_bytes w (cp_changes p) \<le> 4194304" "cp_current_serial p = ms_serial s"
    "cp_version p = PROTOCOL_VERSION" "cp_source p = src"
proof -
  let ?v0 = "\<lparr>pw_changes = [], pw_used = CHANGE_PAGE_ENVELOPE_BYTES, pw_oversized = None, pw_polls = 0\<rparr>"
  let ?rows = "take limit (rows_after (Some after) (ms_journal s))"
  from assms(3) have nf: "\<not> below_floor after (ms_serial s) (journal_floor s)"
    and p: "p = \<lparr>cp_version = PROTOCOL_VERSION, cp_source = src, cp_after = after, cp_current_serial = ms_serial s,
       cp_changes = pw_changes (visit_loop s (page_visit w cancelled) ?rows ?v0)\<rparr>"
    by (auto simp: build_change_page_def visit_retained_journal_page_def split: if_splits option.splits)
  have len: "length log < 2 ^ 64" and serial: "unat (ms_serial s) = length log"
    using assms(1) by (simp_all add: journal_matches_def unat_u64_of_nat)
  note recs = journal_records_after [OF assms(1) not_below_floor [OF nf]]
  have "\<forall>ch. change_size w ch < 2 ^ 63" using assms(2) by (simp add: wire_laws_def)
  from visit_pages [OF this, of ?v0 4096 ?rows s cancelled] obtain j where j: "j \<le> length ?rows"
    "cp_changes p = map (change_of \<circ> journal_record_of s) (take j ?rows)" "4096 + page_bytes w (cp_changes p) \<le> 4194304"
    by (auto simp: CHANGE_PAGE_ENVELOPE_BYTES_def p)
  have rows: "length (rows_after (Some after) (ms_journal s)) = length log - unat after"
    using arg_cong [OF recs, of length] by simp
  have bound: "j \<noteq> 0 \<Longrightarrow> unat after + j \<le> length log" using j(1) rows by auto
  have "map (journal_record_of s) (take j ?rows) = take j (take limit (map (journal_record_of s) (rows_after (Some after) (ms_journal s))))"
    by (simp only: take_map)
  also have "\<dots> = map (record_at log) [unat after ..< unat after + j]"
    unfolding recs using j(1) rows bound by (cases "j = 0") (simp_all add: take_map take_upt min_absorb1)
  finally have "cp_changes p = map (log_change log) [unat after ..< unat after + j]"
    unfolding j(2) log_change_def map_map [symmetric] by (metis (no_types, lifting) map_map comp_apply map_eq_conv)
  moreover have "length (cp_changes p) = j" using j(1,2) by simp
  ultimately show "page_of_log src log p" using serial bound by (auto simp: page_of_log_def p)
  show "cp_after p = after" "cp_current_serial p = ms_serial s" "cp_version p = PROTOCOL_VERSION" "cp_source p = src"
    by (simp_all add: p)
  show "length (cp_changes p) \<le> limit" using j(1) \<open>length (cp_changes p) = j\<close> by simp
  show "4096 + page_bytes w (cp_changes p) \<le> 4194304" by (rule j(3))
qed

section \<open>What a validated page does\<close>

definition change_entry :: "change \<Rightarrow> journal_entry" where
  "change_entry ch = \<lparr>je_payload = ch_event ch, je_mutations = ch_metadata ch, je_blobs = ch_blobs ch\<rparr>"

definition validated :: "codecs \<Rightarrow> change \<Rightarrow> validated_change" where
  "validated c ch = \<lparr>vc_event = ch_event ch, vc_server = (case dec_server c (ch_event ch) of Inr d \<Rightarrow> d | Inl _ \<Rightarrow> None),
     vc_metadata = ch_metadata ch, vc_blobs = map (\<lambda>b. (br_sha256 b, br_size b)) (ch_blobs ch)\<rparr>"

definition keys_allowed :: "driver_mutation list \<Rightarrow> bool" where
  "keys_allowed ms \<longleftrightarrow> (\<forall>m \<in> set ms. \<not> starts_with (mutation_key m) REPLICA_KEY_PREFIX)"

lemma validate_keys_allowed: "validate_keys ms keys = Inr keys' \<Longrightarrow> keys_allowed ms"
  by (induction ms arbitrary: keys) (auto simp: keys_allowed_def split: if_splits)

lemma validate_blobs_eq:
  "validate_blobs bs referenced blobs = Inr (referenced', blobs') \<Longrightarrow> blobs' = blobs @ map (\<lambda>b. (br_sha256 b, br_size b)) bs"
proof (induction bs arbitrary: referenced blobs)
  case (Cons b bs)
  then have "validate_blobs bs (fmupd (br_sha256 b) (br_sha256 b, br_size b) referenced) (blobs @ [(br_sha256 b, br_size b)]) =
      Inr (referenced', blobs')"
    by (auto simp: Let_def digest_from_hex_def split: option.splits if_splits prod.splits)
  from Cons.IH [OF this] show ?case by simp
qed simp

lemma validate_change_Inr:
  assumes "validate_change c v ch = Inr v'"
  shows "vp_changes v' = vp_changes v @ [validated c ch]" "vp_through v' = ch_serial ch" "vp_source v' = vp_source v"
    "vp_primary_serial v' = vp_primary_serial v" "keys_allowed (ch_metadata ch)" "\<exists>d. dec_server c (ch_event ch) = Inr d"
proof -
  from assms obtain keys referenced blobs server where *: "validate_keys (ch_metadata ch) (vp_changed_keys v) = Inr keys"
    "validate_blobs (ch_blobs ch) (vp_referenced v) [] = Inr (referenced, blobs)" "dec_server c (ch_event ch) = Inr server"
    "v' = v\<lparr>vp_through := ch_serial ch, vp_changed_keys := keys, vp_referenced := referenced,
       vp_changes := vp_changes v @ [\<lparr>vc_event = ch_event ch, vc_server = server, vc_metadata = ch_metadata ch, vc_blobs = blobs\<rparr>]\<rparr>"
    unfolding validate_change_def by (auto simp: and_then_Inr_iff split: if_splits)
  show "vp_changes v' = vp_changes v @ [validated c ch]" "vp_through v' = ch_serial ch" "vp_source v' = vp_source v"
    "vp_primary_serial v' = vp_primary_serial v" "keys_allowed (ch_metadata ch)" "\<exists>d. dec_server c (ch_event ch) = Inr d"
    using * validate_keys_allowed [OF *(1)] validate_blobs_eq [OF *(2)] by (auto simp: validated_def)
qed

lemma validate_changes_Inr:
  assumes "try_fold (validate_change c) v chs = Inr v'"
  shows "vp_changes v' = vp_changes v @ map (validated c) chs
    \<and> vp_through v' = (if chs = [] then vp_through v else ch_serial (last chs))
    \<and> vp_source v' = vp_source v \<and> vp_primary_serial v' = vp_primary_serial v
    \<and> (\<forall>ch \<in> set chs. keys_allowed (ch_metadata ch) \<and> (\<exists>d. dec_server c (ch_event ch) = Inr d))"
  using assms
proof (induction chs arbitrary: v)
  case (Cons ch chs)
  from Cons.prems obtain v1 where 1: "validate_change c v ch = Inr v1" "try_fold (validate_change c) v1 chs = Inr v'"
    by (auto simp: and_then_Inr_iff)
  from validate_change_Inr [OF 1(1)] Cons.IH [OF 1(2)] show ?case by simp
qed simp

lemma validated_page_Inr:
  assumes "validated_page_new c page after limit state = Inr v"
  shows "vp_changes v = map (validated c) (cp_changes page)" "vp_source v = cp_source page" "cp_after page = after"
    "vp_through v = (if cp_changes page = [] then after else ch_serial (last (cp_changes page)))"
    "vp_primary_serial v = cp_current_serial page" "vp_through v \<le> vp_primary_serial v"
    "vp_changes v = [] \<Longrightarrow> vp_primary_serial v \<le> after"
    "\<forall>ch \<in> set (cp_changes page). keys_allowed (ch_metadata ch) \<and> (\<exists>d. dec_server c (ch_event ch) = Inr d)"
proof -
  let ?v0 = "\<lparr>vp_source = cp_source page, vp_through = after, vp_primary_serial = cp_current_serial page, vp_changes = [],
    vp_changed_keys = {||}, vp_referenced = fmempty\<rparr>"
  from assms have f: "try_fold (validate_change c) ?v0 (cp_changes page) = Inr v" and a: "cp_after page = after"
    and p: "\<not> cp_current_serial page < vp_through v" "\<not> (vp_changes v = [] \<and> cp_current_serial page > after)"
    by (auto simp: validated_page_new_def and_then_Inr_iff split: if_splits)
  note v = validate_changes_Inr [OF f]
  show "vp_changes v = map (validated c) (cp_changes page)" "vp_source v = cp_source page" "cp_after page = after"
    "vp_through v = (if cp_changes page = [] then after else ch_serial (last (cp_changes page)))"
    "vp_primary_serial v = cp_current_serial page" "vp_through v \<le> vp_primary_serial v"
    "vp_changes v = [] \<Longrightarrow> vp_primary_serial v \<le> after"
    "\<forall>ch \<in> set (cp_changes page). keys_allowed (ch_metadata ch) \<and> (\<exists>d. dec_server c (ch_event ch) = Inr d)"
    using v a p by (auto simp: not_less)
qed

text \<open>The transaction applies the metadata of every change and its server mutation, and journals it unchanged.\<close>

lemma apply_metadata_fields:
  "dt_table (apply_metadata d m) = apply_mutation (dt_table d) m" "dt_revocations (apply_metadata d m) = dt_revocations d"
  by (cases m; simp add: txn_put_def txn_upsert_def txn_remove_def Let_def)+

lemma apply_metadata_run:
  "dt_table (foldl apply_metadata d ms) = foldl apply_mutation (dt_table d) ms"
  "dt_revocations (foldl apply_metadata d ms) = dt_revocations d"
  by (induction ms arbitrary: d) (simp_all add: apply_metadata_fields)

lemma blob_reference_eta: "map ((\<lambda>(digest, n). DriverBlobReference digest n) \<circ> (\<lambda>b. (br_sha256 b, br_size b))) bs = bs"
  by (induction bs) simp_all

lemma apply_metadata_frame:
  "dt_webhooks (foldl apply_metadata d ms) = dt_webhooks d" "dt_placements (foldl apply_metadata d ms) = dt_placements d"
proof -
  have "dt_webhooks (apply_metadata d m) = dt_webhooks d \<and> dt_placements (apply_metadata d m) = dt_placements d" for d m
    by (cases m) (simp_all add: txn_put_def txn_upsert_def txn_remove_def Let_def)
  then show "dt_webhooks (foldl apply_metadata d ms) = dt_webhooks d" "dt_placements (foldl apply_metadata d ms) = dt_placements d"
    by (induction ms arbitrary: d) simp_all
qed

section \<open>Applying a segment of the log\<close>

text \<open>Every lifted row of the log follows a row of its digest.\<close>

definition log_lifts :: "codecs \<Rightarrow> journal_entry list \<Rightarrow> bool" where
  "log_lifts c log \<longleftrightarrow> (\<forall>i < length log. \<forall>r \<in> set (server_records c (log ! i)). row_status r = StatusLifted \<longrightarrow>
     fmlookup (log_revocations c (take i log)) (canonical (dr_digest r)) \<noteq> None)"

lemma length_server_records: "length (server_records c e) \<le> 1"
  by (auto simp: server_records_def split: sum.splits option.splits server_mutation.splits)

lemma fcard_revocation_rows: "fcard (fmdom (foldl put_revocation_row m rs)) \<le> fcard (fmdom m) + length rs"
proof (induction rs arbitrary: m)
  case (Cons r rs)
  have "fcard (fmdom (put_revocation_row m r)) \<le> Suc (fcard (fmdom m))"
    by (simp add: put_revocation_row_def fcard_finsert_if)
  with Cons.IH [of "put_revocation_row m r"] show ?case by simp
qed simp

lemma fcard_log_revocations: "fcard (fmdom (log_revocations c log)) \<le> length log"
proof -
  have "length (concat (map (server_records c) log)) \<le> length log"
  proof (induction log)
    case (Cons e log)
    then show ?case using length_server_records [of c e] by simp
  qed simp
  then show ?thesis using fcard_revocation_rows [of fmempty "concat (map (server_records c) log)"]
    by (simp add: log_revocations_def fcard_fempty)
qed

lemma rows_keyed_log: "rows_keyed (log_revocations c log)"
proof -
  have one: "rows_keyed (put_revocation_row m r)" if "rows_keyed m" for m r
    using that unfolding rows_keyed_def put_revocation_row_def by (metis fmupd_lookup option.inject)
  have "rows_keyed m \<Longrightarrow> rows_keyed (foldl put_revocation_row m rs)" for m rs
    by (induction rs arbitrary: m) (simp_all add: one)
  moreover have "rows_keyed fmempty" by (simp add: rows_keyed_def)
  ultimately show ?thesis by (simp add: log_revocations_def)
qed

lemma log_snoc:
  assumes "i < length log"
  shows "log_revocations c (take (Suc i) log) = foldl put_revocation_row (log_revocations c (take i log)) (server_records c (log ! i))"
    "log_rows (take (Suc i) log) = foldl apply_mutation (log_rows (take i log)) (je_mutations (log ! i))"
  using assms by (simp_all add: take_Suc_conv_app_nth log_revocations_append log_rows_append)

lemma log_change_fields [simp]:
  "ch_event (log_change log i) = je_payload (log ! i)" "ch_metadata (log_change log i) = je_mutations (log ! i)"
  "ch_blobs (log_change log i) = je_blobs (log ! i)" "ch_serial (log_change log i) = of_nat (Suc i)"
  by (simp_all add: log_change_def change_of_def record_at_def del: of_nat_Suc)

definition log_bounded :: "codecs \<Rightarrow> journal_entry list \<Rightarrow> bool" where
  "log_bounded c log \<longleftrightarrow> length log < 2 ^ 64 - 1 \<and> log_decodes c log \<and> log_lifts c log"

lemma apply_logged:
  assumes "i < length log" "log_bounded c log" "rev_inv (dt_revocations d)" "open_rows (dt_revocations d) = log_revocations c (take i log)"
  obtains d' where "apply_change (d, js) (validated c (log_change log i)) = Inr (d', js @ [log ! i])"
    "dt_table d' = foldl apply_mutation (dt_table d) (je_mutations (log ! i))" "rev_inv (dt_revocations d')"
    "open_rows (dt_revocations d') = log_revocations c (take (Suc i) log)" "dt_webhooks d' = dt_webhooks d" "dt_placements d' = dt_placements d"
proof -
  let ?e = "log ! i" and ?d = "foldl apply_metadata d (je_mutations (log ! i))"
  have entry: "\<lparr>je_payload = je_payload ?e, je_mutations = je_mutations ?e,
      je_blobs = map ((\<lambda>(digest, n). DriverBlobReference digest n) \<circ> (\<lambda>b. (br_sha256 b, br_size b))) (je_blobs ?e)\<rparr> = ?e"
    by (simp only: blob_reference_eta) simp
  obtain server where server: "dec_server c (je_payload ?e) = Inr server"
    using assms(1,2) unfolding log_bounded_def log_decodes_def by (meson nth_mem)
  have run: "apply_change (d, js) (validated c (log_change log i)) =
      and_then (case server of None \<Rightarrow> Inr ?d | Some m \<Rightarrow> txn_apply_server_mutation ?d m) (\<lambda>d'. Inr (d', js @ [?e]))"
    by (simp add: apply_change_def validated_def server Let_def entry)
  show thesis
  proof (cases server)
    case None
    with run that [of ?d] assms server show thesis
      by (simp add: apply_metadata_run apply_metadata_frame log_snoc server_records_def)
  next
    case (Some m)
    then obtain r where m: "server = Some (DigestRevocationMutation r)" by (cases m) simp
    then have r: "server_records c ?e = [r]" by (simp add: server_records_def server)
    with assms(1,2,4) have "lifts_existing (dt_revocations d) r"
      unfolding log_bounded_def log_lifts_def lifts_existing_def by (metis list.set_intros(1))
    moreover have "card (active_rows (open_rows (dt_revocations d))) < 2 ^ 64 - 1"
      using card_active_rows_le [of "open_rows (dt_revocations d)"] fcard_log_revocations [of c "take i log"] assms(1,2,4)
      by (simp add: log_bounded_def)
    ultimately obtain t where t: "apply_digest_revocation (dt_revocations d) r = Inr t" "rev_inv t"
      using apply_succeeds [OF assms(3)] rev_inv_apply [OF assms(3)] by metis
    from that [of "?d\<lparr>dt_revocations := t\<rparr>"] run m t apply_rows [OF t(1)] assms(1,4) r show thesis
      by (simp add: apply_metadata_run apply_metadata_frame log_snoc put_revocation_row_def)
  qed
qed

lemma apply_segment:
  assumes "n + k \<le> length log" "log_bounded c log" "rev_inv (dt_revocations d)" "open_rows (dt_revocations d) = log_revocations c (take n log)"
  shows "\<exists>d'. try_fold apply_change (d, js) (map (validated c) (map (log_change log) [n ..< n + k])) = Inr (d', js @ take k (drop n log))
    \<and> dt_table d' = foldl apply_mutation (dt_table d) (concat (map je_mutations (take k (drop n log))))
    \<and> rev_inv (dt_revocations d') \<and> open_rows (dt_revocations d') = log_revocations c (take (n + k) log)
    \<and> dt_webhooks d' = dt_webhooks d \<and> dt_placements d' = dt_placements d"
  using assms(1,3,4)
proof (induction k arbitrary: n d js)
  case (Suc k)
  then have n: "n < length log" by simp
  from apply_logged [OF n assms(2) Suc.prems(2,3), of js] obtain d1 where d1:
    "apply_change (d, js) (validated c (log_change log n)) = Inr (d1, js @ [log ! n])"
    "dt_table d1 = foldl apply_mutation (dt_table d) (je_mutations (log ! n))" "rev_inv (dt_revocations d1)"
    "open_rows (dt_revocations d1) = log_revocations c (take (Suc n) log)" "dt_webhooks d1 = dt_webhooks d" "dt_placements d1 = dt_placements d"
    by metis
  have seg: "take (Suc k) (drop n log) = log ! n # take k (drop (Suc n) log)" using n by (simp add: Cons_nth_drop_Suc [symmetric])
  have idx: "[n ..< n + Suc k] = n # [Suc n ..< Suc n + k]" by (simp add: upt_rec [of n])
  from Suc.IH [of "Suc n" d1 "js @ [log ! n]"] Suc.prems(1) d1 show ?case
    unfolding seg idx by auto
qed simp

section \<open>A replica stands at a prefix of the log\<close>

definition rows_agree :: "string set \<Rightarrow> (string, string) fmap \<Rightarrow> (string, string) fmap \<Rightarrow> bool" where
  "rows_agree except a b \<longleftrightarrow> (\<forall>k. k \<notin> except \<longrightarrow> fmlookup a k = fmlookup b k)"

definition stored_cursor :: "wire \<Rightarrow> string \<Rightarrow> nat \<Rightarrow> meta_store \<Rightarrow> bool" where
  "stored_cursor w src n s \<longleftrightarrow>
     (case fmlookup (ms_driver s) REPLICA_STATE_KEY of
        None \<Rightarrow> n = 0
      | Some raw \<Rightarrow> raw = enc_state w \<lparr>rs_source = src, rs_serial = of_nat n\<rparr>)"

definition replica_ok :: "codecs \<Rightarrow> wire \<Rightarrow> string \<Rightarrow> journal_entry list \<Rightarrow> meta_store \<Rightarrow> bool" where
  "replica_ok c w src log s \<longleftrightarrow> journal_matches log s \<and> rows_agree {REPLICA_STATE_KEY} (ms_driver s) (log_rows log)
     \<and> open_rows (ms_revocations s) = log_revocations c log \<and> rev_inv (ms_revocations s) \<and> stored_cursor w src (length log) s"

lemma apply_mutations_lookup:
  "fmlookup a k = fmlookup b k \<Longrightarrow> fmlookup (foldl apply_mutation a ms) k = fmlookup (foldl apply_mutation b ms) k"
proof (induction ms arbitrary: a b)
  case (Cons m ms)
  have "fmlookup (apply_mutation a m) k = fmlookup (apply_mutation b m) k" using Cons.prems by (cases m) simp_all
  from Cons.IH [OF this] show ?case by simp
qed simp

lemma replica_state_eq:
  assumes "replica_ok c w src log s" "wire_laws w"
  obtains st where "replica_state_of w s = Inr st" "cursor_of st = of_nat (length log)" "\<forall>x. st = Some x \<longrightarrow> rs_source x = src"
proof (cases "fmlookup (ms_driver s) REPLICA_STATE_KEY")
  case None
  with that [of None] assms show thesis
    by (simp add: replica_ok_def stored_cursor_def replica_state_of_def stored_state_def cursor_of_def journal_matches_def)
next
  case (Some raw)
  with that [of "Some \<lparr>rs_source = src, rs_serial = of_nat (length log)\<rparr>"] assms show thesis
    by (simp add: replica_ok_def stored_cursor_def replica_state_of_def stored_state_def cursor_of_def journal_matches_def wire_laws_def)
qed

lemma replica_body_eq:
  assumes "n + k \<le> length log" "log_bounded c log" "rev_inv (ms_revocations s)"
    and "open_rows (ms_revocations s) = log_revocations c (take n log)"
  obtains d where "replica_body (map (validated c) (map (log_change log) [n ..< n + k])) raw (driver_txn_open s) =
      Inr (((), take k (drop n log)), d)"
    "dt_table d = fmupd REPLICA_STATE_KEY raw (foldl apply_mutation (ms_driver s) (concat (map je_mutations (take k (drop n log)))))"
    "rev_inv (dt_revocations d)" "open_rows (dt_revocations d) = log_revocations c (take (n + k) log)"
    "dt_webhooks d = []" "dt_placements d = []"
proof -
  let ?o = "driver_txn_open s"
  have o: "rev_inv (dt_revocations ?o)" "open_rows (dt_revocations ?o) = log_revocations c (take n log)"
    "dt_table ?o = ms_driver s" "dt_webhooks ?o = []" "dt_placements ?o = []"
    using assms(3,4) by (simp_all add: driver_txn_open_def)
  from apply_segment [OF assms(1,2) o(1,2), of "[]"] obtain d' where
    d': "try_fold apply_change (?o, []) (map (validated c) (map (log_change log) [n ..< n + k])) = Inr (d', take k (drop n log))"
    "dt_table d' = foldl apply_mutation (ms_driver s) (concat (map je_mutations (take k (drop n log))))"
    "rev_inv (dt_revocations d')" "open_rows (dt_revocations d') = log_revocations c (take (n + k) log)"
    "dt_webhooks d' = []" "dt_placements d' = []" unfolding o append_Nil by blast
  show thesis
    by (rule that [of "txn_put_local d' REPLICA_STATE_KEY raw"])
      (use d' in \<open>simp_all add: replica_body_def txn_put_local_def txn_upsert_local_def del: map_map\<close>)
qed

text \<open>A replica's transaction that runs to its end commits: it queues no webhook, writes no placement, and its blobs are
  not guarded.\<close>

lemma commit_replica_eq:
  assumes "ms_serial s = e" "body (driver_txn_open s) = Inr (((), js), d)" "dt_webhooks d = []" "dt_placements d = []"
  obtains s' where "commit_replica_txn s owned now e body = Inr ((), s')" "commits s d js s'"
proof -
  let ?b = "\<lambda>d. and_then (body d) (\<lambda>((v, entries), d'). Inr ((v, Entries entries), d'))"
  have "\<exists>jc s'. commit_driver_txn_with_journal s owned now (Some e) None (\<lambda>_ t. Inr t) ?b = Inr (((), jc), s')"
    using assms
    by (simp add: commit_driver_txn_with_journal_def check_replica_serial_def enqueue_webhook_events_def
        check_blob_reclaim_guard_def write_artifact_placements_def Let_def split: prod.splits)
  then obtain jc s' where s': "commit_driver_txn_with_journal s owned now (Some e) None (\<lambda>_ t. Inr t) ?b = Inr (((), jc), s')"
    by blast
  from commit_txn_effect [OF s'] obtain pending d' where "?b (driver_txn_open s) = Inr (((), pending), d')"
    "commits s d' (finish_journal pending d' (dt_blobs d')) s'" by metis
  then have "commits s d js s'" using assms(2) by auto
  with that s' show thesis by (simp add: commit_replica_txn_def)
qed

lemma replica_segment:
  assumes "replica_ok c w src (take n log) s" "n + k \<le> length log" "log_bounded c log"
    and "commits s d (take k (drop n log)) s'" "rev_inv (dt_revocations d)"
    and "dt_table d = fmupd REPLICA_STATE_KEY (enc_state w \<lparr>rs_source = src, rs_serial = of_nat (n + k)\<rparr>)
       (foldl apply_mutation (ms_driver s) (concat (map je_mutations (take k (drop n log)))))"
    and "open_rows (dt_revocations d) = log_revocations c (take (n + k) log)"
  shows "replica_ok c w src (take (n + k) log) s'"
proof -
  have seg: "take (n + k) log = take n log @ take k (drop n log)" by (simp add: take_add)
  have "journal_matches (take (n + k) log) s'"
    using assms(1-4) unfolding seg by (simp add: commits_def replica_ok_def log_bounded_def)
  moreover have "rows_agree {REPLICA_STATE_KEY} (ms_driver s') (log_rows (take (n + k) log))"
    unfolding rows_agree_def seg log_rows_append
  proof (intro allI impI)
    fix key assume "key \<notin> {REPLICA_STATE_KEY}"
    moreover from this have "fmlookup (ms_driver s) key = fmlookup (log_rows (take n log)) key"
      using assms(1) by (simp add: replica_ok_def rows_agree_def)
    note apply_mutations_lookup [OF this, of "concat (map je_mutations (take k (drop n log)))"]
    ultimately show "fmlookup (ms_driver s') key =
        fmlookup (foldl apply_mutation (log_rows (take n log)) (concat (map je_mutations (take k (drop n log))))) key"
      using assms(4,6) by (simp add: commits_def)
  qed
  moreover have "length (take (n + k) log) = n + k" using assms(2) by simp
  ultimately show ?thesis
    using assms(4-7) by (simp add: replica_ok_def commits_def stored_cursor_def)
qed

lemma last_log_change: "0 < k \<Longrightarrow> ch_serial (last (map (log_change log) [n ..< n + k])) = of_nat (n + k)"
  by (cases k) (simp_all add: del: of_nat_Suc)

lemma apply_page_run:
  assumes "replica_state_of w s = Inr st" "cursor_of st = after" "validated_page_new c page after limit st = Inr v" "vp_changes v \<noteq> []"
    and "commit_replica_txn s owned now after (replica_body (vp_changes v)
      (enc_state w \<lparr>rs_source = vp_source v, rs_serial = vp_through v\<rparr>)) = Inr ((), s')"
  shows "\<exists>a. apply_page c w s limit owned now page = Inr (a, s')
    \<and> ap_outcome a = \<lparr>so_changes = length (vp_changes v), so_serial = vp_through v, so_primary_serial = vp_primary_serial v\<rparr>"
  unfolding apply_page_def Let_def using assms by simp

text \<open>Whatever page of the log a replica accepts, in whatever order the pages reach it, it stands at a prefix of the
  log afterwards and reports that prefix.\<close>

lemma apply_page_prefix:
  assumes ok: "replica_ok c w src (take n log) s" "n \<le> length log" and laws: "log_bounded c log" "wire_laws w"
    and page: "page_of_log src log page" and run: "apply_page c w s limit owned now page = Inr (a, s')"
  shows "\<exists>k. n + k \<le> length log \<and> replica_ok c w src (take (n + k) log) s'
    \<and> ap_outcome a = \<lparr>so_changes = k, so_serial = of_nat (n + k), so_primary_serial = cp_current_serial page\<rparr>
    \<and> k = length (cp_changes page)"
proof -
  have len: "length (take n log) = n" using ok(2) by simp
  from replica_state_eq [OF ok(1) laws(2)] obtain st where st: "replica_state_of w s = Inr st" "cursor_of st = of_nat n"
    unfolding len by metis
  from run st obtain v where v: "validated_page_new c page (of_nat n) limit st = Inr v"
    by (auto simp: apply_page_def and_then_Inr_iff Let_def)
  note val = validated_page_Inr [OF v]
  have n: "unat (of_nat n :: u64) = n" using ok(2) laws(1) by (intro unat_u64_of_nat) (simp add: log_bounded_def)
  define k where "k = length (cp_changes page)"
  show ?thesis
  proof (cases "cp_changes page = []")
    case True
    then have "s' = s \<and> ap_outcome a = \<lparr>so_changes = 0, so_serial = of_nat n, so_primary_serial = cp_current_serial page\<rparr>"
      using run st v val(1,5) by (auto simp: apply_page_def Let_def)
    with True ok show ?thesis by (intro exI [of _ 0]) simp
  next
    case False
    then have k: "0 < k" "cp_changes page = map (log_change log) [n ..< n + k]" "n + k \<le> length log"
      using page val(3) n by (auto simp: page_of_log_def k_def)
    have vp: "vp_changes v = map (validated c) (map (log_change log) [n ..< n + k])" "vp_through v = of_nat (n + k)"
      "vp_source v = src" "vp_changes v \<noteq> []"
      using val(1,2,4) False page last_log_change [OF k(1), of log n] by (simp_all only: k(2) page_of_log_def) simp_all
    let ?raw = "enc_state w \<lparr>rs_source = src, rs_serial = of_nat (n + k)\<rparr>"
    have rev: "rev_inv (ms_revocations s)" "open_rows (ms_revocations s) = log_revocations c (take n log)" "ms_serial s = of_nat n"
      using ok by (simp_all add: replica_ok_def journal_matches_def)
    from replica_body_eq [OF k(3) laws(1) rev(1,2), of ?raw] obtain d where
      d: "replica_body (vp_changes v) ?raw (driver_txn_open s) = Inr (((), take k (drop n log)), d)"
      "dt_table d = fmupd REPLICA_STATE_KEY ?raw (foldl apply_mutation (ms_driver s) (concat (map je_mutations (take k (drop n log)))))"
      "rev_inv (dt_revocations d)" "open_rows (dt_revocations d) = log_revocations c (take (n + k) log)"
      "dt_webhooks d = []" "dt_placements d = []" unfolding vp(1) by blast
    from commit_replica_eq [where body = "replica_body (vp_changes v) ?raw" and owned = owned and now = now, OF rev(3) d(1,5,6)] obtain s1 where
      s1: "commit_replica_txn s owned now (of_nat n) (replica_body (vp_changes v) ?raw) = Inr ((), s1)"
      "commits s d (take k (drop n log)) s1" by blast
    from apply_page_run [OF st v vp(4), unfolded vp(2,3), OF s1(1)] obtain a1 where
      a1: "apply_page c w s limit owned now page = Inr (a1, s1)"
      "ap_outcome a1 = \<lparr>so_changes = length (vp_changes v), so_serial = of_nat (n + k), so_primary_serial = vp_primary_serial v\<rparr>" by blast
    have "s1 = s'" "a1 = a" using a1(1) run by simp_all
    moreover have "length (vp_changes v) = k" by (simp add: vp(1))
    ultimately have "s' = s1" "ap_outcome a = \<lparr>so_changes = k, so_serial = of_nat (n + k), so_primary_serial = cp_current_serial page\<rparr>"
      using a1(2) val(5) by simp_all
    with replica_segment [OF ok(1) k(3) laws(1) s1(2) d(3,2,4)] k(3) show ?thesis
      unfolding k_def [symmetric] by blast
  qed
qed

section \<open>A page of a clean log is accepted\<close>

text \<open>What a writer must not journal if its replicas are to follow: keys of the replica's own prefix, references that
  are not digests, and two sizes of one digest.\<close>

definition log_clean :: "journal_entry list \<Rightarrow> bool" where
  "log_clean log \<longleftrightarrow> (\<forall>e \<in> set log. keys_allowed (je_mutations e) \<and> (\<forall>b \<in> set (je_blobs e). digest_from_hex (br_sha256 b) \<noteq> None))
     \<and> (\<forall>b \<in> \<Union>e \<in> set log. set (je_blobs e). \<forall>b' \<in> \<Union>e \<in> set log. set (je_blobs e). br_sha256 b = br_sha256 b' \<longrightarrow> br_size b = br_size b')"

lemma log_cleanD:
  assumes "log_clean log"
  shows "e \<in> set log \<Longrightarrow> keys_allowed (je_mutations e)"
    "\<forall>b \<in> \<Union>e \<in> set log. set (je_blobs e). digest_from_hex (br_sha256 b) \<noteq> None"
    "\<forall>b \<in> \<Union>e \<in> set log. set (je_blobs e). \<forall>b' \<in> \<Union>e \<in> set log. set (je_blobs e). br_sha256 b = br_sha256 b' \<longrightarrow> br_size b = br_size b'"
proof -
  show "e \<in> set log \<Longrightarrow> keys_allowed (je_mutations e)" using assms by (simp add: log_clean_def)
  show "\<forall>b \<in> \<Union>e \<in> set log. set (je_blobs e). digest_from_hex (br_sha256 b) \<noteq> None" using assms unfolding log_clean_def by blast
qed (rule conjunct2 [OF assms [unfolded log_clean_def]])

definition seen_in :: "driver_blob_reference set \<Rightarrow> (string, digest \<times> u64) fmap \<Rightarrow> bool" where
  "seen_in B referenced \<longleftrightarrow> (\<forall>sha d n. fmlookup referenced sha = Some (d, n) \<longrightarrow> DriverBlobReference sha n \<in> B)"

lemma validate_keys_ok: "keys_allowed ms \<Longrightarrow> \<exists>keys'. validate_keys ms keys = Inr keys'"
  by (induction ms arbitrary: keys) (auto simp: keys_allowed_def)

lemma validate_blobs_ok:
  assumes "set bs \<subseteq> B" "seen_in B referenced" "\<forall>b \<in> B. digest_from_hex (br_sha256 b) \<noteq> None"
    and "\<forall>b \<in> B. \<forall>b' \<in> B. br_sha256 b = br_sha256 b' \<longrightarrow> br_size b = br_size b'"
  shows "\<exists>referenced' blobs'. validate_blobs bs referenced blobs = Inr (referenced', blobs') \<and> seen_in B referenced'"
  using assms(1,2)
proof (induction bs arbitrary: referenced blobs)
  case (Cons b bs)
  then have b: "b \<in> B" by simp
  with assms(3) have d: "digest_from_hex (br_sha256 b) = Some (br_sha256 b)" by (auto simp: digest_from_hex_def split: if_splits)
  let ?r = "fmupd (br_sha256 b) (br_sha256 b, br_size b) referenced"
  have seen: "seen_in B ?r" using Cons.prems(2) b by (auto simp: seen_in_def)
  have "n = br_size b" if "fmlookup referenced (br_sha256 b) = Some (x, n)" for x n
    using that Cons.prems(2) b assms(4) unfolding seen_in_def by (metis driver_blob_reference.sel)
  then have "validate_blobs (b # bs) referenced blobs = validate_blobs bs ?r (blobs @ [(br_sha256 b, br_size b)])"
    using d by (auto simp: Let_def split: option.splits prod.splits)
  with Cons.IH [OF _ seen, of "blobs @ [(br_sha256 b, br_size b)]"] Cons.prems(1) show ?case by simp
qed auto

lemma checked_sub_serial:
  assumes "Suc i < 2 ^ 64"
  shows "u64_checked_sub (of_nat (Suc i)) 1 = Some (of_nat i)"
  using of_nat_Suc_u64 [OF assms] by (simp add: u64_checked_sub_def word_le_nat_alt del: of_nat_Suc) simp

lemma validate_segment:
  assumes "log_clean log" "log_bounded c log" "n + k \<le> length log"
    and "vp_through v = of_nat n" "seen_in (\<Union>e \<in> set log. set (je_blobs e)) (vp_referenced v)"
  shows "\<exists>v'. try_fold (validate_change c) v (map (log_change log) [n ..< n + k]) = Inr v'"
  using assms(3-5)
proof (induction k arbitrary: n v)
  case (Suc k)
  let ?B = "\<Union>e \<in> set log. set (je_blobs e)"
  have n: "n < length log" "Suc n < 2 ^ 64" using Suc.prems(1) assms(2) by (simp_all add: log_bounded_def)
  then have e: "log ! n \<in> set log" by simp
  then obtain keys where keys: "validate_keys (je_mutations (log ! n)) (vp_changed_keys v) = Inr keys"
    using validate_keys_ok [OF log_cleanD(1) [OF assms(1)]] by blast
  have "set (je_blobs (log ! n)) \<subseteq> ?B" using e by blast
  then obtain referenced blobs where blobs: "validate_blobs (je_blobs (log ! n)) (vp_referenced v) [] = Inr (referenced, blobs)"
    "seen_in ?B referenced"
    using validate_blobs_ok [OF _ Suc.prems(3) log_cleanD(2,3) [OF assms(1)], of "je_blobs (log ! n)" "[]"] by blast
  obtain server where server: "dec_server c (je_payload (log ! n)) = Inr server"
    using e assms(2) unfolding log_bounded_def log_decodes_def by blast
  define v1 where "v1 = v\<lparr>vp_through := of_nat (Suc n), vp_changed_keys := keys, vp_referenced := referenced,
     vp_changes := vp_changes v @ [\<lparr>vc_event = je_payload (log ! n), vc_server = server, vc_metadata = je_mutations (log ! n), vc_blobs = blobs\<rparr>]\<rparr>"
  have "validate_change c v (log_change log n) = Inr v1"
    using checked_sub_serial [OF n(2)] Suc.prems(2) keys blobs server by (simp add: validate_change_def v1_def del: of_nat_Suc)
  moreover have "\<exists>v'. try_fold (validate_change c) v1 (map (log_change log) [Suc n ..< Suc n + k]) = Inr v'"
    using Suc.prems(1) blobs(2) by (intro Suc.IH) (simp_all add: v1_def)
  moreover have "[n ..< n + Suc k] = n # [Suc n ..< Suc n + k]" by (simp add: upt_rec [of n])
  ultimately show ?case by simp
qed simp

lemma apply_page_accepts:
  assumes ok: "replica_ok c w src (take n log) s" "n \<le> length log" and laws: "log_bounded c log" "wire_laws w" "log_clean log"
    and page: "page_of_log src log page" "cp_after page = of_nat n" "src \<noteq> []" "length (cp_changes page) \<le> limit"
    and head: "cp_changes page \<noteq> [] \<or> unat (cp_current_serial page) = n"
  shows "\<exists>a s'. apply_page c w s limit owned now page = Inr (a, s')"
proof -
  define k where "k = length (cp_changes page)"
  have len: "length (take n log) = n" and small: "length log < 2 ^ 64" using ok(2) laws(1) by (simp_all add: log_bounded_def)
  have n: "unat (of_nat n :: u64) = n" using ok(2) small by (intro unat_u64_of_nat) simp
  from replica_state_eq [OF ok(1) laws(2)] obtain st where st: "replica_state_of w s = Inr st" "cursor_of st = of_nat n"
    "\<forall>x. st = Some x \<longrightarrow> rs_source x = src" unfolding len by metis
  have k: "cp_changes page = map (log_change log) [n ..< n + k]" "n + k \<le> length log"
    "0 < k \<Longrightarrow> n + k \<le> unat (cp_current_serial page)"
    using page(1) n ok(2) unfolding page_of_log_def page(2) k_def by auto
  let ?v0 = "\<lparr>vp_source = cp_source page, vp_through = of_nat n, vp_primary_serial = cp_current_serial page, vp_changes = [],
    vp_changed_keys = {||}, vp_referenced = fmempty\<rparr>"
  have "seen_in B fmempty" for B by (simp add: seen_in_def)
  with validate_segment [OF laws(3,1) k(2), of ?v0] obtain v where
    v: "try_fold (validate_change c) ?v0 (cp_changes page) = Inr v" unfolding k(1) by auto
  note val = validate_changes_Inr [OF v]
  have nk: "unat (of_nat (n + k) :: u64) = n + k" using k(2) small by (intro unat_u64_of_nat) simp
  have through: "vp_through v = of_nat (n + k)"
    using val last_log_change [of k log n] unfolding k(1) by (cases "k = 0") simp_all
  have behind: "\<not> cp_current_serial page < vp_through v"
    using k(3) head nk unfolding through by (cases "k = 0") (auto simp: word_less_nat_alt k_def)
  have empty: "vp_changes v = [] \<longleftrightarrow> cp_changes page = []" using val by simp
  have missing: "\<not> (vp_changes v = [] \<and> of_nat n < cp_current_serial page)"
    using head n unfolding empty by (auto simp: word_less_nat_alt)
  have p: "cp_version page = PROTOCOL_VERSION" "cp_source page = src" using page(1) by (simp_all add: page_of_log_def)
  have new: "validated_page_new c page (of_nat n) limit st = Inr v"
    unfolding validated_page_new_def using v behind missing p page(2-4) st(3) by (auto split: option.splits)
  show ?thesis
  proof (cases "cp_changes page = []")
    case True
    then show ?thesis using st new empty by (simp add: apply_page_def Let_def)
  next
    case False
    let ?raw = "enc_state w \<lparr>rs_source = vp_source v, rs_serial = vp_through v\<rparr>"
    have rev: "rev_inv (ms_revocations s)" "open_rows (ms_revocations s) = log_revocations c (take n log)" "ms_serial s = of_nat n"
      using ok by (simp_all add: replica_ok_def journal_matches_def)
    have "vp_changes v = map (validated c) (map (log_change log) [n ..< n + k])" using val by (simp only: k(1)) simp
    with replica_body_eq [OF k(2) laws(1) rev(1,2), of ?raw] obtain d where
      d: "replica_body (vp_changes v) ?raw (driver_txn_open s) = Inr (((), take k (drop n log)), d)" "dt_webhooks d = []" "dt_placements d = []"
      by metis
    from commit_replica_eq [where body = "replica_body (vp_changes v) ?raw" and owned = owned and now = now, OF rev(3) d] obtain s1 where
      "commit_replica_txn s owned now (of_nat n) (replica_body (vp_changes v) ?raw) = Inr ((), s1)" by blast
    from apply_page_run [OF st(1,2) new _ this] empty False show ?thesis by blast
  qed
qed

section \<open>Installing a checkpoint\<close>

lemma replica_ok_checkpoint [simp]: "replica_ok c w src log (s\<lparr>ms_checkpoint := t\<rparr>) \<longleftrightarrow> replica_ok c w src log s"
  by (simp add: replica_ok_def journal_matches_def journal_record_of_def retained_from_def stored_cursor_def)

definition staged_for :: "checkpoint_manifest \<Rightarrow> meta_store \<Rightarrow> bool" where
  "staged_for m s \<longleftrightarrow> map_option sh_manifest (ct_staged (ms_checkpoint s)) = Some m"

lemma stage_chunk_Inr:
  "stage_checkpoint_chunk s m offset bytes cursor = Inr (staged, s') \<Longrightarrow> (\<exists>t. s' = s\<lparr>ms_checkpoint := t\<rparr>) \<and> staged_for m s'"
  by (auto simp: stage_checkpoint_chunk_def Let_def staged_for_def split: if_splits option.splits)

lemma discard_frame: "\<exists>t. discard_staged_checkpoint s = s\<lparr>ms_checkpoint := t\<rparr>"
  by (auto simp: discard_staged_checkpoint_def)

lemma stage_windows_frame:
  assumes "staged_for m s"
  shows "case stage_windows c m windows offset cursor s of
      Inl (e, s') \<Rightarrow> \<exists>t. s' = s\<lparr>ms_checkpoint := t\<rparr>
    | Inr s' \<Rightarrow> (\<exists>t. s' = s\<lparr>ms_checkpoint := t\<rparr>) \<and> staged_for m s'"
  using assms
proof (induction c m windows offset cursor s rule: stage_windows.induct)
  case (1 c m windows offset cursor s)
  have refl: "\<exists>t. s = s\<lparr>ms_checkpoint := t\<rparr>" by (rule exI [of _ "ms_checkpoint s"]) simp
  show ?case
  proof (cases "offset < cm_bytes m \<and> cursor \<noteq> generation_token c CurDone (cm_generation m)")
    case False
    then show ?thesis using 1(2) refl by (simp add: stage_windows.simps)
  next
    case True
    show ?thesis
    proof (cases windows)
      case Nil
      then show ?thesis using True refl by (simp add: stage_windows.simps)
    next
      case (Cons win rest)
      show ?thesis
      proof (cases "stage_checkpoint_chunk s m offset (cw_bytes win) (cw_next win)")
        case (Inl e)
        then show ?thesis using True Cons discard_frame by (simp add: stage_windows.simps)
      next
        case (Inr r)
        obtain staged s1 where r: "r = (staged, s1)" by force
        from stage_chunk_Inr [OF Inr [unfolded r]] obtain t where t: "s1 = s\<lparr>ms_checkpoint := t\<rparr>" "staged_for m s1" by blast
        have step: "stage_windows c m windows offset cursor s = stage_windows c m rest (sc_received staged) (cw_next win) s1"
          using True Cons Inr r by (subst stage_windows.simps) simp
        show ?thesis unfolding step using "1.IH" [OF _ Cons Inr r [symmetric]] True t
          by (auto split: sum.splits)
      qed
    qed
  qed
qed

text \<open>The bytes a transfer ends up with do not merely share the digest of a published state.\<close>

definition collision_free :: "codecs \<Rightarrow> meta_store \<Rightarrow> checkpoint_manifest \<Rightarrow> checkpoint_window list \<Rightarrow> bool" where
  "collision_free c s m windows \<longleftrightarrow>
     (case resume_transfer c s m of (s0, offset, cursor) \<Rightarrow>
        case stage_windows c m windows offset cursor s0 of
          Inl _ \<Rightarrow> True
        | Inr s1 \<Rightarrow> \<forall>st. state_ok c st \<longrightarrow> cm_digest m = sha256_hex c (cs_canonical c st) \<longrightarrow> no_collision c s1 st)"

lemma resume_frame:
  assumes "resume_transfer c s m = (s0, offset, cursor)"
  shows "\<exists>t. s0 = s\<lparr>ms_checkpoint := t\<rparr>" "staged_for m s0"
proof -
  have refl: "\<exists>t. s = s\<lparr>ms_checkpoint := t\<rparr>" by (rule exI [of _ "ms_checkpoint s"]) simp
  have "s0 = s \<and> staged_for m s \<or> s0 = begin_checkpoint_transfer c s m"
    using assms by (auto simp: resume_transfer_def Let_def staged_checkpoint_of_def staged_for_def split: option.splits if_splits)
  then show "\<exists>t. s0 = s\<lparr>ms_checkpoint := t\<rparr>" "staged_for m s0"
    using refl by (auto simp: begin_checkpoint_transfer_def staged_for_def)
qed

lemma installed_prefix:
  assumes "publishes c log m st" "length log < 2 ^ 64 - 1"
  shows "replica_ok c w src (take (unat (cm_serial m)) log)
    (replace_state s st m REPLICA_STATE_KEY (enc_state w \<lparr>rs_source = src, rs_serial = cm_serial m\<rparr>))"
    (is "replica_ok c w src ?log ?s")
proof -
  have N: "length ?log = unat (cm_serial m)" using assms(1) by (simp add: publishes_def)
  have small: "unat (cm_serial m) < 2 ^ 64 - 1" using assms by (simp add: publishes_def)
  have rows: "rows_keyed (cs_revocations st)" "fcard (fmdom (cs_revocations st)) < 2 ^ 64"
    using assms rows_keyed_log fcard_log_revocations [of c ?log] by (simp_all add: publishes_def)
  have "unat (retained_from ?s) = Suc (unat (cm_serial m))"
    using small by (simp add: retained_from_def replace_state_def Let_def unat_u64_saturating_add)
  then have "journal_matches ?log ?s"
    using N small unfolding journal_matches_def by (simp add: replace_state_def Let_def)
  moreover have "rows_agree {REPLICA_STATE_KEY} (ms_driver ?s) (log_rows ?log)"
    using assms(1) by (simp add: rows_agree_def replace_state_def Let_def publishes_def)
  moreover have "open_rows (ms_revocations ?s) = log_revocations c ?log" "rev_inv (ms_revocations ?s)"
    using assms(1) rev_inv_replace [OF rows] by (simp_all add: replace_state_def Let_def replace_rows publishes_def)
  moreover have "stored_cursor w src (length ?log) ?s"
    unfolding N by (simp add: stored_cursor_def replace_state_def Let_def)
  ultimately show ?thesis by (simp add: replica_ok_def)
qed

text \<open>An installation that fails leaves the replica where it was, one that succeeds puts it at the manifest's prefix,
  whatever windows the peer answered with.\<close>

lemma install_prefix:
  assumes ok: "replica_ok c w src log s" and laws: "codec_laws c" "length full < 2 ^ 64 - 1"
    and m: "publishes c full m st" "ci_source (cm_identity m) = src" "collision_free c s m windows"
  shows "case install_checkpoint c w s (Inr m) windows of
      Inl (e, s') \<Rightarrow> replica_ok c w src log s'
    | Inr (serial, s') \<Rightarrow> serial = cm_serial m \<and> replica_ok c w src (take (unat (cm_serial m)) full) s'"
proof (cases "check_manifest w s m")
  case (Inl e)
  then show ?thesis using ok by (simp add: install_checkpoint_def)
next
  case (Inr u)
  obtain s0 offset cursor where res: "resume_transfer c s m = (s0, offset, cursor)" by (cases "resume_transfer c s m") auto
  note start = resume_frame [OF res]
  have ok0: "replica_ok c w src log s0" using start(1) ok by auto
  note frame = stage_windows_frame [OF start(2), of c windows offset cursor]
  have run: "install_checkpoint c w s (Inr m) windows = stage_and_install c w s0 m windows offset cursor"
    using Inr res by (simp add: install_checkpoint_def)
  show ?thesis
  proof (cases "stage_windows c m windows offset cursor s0")
    case (Inl r)
    obtain e s' where "r = (e, s')" by force
    with Inl frame ok0 run show ?thesis by (auto simp: stage_and_install_def)
  next
    case staged: (Inr s1)
    then have s1: "replica_ok c w src log s1" "staged_for m s1" using frame ok0 by auto
    let ?raw = "enc_state w \<lparr>rs_source = ci_source (cm_identity m), rs_serial = cm_serial m\<rparr>"
    show ?thesis
    proof (cases "install_staged_checkpoint c s1 REPLICA_STATE_KEY ?raw")
      case (Inl e)
      then show ?thesis using s1 run staged by (simp add: stage_and_install_def)
    next
      case (Inr r)
      obtain m' s2 where r: "r = (m', s2)" by force
      obtain h where "ct_staged (ms_checkpoint s1) = Some h" "sh_manifest h = m'"
        by (rule install_decoded [OF Inr [unfolded r]])
      with s1(2) have m': "m' = m" by (simp add: staged_for_def)
      have "no_collision c s1 st" "state_ok c st" "cm_digest m = sha256_hex c (cs_canonical c st)"
        using m(1,3) res staged by (simp_all add: collision_free_def publishes_def)
      from install_published [OF Inr [unfolded r m'] laws(1) this(3,2,1)]
      have "s2 = discard_staged_checkpoint (replace_state s1 st m REPLICA_STATE_KEY ?raw)" .
      moreover have "replica_ok c w src log' (discard_staged_checkpoint s) = replica_ok c w src log' s" for log' s
        by (simp add: discard_staged_checkpoint_def)
      ultimately show ?thesis
        using installed_prefix [OF m(1) laws(2), of w src s1] m(2) run staged Inr r m' by (simp add: stage_and_install_def)
    qed
  qed
qed

end
