(* ===== verification/Cluster.thy ===== *)
theory Cluster
  imports Replication
begin

text \<open>
  A writer and its replicas as one system: the writer's transactions, revocations, checkpoint publications and pruning,
  pages and manifests that stay in flight for as long as they like, relays, and replicas that apply any page or install
  from any manifest with whatever windows they are given. \<open>cl_log\<close> and \<open>cl_local\<close> are history: the entries the writer
  journaled and the keys it wrote without journaling them.
\<close>

section \<open>The system\<close>

record cluster =
  cl_writer :: meta_store
  cl_replicas :: "string \<Rightarrow> meta_store"
  cl_pages :: "change_page set"
  cl_manifests :: "checkpoint_manifest set"
  cl_log :: "journal_entry list"
  cl_local :: "string set"

definition cluster_start :: cluster where
  "cluster_start = \<lparr>cl_writer = meta_store_empty, cl_replicas = (\<lambda>_. meta_store_empty), cl_pages = {}, cl_manifests = {},
     cl_log = [], cl_local = {}\<rparr>"

definition record_entry :: "journal_record \<Rightarrow> journal_entry" where
  "record_entry r = \<lparr>je_payload = jr_payload r, je_mutations = jr_mutations r, je_blobs = jr_blobs r\<rparr>"

text \<open>What a transaction journaled: the records above the serial it started from.\<close>

definition journal_delta :: "meta_store \<Rightarrow> meta_store \<Rightarrow> journal_entry list" where
  "journal_delta s s' = map (record_entry \<circ> journal_record_of s') (rows_after (Some (ms_serial s)) (ms_journal s'))"

fun call_local :: "driver_call \<Rightarrow> string set" where
  "call_local (CallPutLocal k _) = {k}"
| "call_local (CallRemoveLocal k) = {k}"
| "call_local _ = {}"

text \<open>The keys a transaction writes without journaling them: all it touched when it journals nothing.\<close>

definition txn_local :: "meta_store \<Rightarrow> driver_call list \<Rightarrow> string list \<Rightarrow> string set" where
  "txn_local s calls payloads = (\<Union>x \<in> set calls. call_local x)
     \<union> (if payloads = [] then fset (dt_touched (foldl run_call (driver_txn_open s) calls)) else {})"

definition txn_journal :: "meta_store \<Rightarrow> driver_call list \<Rightarrow> string list \<Rightarrow> journal_entry list" where
  "txn_journal s calls payloads =
     (let d = foldl run_call (driver_txn_open s) calls in finish_journal (Payloads payloads) d (dt_blobs d))"

text \<open>A write with the entries it journals and the keys it writes without journaling them.\<close>

inductive writer_write :: "codecs \<Rightarrow> meta_store \<Rightarrow> meta_store \<Rightarrow> journal_entry list \<Rightarrow> string set \<Rightarrow> bool" for c where
  w_commit: "commit_driver_txn s owned now (calls_body calls payloads) = Inr ((), s') \<Longrightarrow>
    (\<forall>p \<in> set payloads. dec_server c p = Inr None) \<Longrightarrow>
    writer_write c s s' (txn_journal s calls payloads) (txn_local s calls payloads)"
| w_put: "writer_write c s (put_driver_value s k v) [] {k}"
| w_delete: "delete_driver_value s k = (b, s') \<Longrightarrow> writer_write c s s' [] {k}"
| w_update: "update_driver_value s k f = Inr ((), s') \<Longrightarrow> writer_write c s s' [] {k}"
| w_batch: "writer_write c s (commit_driver_batch s batch) [] (fst ` set (db_puts batch) \<union> set (db_deletes batch))"
| w_revocation: "s' = revocation_step (enc_server c) s op \<Longrightarrow> writer_write c s s' (journal_delta s s') {}"

inductive cluster_step :: "codecs \<Rightarrow> wire \<Rightarrow> checkpoint_identity \<Rightarrow> cluster \<Rightarrow> cluster \<Rightarrow> bool" for c w identity where
  writes: "writer_write c (cl_writer cl) s' js keys \<Longrightarrow>
    cluster_step c w identity cl (cl\<lparr>cl_writer := s', cl_log := cl_log cl @ js, cl_local := cl_local cl \<union> keys\<rparr>)"
| publish: "publish_checkpoint_with_sizes c (cl_writer cl) now identity supplemental scan = Inr (m, s') \<Longrightarrow>
    (\<And>st. publication_state c (cl_writer cl) supplemental scan = Inr st \<Longrightarrow> state_ok c st) \<Longrightarrow>
    cluster_step c w identity cl (cl\<lparr>cl_writer := s'\<rparr>)"
| prune: "prune_journal_batch (cl_writer cl) limit = (pruned, s') \<Longrightarrow> cluster_step c w identity cl (cl\<lparr>cl_writer := s'\<rparr>)"
| serve_chunk: "checkpoint_chunk_at_generation c (cl_writer cl) now generation cursor budget = Inr (chunk, s') \<Longrightarrow>
    cluster_step c w identity cl (cl\<lparr>cl_writer := s'\<rparr>)"
| send_page: "build_change_page w (cl_writer cl) (ci_source identity) after limit cancelled = Encoded p \<Longrightarrow>
    cluster_step c w identity cl (cl\<lparr>cl_pages := insert p (cl_pages cl)\<rparr>)"
| relay_page: "serve_follower_changes w (cl_replicas cl r) after limit cancelled = Encoded p \<Longrightarrow>
    cluster_step c w identity cl (cl\<lparr>cl_pages := insert p (cl_pages cl)\<rparr>)"
| send_manifest: "ct_manifest (ms_checkpoint (cl_writer cl)) = Some m \<Longrightarrow>
    cluster_step c w identity cl (cl\<lparr>cl_manifests := insert m (cl_manifests cl)\<rparr>)"
| replica_apply: "p \<in> cl_pages cl \<Longrightarrow> apply_page c w (cl_replicas cl r) limit owned now p = Inr (a, s') \<Longrightarrow>
    cluster_step c w identity cl (cl\<lparr>cl_replicas := (cl_replicas cl)(r := s')\<rparr>)"
| replica_install: "m \<in> cl_manifests cl \<Longrightarrow> collision_free c (cl_replicas cl r) m windows \<Longrightarrow>
    s' = (case install_checkpoint c w (cl_replicas cl r) (Inr m) windows of Inl (_, s') \<Rightarrow> s' | Inr (_, s') \<Rightarrow> s') \<Longrightarrow>
    cluster_step c w identity cl (cl\<lparr>cl_replicas := (cl_replicas cl)(r := s')\<rparr>)"
| replica_reopen: "s' = revocation_step (enc_server c) (cl_replicas cl r) OpReopen \<Longrightarrow>
    cluster_step c w identity cl (cl\<lparr>cl_replicas := (cl_replicas cl)(r := s')\<rparr>)"

inductive cluster_run :: "codecs \<Rightarrow> wire \<Rightarrow> checkpoint_identity \<Rightarrow> cluster \<Rightarrow> bool" for c w identity where
  run_start: "cluster_run c w identity cluster_start"
| run_step: "cluster_run c w identity cl \<Longrightarrow> cluster_step c w identity cl cl' \<Longrightarrow> cluster_run c w identity cl'"

section \<open>The writer\<close>

definition writer_ok :: "codecs \<Rightarrow> checkpoint_identity \<Rightarrow> journal_entry list \<Rightarrow> string set \<Rightarrow> meta_store \<Rightarrow> bool" where
  "writer_ok c identity log loc s \<longleftrightarrow> journal_matches log s \<and> publication_ok c log s \<and> rows_agree loc (ms_driver s) (log_rows log)
     \<and> open_rows (ms_revocations s) = log_revocations c log \<and> rev_inv (ms_revocations s)
     \<and> (\<forall>m. ct_manifest (ms_checkpoint s) = Some m \<longrightarrow> cm_identity m = identity)"

lemma record_entry_at: "record_entry (record_at log i) = log ! i"
  by (simp add: record_entry_def record_at_def)

lemma writer_retained:
  assumes "publication_ok c log s" "length log < 2 ^ 64 - 1"
  shows "unat (retained_from s) \<le> Suc (length log)"
  using assms by (auto simp: publication_ok_def publishes_def retained_from_def unat_u64_saturating_add split: option.splits)

lemma journal_delta_eq:
  assumes "journal_matches (log @ js) s'" "journal_matches log s" "unat (retained_from s') \<le> Suc (length log)"
  shows "journal_delta s s' = js"
proof -
  have serial: "unat (ms_serial s) = length log" using assms(2) by (simp add: journal_matches_def unat_u64_of_nat)
  have "journal_delta s s' = map record_entry (map (journal_record_of s') (rows_after (Some (ms_serial s)) (ms_journal s')))"
    by (simp add: journal_delta_def)
  also have "\<dots> = map ((!) (log @ js)) [length log ..< length (log @ js)]"
    using journal_records_after [OF assms(1), of "ms_serial s"] assms(3) by (simp add: serial record_entry_at comp_def)
  also have "\<dots> = js" by (rule nth_equalityI) auto
  finally show ?thesis .
qed

text \<open>A write that journals \<open>js\<close>, keeps the checkpoint tables and leaves rows and revocations as the longer log has them.\<close>

lemma writer_grow:
  assumes "writer_ok c identity log loc s"
    and "journal_matches (log @ js) s'" "ms_retained_floor s' = ms_retained_floor s" "ms_checkpoint s' = ms_checkpoint s"
    and "rows_agree loc' (ms_driver s') (log_rows (log @ js))"
    and "open_rows (ms_revocations s') = log_revocations c (log @ js)" "rev_inv (ms_revocations s')"
  shows "writer_ok c identity (log @ js) loc' s'"
  using assms publication_ok_grow [of c log s s' js] by (simp add: writer_ok_def)

section \<open>The writer's steps\<close>

lemma rows_agree_mono: "rows_agree a x y \<Longrightarrow> a \<subseteq> b \<Longrightarrow> rows_agree b x y"
  by (auto simp: rows_agree_def)

text \<open>Writes of rows outside the journal.\<close>

lemma writer_local:
  assumes "writer_ok c identity log loc s" "same_journal s s'" "ms_checkpoint s' = ms_checkpoint s"
    and "ms_revocations s' = ms_revocations s" "\<forall>k. k \<notin> keys \<longrightarrow> fmlookup (ms_driver s') k = fmlookup (ms_driver s) k"
  shows "writer_ok c identity log (loc \<union> keys) s'"
proof -
  have "rows_agree (loc \<union> keys) (ms_driver s') (log_rows log)" using assms(1,5) by (simp add: writer_ok_def rows_agree_def)
  with assms(1,3,4) journal_matches_same [OF assms(2)] assms(2) writer_grow [of c identity log loc s "[]" s' "loc \<union> keys"]
  show ?thesis by (simp add: writer_ok_def same_journal_def)
qed

lemma fold_puts_lookup: "k \<notin> fst ` set ps \<Longrightarrow> fmlookup (foldl (\<lambda>t (k, v). fmupd k v t) t ps) k = fmlookup t k"
  by (induction ps arbitrary: t) auto

lemma fold_drops_lookup: "k \<notin> set ks \<Longrightarrow> fmlookup (foldl (\<lambda>t k. fmdrop k t) t ks) k = fmlookup t k"
  by (induction ks arbitrary: t) auto

lemma batch_lookup:
  "k \<notin> fst ` set (db_puts batch) \<union> set (db_deletes batch) \<Longrightarrow>
   fmlookup (ms_driver (commit_driver_batch s batch)) k = fmlookup (ms_driver s) k"
  by (simp add: commit_driver_batch_def Let_def advance_reference_revision_def fold_puts_lookup fold_drops_lookup)

lemmas row_write_defs = put_driver_value_def delete_driver_value_def update_driver_value_def commit_driver_batch_def
  advance_reference_revision_def same_journal_def Let_def and_then_Inr_iff

text \<open>The last entry of a transaction carries every touched row as the transaction left it.\<close>

lemma touched_mutations:
  "fmlookup (foldl apply_mutation rows (map (\<lambda>key. case fmlookup t key of None \<Rightarrow> MutDelete key | Some v \<Rightarrow> MutPut key v) keys)) k =
   (if k \<in> set keys then fmlookup t k else fmlookup rows k)"
proof (induction keys arbitrary: rows)
  case (Cons key keys)
  show ?case using Cons.IH by (cases "fmlookup t key") auto
qed simp

lemma txn_mutations_lookup:
  "fmlookup (foldl apply_mutation rows (txn_mutations d)) k = (if k |\<in>| dt_touched d then fmlookup (dt_table d) k else fmlookup rows k)"
  by (simp add: txn_mutations_def touched_mutations)

lemma finish_mutations:
  "concat (map je_mutations (finish_journal (Payloads payloads) d blobs)) = (if payloads = [] then [] else txn_mutations d)"
  by (cases payloads rule: rev_cases) (simp_all add: Let_def comp_def butlast_append concat_eq_Nil_conv)

lemma finish_payloads: "map je_payload (finish_journal (Payloads payloads) d blobs) = payloads"
  by (cases payloads rule: rev_cases) (simp_all add: Let_def comp_def butlast_append)

lemma run_call_untouched:
  assumes "k \<notin> call_local x" "k |\<notin>| dt_touched (run_call d x)"
  shows "fmlookup (dt_table (run_call d x)) k = fmlookup (dt_table d) k"
  using assms by (cases x) (auto simp: txn_put_def txn_upsert_def txn_put_local_def txn_upsert_local_def txn_remove_def
      txn_remove_local_def txn_reference_blob_def txn_put_artifact_placement_def txn_enqueue_webhook_event_def
      txn_touch_policy_inputs_def Let_def split: if_splits)

lemma run_call_grows: "dt_touched d |\<subseteq>| dt_touched (run_call d x)" "dt_revocations (run_call d x) = dt_revocations d"
  by (cases x; auto simp: txn_put_def txn_upsert_def txn_put_local_def txn_upsert_local_def txn_remove_def
      txn_remove_local_def txn_reference_blob_def txn_put_artifact_placement_def txn_enqueue_webhook_event_def
      txn_touch_policy_inputs_def Let_def)+

lemma run_calls_untouched:
  "dt_touched d |\<subseteq>| dt_touched (foldl run_call d calls) \<and> dt_revocations (foldl run_call d calls) = dt_revocations d \<and>
   (\<forall>k. k \<notin> (\<Union>x \<in> set calls. call_local x) \<longrightarrow> k |\<notin>| dt_touched (foldl run_call d calls) \<longrightarrow>
      fmlookup (dt_table (foldl run_call d calls)) k = fmlookup (dt_table d) k)"
proof (induction calls arbitrary: d)
  case (Cons x calls)
  note ih = Cons.IH [of "run_call d x"]
  have "fmlookup (dt_table (foldl run_call (run_call d x) calls)) k = fmlookup (dt_table d) k"
    if "k \<notin> call_local x" "k \<notin> (\<Union>x \<in> set calls. call_local x)" "k |\<notin>| dt_touched (foldl run_call (run_call d x) calls)" for k
  proof -
    have "k |\<notin>| dt_touched (run_call d x)" using ih that(3) by blast
    then show ?thesis using ih that run_call_untouched [of k x d] by simp
  qed
  with ih run_call_grows [of d x] show ?case by auto
qed simp

lemma server_records_driver: "dec_server c (je_payload e) = Inr None \<Longrightarrow> server_records c e = []"
  by (simp add: server_records_def)

lemma quiet_journal:
  assumes "\<forall>p \<in> set payloads. dec_server c p = Inr None" "map je_payload js = payloads"
  shows "concat (map (server_records c) js) = []" "log_decodes c js" "\<forall>e \<in> set js. server_records c e = []"
proof -
  have e: "dec_server c (je_payload e) = Inr None" if "e \<in> set js" for e
    using assms that by (auto simp del: Inr_inject)
  then show "\<forall>e \<in> set js. server_records c e = []" using server_records_driver by blast
  then show "concat (map (server_records c) js) = []" by simp
  show "log_decodes c js" using e by (auto simp: log_decodes_def)
qed

lemma writer_commit:
  assumes ok: "writer_ok c identity log loc s" and len: "length (log @ txn_journal s calls payloads) < 2 ^ 64"
    and run: "commit_driver_txn s owned now (calls_body calls payloads) = Inr ((), s')"
    and quiet: "\<forall>p \<in> set payloads. dec_server c p = Inr None"
  shows "writer_ok c identity (log @ txn_journal s calls payloads) (loc \<union> txn_local s calls payloads) s'"
proof -
  define d where "d = foldl run_call (driver_txn_open s) calls"
  let ?js = "txn_journal s calls payloads" and ?loc = "loc \<union> txn_local s calls payloads"
  have js: "?js = finish_journal (Payloads payloads) d (dt_blobs d)" by (simp add: txn_journal_def Let_def d_def)
  from run obtain jc where "commit_driver_txn_with_journal s owned now None None (\<lambda>_ t. Inr t)
      (\<lambda>d. and_then (calls_body calls payloads d) (\<lambda>((v, entries), d'). Inr ((v, Payloads entries), d'))) = Inr (((), jc), s')"
    by (auto simp: commit_driver_txn_def and_then_Inr_iff)
  from commit_txn_effect [OF this] obtain pending d' where
    "and_then (calls_body calls payloads (driver_txn_open s)) (\<lambda>((v, entries), d'). Inr ((v, Payloads entries), d')) = Inr (((), pending), d')"
    "commits s d' (finish_journal pending d' (dt_blobs d')) s'" by metis
  then have com: "commits s d ?js s'" unfolding js by (simp add: calls_body_def d_def del: finish_journal.simps)
  have calls: "dt_revocations d = ms_revocations s"
    "k \<notin> (\<Union>x \<in> set calls. call_local x) \<Longrightarrow> k |\<notin>| dt_touched d \<Longrightarrow> fmlookup (dt_table d) k = fmlookup (ms_driver s) k" for k
    using run_calls_untouched [of "driver_txn_open s" calls] by (simp_all add: d_def driver_txn_open_def)
  have rows: "rows_agree ?loc (ms_driver s') (log_rows (log @ ?js))"
    unfolding rows_agree_def
  proof (intro allI impI)
    fix k assume k: "k \<notin> ?loc"
    then have "fmlookup (log_rows (log @ ?js)) k = (if k |\<in>| dt_touched d then fmlookup (dt_table d) k else fmlookup (log_rows log) k)"
      unfolding log_rows_append js finish_mutations
      by (auto simp: txn_mutations_lookup txn_local_def d_def split: if_splits)
    moreover have "fmlookup (dt_table d) k = fmlookup (log_rows log) k" if "k |\<notin>| dt_touched d"
      using calls(2) [OF _ that] k ok by (simp add: txn_local_def writer_ok_def rows_agree_def)
    ultimately show "fmlookup (ms_driver s') k = fmlookup (log_rows (log @ ?js)) k"
      using com by (simp add: commits_def)
  qed
  have "map je_payload ?js = payloads" unfolding js by (rule finish_payloads)
  note q = quiet_journal [OF quiet this]
  have "log_revocations c (log @ ?js) = log_revocations c log" unfolding log_revocations_append q(1) by simp
  then show ?thesis
    by (intro writer_grow [OF ok]) (use ok len com rows calls in \<open>simp_all add: commits_def writer_ok_def\<close>)
qed

text \<open>A revocation either leaves the store alone, rebuilds what is derived, or applies one row and journals it.\<close>

lemma revoke_step_cases:
  "revocation_step encode s (OpRevoke d reason a t) = s \<or>
   (\<exists>r s'. write_revocation encode s r = Inr s' \<and> row_status r = StatusActive \<and> revocation_step encode s (OpRevoke d reason a t) = s')"
proof -
  have one: "(case and_then (map_err PutRevStore (write_revocation encode s r)) (\<lambda>s'. Inr (f r, s')) of Inl _ \<Rightarrow> s | Inr (_, s') \<Rightarrow> s') = s \<or>
      (\<exists>s'. write_revocation encode s r = Inr s' \<and>
        (case and_then (map_err PutRevStore (write_revocation encode s r)) (\<lambda>s'. Inr (f r, s')) of Inl _ \<Rightarrow> s | Inr (_, s') \<Rightarrow> s') = s')"
    for r and f :: "digest_revocation \<Rightarrow> put_revocation_outcome"
    by (cases "write_revocation encode s r") simp_all
  have active: "row_status (active_revocation d reason a t n) = StatusActive" for n by (simp add: active_revocation_def)
  show ?thesis
  proof (cases "fmlookup (open_rows (ms_revocations s)) (canonical d)")
    case None
    then show ?thesis using one [of "active_revocation d reason a t 1" RevCreated] active
      by (simp add: put_digest_revocation_def Let_def) blast
  next
    case (Some r)
    then show ?thesis using one [of "active_revocation d reason a t (dr_revision r + 1)" RevReopened] active
      by (simp add: put_digest_revocation_def Let_def) blast
  qed
qed

lemma lift_step_cases:
  assumes "rev_inv (ms_revocations s)"
  shows "revocation_step encode s (OpLift d a t) = s \<or>
   (\<exists>r s'. write_revocation encode s r = Inr s' \<and> lifts_existing (ms_revocations s) r \<and> revocation_step encode s (OpLift d a t) = s')"
proof (cases "\<exists>r. fmlookup (open_rows (ms_revocations s)) (canonical d) = Some r \<and> dr_state r = RevActive")
  case True
  then obtain r where r: "fmlookup (open_rows (ms_revocations s)) (canonical d) = Some r" "dr_state r = RevActive" by blast
  let ?l = "r\<lparr>dr_state := RevLifted a t, dr_revision := dr_revision r + 1\<rparr>"
  have "canonical d = canonical (dr_digest r)" using assms r(1) unfolding rev_inv_def rows_keyed_def by blast
  then have "lifts_existing (ms_revocations s) ?l" using r(1) by (simp add: lifts_existing_def)
  with r show ?thesis by (cases "write_revocation encode s ?l") (auto simp: lift_digest_revocation_def Let_def)
next
  case False
  then show ?thesis
    by (auto simp: lift_digest_revocation_def split: option.splits digest_revocation_state.splits)
qed

lemma revocation_cases:
  assumes "rev_inv (ms_revocations s)"
  obtains (same) "revocation_step encode s op = s"
  | (reopen) "revocation_step encode s op = s\<lparr>ms_revocations := backfill_digest_revocation_state (ms_revocations s)\<rparr>"
  | (row) r t where "apply_digest_revocation (ms_revocations s) r = Inr t" "lifts_existing (ms_revocations s) r"
      "revocation_step encode s op = journal_digest_revocation encode (s\<lparr>ms_revocations := t\<rparr>) r"
proof (cases op)
  case OpReopen
  then show thesis by (intro reopen) simp
next
  case (OpRevoke d reason a t)
  have active: "row_status r = StatusActive \<Longrightarrow> lifts_existing (ms_revocations s) r" for r by (simp add: lifts_existing_def)
  from revoke_step_cases [of encode s d reason a t] show thesis
  proof (elim disjE exE conjE)
    fix r s' assume "write_revocation encode s r = Inr s'" "row_status r = StatusActive" "revocation_step encode s (OpRevoke d reason a t) = s'"
    with row OpRevoke active show thesis by (auto simp: write_revocation_def and_then_Inr_iff)
  qed (use same OpRevoke in simp)
next
  case (OpLift d a t)
  from lift_step_cases [OF assms, of encode d a t] show thesis
  proof (elim disjE exE conjE)
    fix r s' assume "write_revocation encode s r = Inr s'" "lifts_existing (ms_revocations s) r" "revocation_step encode s (OpLift d a t) = s'"
    with row OpLift show thesis by (auto simp: write_revocation_def and_then_Inr_iff)
  qed (use same OpLift in simp)
qed

lemma log_lifts_quiet:
  assumes "log_lifts c log" "\<forall>e \<in> set js. server_records c e = []"
  shows "log_lifts c (log @ js)"
  unfolding log_lifts_def
proof (intro allI impI ballI)
  fix i r assume i: "i < length (log @ js)" and r: "r \<in> set (server_records c ((log @ js) ! i))" "row_status r = StatusLifted"
  show "fmlookup (log_revocations c (take i (log @ js))) (canonical (dr_digest r)) \<noteq> None"
  proof (cases "i < length log")
    case True
    with assms(1) r show ?thesis by (simp add: log_lifts_def nth_append)
  next
    case False
    with i have "js ! (i - length log) \<in> set js" by simp
    with False r(1) assms(2) show ?thesis by (simp add: nth_append)
  qed
qed

lemma log_lifts_snoc:
  assumes "log_lifts c log"
    and "\<forall>r \<in> set (server_records c e). row_status r = StatusLifted \<longrightarrow> fmlookup (log_revocations c log) (canonical (dr_digest r)) \<noteq> None"
  shows "log_lifts c (log @ [e])"
  unfolding log_lifts_def
proof (intro allI impI ballI)
  fix i r assume i: "i < length (log @ [e])" and r: "r \<in> set (server_records c ((log @ [e]) ! i))" "row_status r = StatusLifted"
  show "fmlookup (log_revocations c (take i (log @ [e]))) (canonical (dr_digest r)) \<noteq> None"
  proof (cases "i < length log")
    case True
    with assms(1) r show ?thesis by (simp add: log_lifts_def nth_append)
  next
    case False
    with i have "i = length log" by simp
    with r assms(2) show ?thesis by simp
  qed
qed

text \<open>A revocation row and its journal entry are written together.\<close>

lemma writer_row:
  assumes ok: "writer_ok c identity log loc s" "codec_laws c" "length log < 2 ^ 64 - 1"
    and r: "apply_digest_revocation (ms_revocations s) r = Inr t" "lifts_existing (ms_revocations s) r"
  defines "e \<equiv> \<lparr>je_payload = enc_server c (DigestRevocationMutation r), je_mutations = [], je_blobs = []\<rparr>"
    and "s' \<equiv> journal_digest_revocation (enc_server c) (s\<lparr>ms_revocations := t\<rparr>) r"
  shows "journal_delta s s' = [e]" "writer_ok c identity (log @ [e]) loc s'" "server_records c e = [r]" "log_decodes c [e]"
proof -
  have dec: "dec_server c (je_payload e) = Inr (Some (DigestRevocationMutation r))" using ok(2) by (simp add: e_def codec_laws_def)
  then show rec: "server_records c e = [r]" and "log_decodes c [e]" by (simp_all add: server_records_def log_decodes_def)
  have s': "s' = snd (commit_journal (s\<lparr>ms_revocations := t\<rparr>) [e])" by (simp add: s'_def journal_digest_revocation_def e_def)
  have "same_journal s (s\<lparr>ms_revocations := t\<rparr>)" by (simp add: same_journal_def)
  with ok(1) have m: "journal_matches log s" "journal_matches log (s\<lparr>ms_revocations := t\<rparr>)"
    using journal_matches_same by (auto simp: writer_ok_def)
  have grown: "journal_matches (log @ [e]) s'" unfolding s' by (rule commit_journal_matches [OF m(2)]) (use ok(3) in simp)
  have "retained_from s' = retained_from s" by (simp add: s' retained_from_def)
  then show "journal_delta s s' = [e]"
    using journal_delta_eq [OF grown m(1)] writer_retained [of c log s] ok by (simp add: writer_ok_def)
  have rows: "log_rows (log @ [e]) = log_rows log" by (simp add: log_rows_append e_def)
  have "open_rows t = log_revocations c (log @ [e])"
    using ok(1) apply_rows [OF r(1)] rec by (simp add: log_revocations_append writer_ok_def put_revocation_row_def)
  moreover have "rev_inv t" using ok(1) rev_inv_apply [OF _ r] by (simp add: writer_ok_def)
  ultimately show "writer_ok c identity (log @ [e]) loc s'"
    by (intro writer_grow [OF ok(1) grown]) (use ok(1) rows in \<open>simp_all add: s' writer_ok_def\<close>)
qed

lemma writer_backfill:
  assumes "rev_inv t" "open_rows t = log_revocations c log" "length log < 2 ^ 64"
  shows "rev_inv (backfill_digest_revocation_state t)" "open_rows (backfill_digest_revocation_state t) = log_revocations c log"
proof -
  have "rows_keyed (open_rows t)" "fcard (fmdom (open_rows t)) < 2 ^ 64"
    using assms fcard_log_revocations [of c log] by (auto simp: rev_inv_def)
  note b = rev_inv_backfill [OF this]
  show "rev_inv (backfill_digest_revocation_state t)" "open_rows (backfill_digest_revocation_state t) = log_revocations c log"
    using b assms(2) by simp_all
qed

lemma journal_delta_same:
  assumes "writer_ok c identity log loc s" "length log < 2 ^ 64 - 1" "same_journal s s'"
  shows "journal_delta s s' = []"
proof -
  have "retained_from s' = retained_from s" using assms(3) by (simp add: same_journal_def retained_from_def)
  then show ?thesis
    using journal_delta_eq [of log "[]" s' s] journal_matches_same [OF assms(3)] writer_retained [of c log s] assms(1,2)
    by (simp add: writer_ok_def)
qed

lemma writer_revocation:
  assumes ok: "writer_ok c identity log loc s" "codec_laws c" "log_bounded c log"
    and s': "s' = revocation_step (enc_server c) s op" and len: "length (log @ journal_delta s s') < 2 ^ 64 - 1"
  shows "writer_ok c identity (log @ journal_delta s s') loc s' \<and> log_bounded c (log @ journal_delta s s')"
proof -
  have small: "length log < 2 ^ 64 - 1" using ok(3) by (simp add: log_bounded_def)
  have inv: "rev_inv (ms_revocations s)" using ok(1) by (simp add: writer_ok_def)
  from inv show ?thesis
  proof (cases rule: revocation_cases [of s "enc_server c" op])
    case same
    then show ?thesis using ok journal_delta_same [OF ok(1) small, of s] s' by simp
  next
    case reopen
    then have "same_journal s s'" by (simp add: s' same_journal_def)
    moreover have "writer_ok c identity (log @ []) loc s'"
      using ok(1) journal_matches_same [OF \<open>same_journal s s'\<close>] writer_backfill [OF inv, of c log] small
      by (intro writer_grow [OF ok(1)]) (simp_all add: s' reopen writer_ok_def)
    ultimately show ?thesis using journal_delta_same [OF ok(1) small, of s'] ok(3) by simp
  next
    case (row r t)
    note w = writer_row [OF ok(1,2) small row(1,2)]
    have "open_rows (ms_revocations s) = log_revocations c log" using ok(1) by (simp add: writer_ok_def)
    then have "log_lifts c (log @ [\<lparr>je_payload = enc_server c (DigestRevocationMutation r), je_mutations = [], je_blobs = []\<rparr>])"
      using ok(3) row(2) w(3) by (intro log_lifts_snoc) (simp_all add: log_bounded_def lifts_existing_def)
    with w ok(3) len s' row(3) show ?thesis by (simp add: log_bounded_def)
  qed
qed

lemma writer_write_ok:
  assumes "writer_write c s s' js keys" "writer_ok c identity log loc s" "codec_laws c" "log_bounded c log" "length (log @ js) < 2 ^ 64 - 1"
  shows "writer_ok c identity (log @ js) (loc \<union> keys) s' \<and> log_bounded c (log @ js)"
  using assms(1)
proof cases
  case (w_commit owned now calls payloads)
  have "map je_payload js = payloads" by (simp add: w_commit(1) txn_journal_def Let_def finish_payloads del: finish_journal.simps)
  note q = quiet_journal [OF w_commit(4) this]
  have "log_bounded c (log @ js)"
    using assms(4,5) q log_lifts_quiet [of c log js] by (simp add: log_bounded_def)
  with writer_commit [OF assms(2) _ w_commit(3,4)] assms(5) w_commit(1,2) show ?thesis by simp
next
  case (w_put k v)
  then show ?thesis using assms(4) writer_local [OF assms(2), of s' keys] by (simp add: row_write_defs)
next
  case (w_delete k b)
  then have "same_journal s s' \<and> ms_checkpoint s' = ms_checkpoint s \<and> ms_revocations s' = ms_revocations s
      \<and> (\<forall>x. x \<notin> keys \<longrightarrow> fmlookup (ms_driver s') x = fmlookup (ms_driver s) x)"
    by (auto simp: row_write_defs)
  then show ?thesis using assms(4) writer_local [OF assms(2), of s' keys] w_delete(1) by simp
next
  case (w_update k f)
  then have "same_journal s s' \<and> ms_checkpoint s' = ms_checkpoint s \<and> ms_revocations s' = ms_revocations s
      \<and> (\<forall>x. x \<notin> keys \<longrightarrow> fmlookup (ms_driver s') x = fmlookup (ms_driver s) x)"
    by (auto simp: row_write_defs split: option.splits)
  then show ?thesis using assms(4) writer_local [OF assms(2), of s' keys] w_update(1) by simp
next
  case (w_batch batch)
  then have "same_journal s s' \<and> ms_checkpoint s' = ms_checkpoint s \<and> ms_revocations s' = ms_revocations s"
    by (simp add: row_write_defs)
  then show ?thesis using assms(4) writer_local [OF assms(2), of s' keys] batch_lookup [of _ batch s] w_batch by simp
next
  case (w_revocation op)
  then show ?thesis using writer_revocation [OF assms(2-4) w_revocation(3)] assms(5) by simp
qed

section \<open>The invariant of the system\<close>

definition cluster_inv :: "codecs \<Rightarrow> wire \<Rightarrow> checkpoint_identity \<Rightarrow> cluster \<Rightarrow> bool" where
  "cluster_inv c w identity cl \<longleftrightarrow> writer_ok c identity (cl_log cl) (cl_local cl) (cl_writer cl) \<and> log_bounded c (cl_log cl)
     \<and> (\<forall>r. \<exists>n \<le> length (cl_log cl). replica_ok c w (ci_source identity) (take n (cl_log cl)) (cl_replicas cl r))
     \<and> (\<forall>p \<in> cl_pages cl. page_of_log (ci_source identity) (cl_log cl) p)
     \<and> (\<forall>m \<in> cl_manifests cl. cm_identity m = identity \<and> (\<exists>st. publishes c (cl_log cl) m st))"

lemma start_rows: "rows_agree a fmempty (log_rows [])"
  by (simp add: rows_agree_def log_rows_def)

lemma cluster_inv_start: "cluster_inv c w identity cluster_start"
proof -
  have m: "journal_matches [] meta_store_empty" by (simp add: journal_matches_def meta_store_empty_def)
  have rev: "rev_inv (ms_revocations meta_store_empty)" "open_rows (ms_revocations meta_store_empty) = log_revocations c []"
    using rev_inv_absent by (simp_all add: meta_store_empty_def open_rows_def revocation_tables_absent_def log_revocations_def)
  have "replica_ok c w (ci_source identity) [] meta_store_empty"
    using m rev start_rows by (simp add: replica_ok_def stored_cursor_def meta_store_empty_def)
  moreover have "writer_ok c identity [] {} meta_store_empty"
    using m rev start_rows
    by (simp add: writer_ok_def publication_ok_def meta_store_empty_def checkpoint_tables_empty_def)
  ultimately show ?thesis by (simp add: cluster_inv_def cluster_start_def log_bounded_def log_decodes_def log_lifts_def)
qed

lemma writer_same:
  assumes "writer_ok c identity log loc s" "journal_matches log s'" "publication_ok c log s'"
    and "ms_driver s' = ms_driver s" "ms_revocations s' = ms_revocations s"
    and "\<forall>m. ct_manifest (ms_checkpoint s') = Some m \<longrightarrow> cm_identity m = identity"
  shows "writer_ok c identity log loc s'"
  using assms by (simp add: writer_ok_def)

lemma writer_publish:
  assumes "writer_ok c identity log loc s" "log_bounded c log"
    and run: "publish_checkpoint_with_sizes c s now identity supplemental scan = Inr (m, s')"
    and ok: "\<And>st. publication_state c s supplemental scan = Inr st \<Longrightarrow> state_ok c st"
  shows "writer_ok c identity log loc s'"
proof -
  have pre: "journal_matches log s" "log_decodes c log" "publication_ok c log s"
    using assms by (simp_all add: writer_ok_def log_bounded_def)
  note p = publish_ok [OF pre run ok]
  from run have "(s' = s) \<or> (\<exists>st. m = (cs_manifest c st identity (ms_serial s))\<lparr>cm_generation := next_generation (ms_checkpoint s)\<rparr>
      \<and> s' = write_publication s st m (ms_serial s))"
    by (rule publish_cases) blast+
  then show ?thesis
  proof (elim disjE exE conjE)
    fix st assume "m = (cs_manifest c st identity (ms_serial s))\<lparr>cm_generation := next_generation (ms_checkpoint s)\<rparr>"
      "s' = write_publication s st m (ms_serial s)"
    then show ?thesis
      by (intro writer_same [OF assms(1) p(2,1)]) (simp_all add: write_publication_def cs_manifest_def Let_def)
  qed (use assms in simp)
qed

lemma prune_frame:
  "ms_driver (snd (prune_journal_batch s n)) = ms_driver s" "ms_revocations (snd (prune_journal_batch s n)) = ms_revocations s"
  "ms_checkpoint (snd (prune_journal_batch s n)) = ms_checkpoint s" "ms_retained_floor (snd (prune_journal_batch s n)) = ms_retained_floor s"
proof -
  let ?drop = "\<lambda>t serial. t\<lparr>ms_journal := fmdrop serial (ms_journal t),
    ms_journal_mutations := fmdrop serial (ms_journal_mutations t), ms_journal_blobs := fmdrop serial (ms_journal_blobs t)\<rparr>"
  have "ms_driver (foldl ?drop s ns) = ms_driver s \<and> ms_revocations (foldl ?drop s ns) = ms_revocations s
      \<and> ms_checkpoint (foldl ?drop s ns) = ms_checkpoint s \<and> ms_retained_floor (foldl ?drop s ns) = ms_retained_floor s" for ns
    by (induction ns arbitrary: s) simp_all
  then show "ms_driver (snd (prune_journal_batch s n)) = ms_driver s" "ms_revocations (snd (prune_journal_batch s n)) = ms_revocations s"
    "ms_checkpoint (snd (prune_journal_batch s n)) = ms_checkpoint s" "ms_retained_floor (snd (prune_journal_batch s n)) = ms_retained_floor s"
    by (simp_all add: prune_journal_batch_def Let_def)
qed

lemma writer_prune:
  assumes "writer_ok c identity log loc s"
  shows "writer_ok c identity log loc (snd (prune_journal_batch s n))"
  by (rule writer_same [OF assms])
    (use assms prune_matches [of log s n] publication_ok_grow [of c log s "snd (prune_journal_batch s n)" "[]"]
      in \<open>simp_all add: writer_ok_def prune_frame\<close>)

lemma writer_serve:
  assumes "writer_ok c identity log loc s" "checkpoint_chunk_at_generation c s now generation cursor budget = Inr (chunk, s')"
  shows "writer_ok c identity log loc s'"
proof -
  from assms(2) obtain pin where "s' = s\<lparr>ms_checkpoint := (ms_checkpoint s)\<lparr>ct_pin := Some pin\<rparr>\<rparr>"
    by (auto simp: checkpoint_chunk_at_generation_def Let_def and_then_Inr_iff split: if_splits)
  moreover from this have "same_journal s s'" by (simp add: same_journal_def)
  ultimately show ?thesis
    by (intro writer_same [OF assms(1)])
      (use assms(1) journal_matches_same publication_ok_grow [of c log s s' "[]"] in \<open>auto simp: writer_ok_def\<close>)
qed

lemma replica_journal: "replica_ok c w src log s \<Longrightarrow> journal_matches log s"
  by (simp add: replica_ok_def)

lemma relayed_page:
  assumes "replica_ok c w src log s" "wire_laws w" "serve_follower_changes w s after limit cancelled = Encoded p"
  shows "page_of_log src log p"
proof -
  from replica_state_eq [OF assms(1,2)] obtain st where st: "replica_state_of w s = Inr st" "\<forall>x. st = Some x \<longrightarrow> rs_source x = src"
    by metis
  with assms(3) obtain x where "st = Some x" "build_change_page w s (rs_source x) after limit cancelled = Encoded p"
    by (auto simp: serve_follower_changes_def split: option.splits)
  with st(2) build_page_of_log(1) [OF replica_journal [OF assms(1)] assms(2)] show ?thesis by blast
qed

lemma replica_reopened:
  assumes "replica_ok c w src log s" "length log < 2 ^ 64"
  shows "replica_ok c w src log (revocation_step encode s OpReopen)"
proof -
  have "same_journal s (revocation_step encode s OpReopen)" by (simp add: same_journal_def)
  from journal_matches_same [OF this] writer_backfill [of "ms_revocations s" c log] assms show ?thesis
    by (simp add: replica_ok_def stored_cursor_def)
qed

lemma cluster_inv_replica:
  assumes "cluster_inv c w identity cl" "n \<le> length (cl_log cl)" "replica_ok c w (ci_source identity) (take n (cl_log cl)) s'"
  shows "cluster_inv c w identity (cl\<lparr>cl_replicas := (cl_replicas cl)(r := s')\<rparr>)"
  using assms by (auto simp: cluster_inv_def)

lemma cluster_inv_writer:
  assumes "cluster_inv c w identity cl" "writer_ok c identity (cl_log cl) (cl_local cl) s'"
  shows "cluster_inv c w identity (cl\<lparr>cl_writer := s'\<rparr>)"
  using assms by (simp add: cluster_inv_def)

lemma cluster_inv_grow:
  assumes "cluster_inv c w identity cl" "writer_ok c identity (cl_log cl @ js) loc s'" "log_bounded c (cl_log cl @ js)"
  shows "cluster_inv c w identity (cl\<lparr>cl_writer := s', cl_log := cl_log cl @ js, cl_local := loc\<rparr>)"
proof -
  have "\<exists>n \<le> length (cl_log cl @ js). replica_ok c w (ci_source identity) (take n (cl_log cl @ js)) (cl_replicas cl r)" for r
  proof -
    obtain n where "n \<le> length (cl_log cl)" "replica_ok c w (ci_source identity) (take n (cl_log cl)) (cl_replicas cl r)"
      using assms(1) unfolding cluster_inv_def by blast
    then show ?thesis by (intro exI [of _ n]) simp
  qed
  moreover have "\<forall>p \<in> cl_pages cl. page_of_log (ci_source identity) (cl_log cl @ js) p"
    using assms(1) page_of_log_grow unfolding cluster_inv_def by blast
  moreover have "\<forall>m \<in> cl_manifests cl. cm_identity m = identity \<and> (\<exists>st. publishes c (cl_log cl @ js) m st)"
    using assms(1) publishes_grow unfolding cluster_inv_def by blast
  ultimately show ?thesis using assms(2,3) by (simp add: cluster_inv_def)
qed

lemma cluster_inv_page:
  assumes "cluster_inv c w identity cl" "page_of_log (ci_source identity) (cl_log cl) p"
  shows "cluster_inv c w identity (cl\<lparr>cl_pages := insert p (cl_pages cl)\<rparr>)"
  using assms by (simp add: cluster_inv_def)

lemma cluster_inv_manifest:
  assumes "cluster_inv c w identity cl" "ct_manifest (ms_checkpoint (cl_writer cl)) = Some m"
  shows "cluster_inv c w identity (cl\<lparr>cl_manifests := insert m (cl_manifests cl)\<rparr>)"
proof -
  have "publication_ok c (cl_log cl) (cl_writer cl)" "cm_identity m = identity"
    using assms by (simp_all add: cluster_inv_def writer_ok_def)
  with assms show ?thesis by (auto simp: cluster_inv_def publication_ok_def)
qed

lemma cluster_inv_step:
  assumes inv: "cluster_inv c w identity cl" and laws: "codec_laws c" "wire_laws w"
    and step: "cluster_step c w identity cl cl'" and len: "length (cl_log cl') < 2 ^ 64 - 1"
  shows "cluster_inv c w identity cl'"
proof -
  have w: "writer_ok c identity (cl_log cl) (cl_local cl) (cl_writer cl)" "log_bounded c (cl_log cl)"
    using inv by (simp_all add: cluster_inv_def)
  have len0: "length (cl_log cl) < 2 ^ 64" "length (cl_log cl) < 2 ^ 64 - 1" using w(2) by (simp_all add: log_bounded_def)
  have rep: "\<exists>n \<le> length (cl_log cl). replica_ok c w (ci_source identity) (take n (cl_log cl)) (cl_replicas cl r)" for r
    using inv by (simp add: cluster_inv_def)
  from step show ?thesis
  proof cases
    case (writes s' js keys)
    with writer_write_ok [OF writes(2) w(1) laws(1) w(2)] len show ?thesis
      by (auto intro!: cluster_inv_grow [OF inv])
  next
    case (publish now supplemental scan m s')
    then show ?thesis using writer_publish [OF w publish(2,3)] cluster_inv_writer [OF inv] by blast
  next
    case (prune limit pruned s')
    then show ?thesis using writer_prune [OF w(1), of limit] cluster_inv_writer [OF inv] by simp
  next
    case (serve_chunk now generation cursor budget chunk s')
    then show ?thesis using writer_serve [OF w(1)] cluster_inv_writer [OF inv] by blast
  next
    case (send_page after limit cancelled p)
    moreover have "journal_matches (cl_log cl) (cl_writer cl)" using w(1) by (simp add: writer_ok_def)
    ultimately show ?thesis using build_page_of_log(1) [OF _ laws(2)] cluster_inv_page [OF inv] by blast
  next
    case (relay_page r after limit cancelled p)
    then show ?thesis using rep [of r] relayed_page [OF _ laws(2)] page_of_log_take cluster_inv_page [OF inv] by blast
  next
    case (send_manifest m)
    then show ?thesis using cluster_inv_manifest [OF inv] by blast
  next
    case (replica_apply p r limit owned now a s')
    from rep [of r] obtain n where n: "n \<le> length (cl_log cl)" "replica_ok c w (ci_source identity) (take n (cl_log cl)) (cl_replicas cl r)"
      by blast
    have "page_of_log (ci_source identity) (cl_log cl) p" using inv replica_apply(2) by (simp add: cluster_inv_def)
    from apply_page_prefix [OF n(2,1) w(2) laws(2) this replica_apply(3)] cluster_inv_replica [OF inv] replica_apply(1)
    show ?thesis by blast
  next
    case (replica_install m r windows s')
    from rep [of r] obtain n where n: "n \<le> length (cl_log cl)" "replica_ok c w (ci_source identity) (take n (cl_log cl)) (cl_replicas cl r)"
      by blast
    obtain st where st: "publishes c (cl_log cl) m st" "cm_identity m = identity"
      using inv replica_install(2) by (auto simp: cluster_inv_def)
    then have N: "unat (cm_serial m) \<le> length (cl_log cl)" by (simp add: publishes_def)
    have "\<exists>k \<le> length (cl_log cl). replica_ok c w (ci_source identity) (take k (cl_log cl)) s'"
      using install_prefix [OF n(2) laws(1) len0(2) st(1) _ replica_install(3)] st(2) n(1) N replica_install(4)
      by (auto split: sum.splits prod.splits)
    then show ?thesis using cluster_inv_replica [OF inv] replica_install(1) by blast
  next
    case (replica_reopen s' r)
    from rep [of r] obtain n where n: "n \<le> length (cl_log cl)" "replica_ok c w (ci_source identity) (take n (cl_log cl)) (cl_replicas cl r)"
      by blast
    from replica_reopened [OF n(2), of "enc_server c"] len0(1) cluster_inv_replica [OF inv n(1)] replica_reopen show ?thesis by simp
  qed
qed

lemma cluster_step_log: "cluster_step c w identity cl cl' \<Longrightarrow> length (cl_log cl) \<le> length (cl_log cl')"
  by (induction rule: cluster_step.induct) simp_all

lemma cluster_run_inv:
  assumes "cluster_run c w identity cl" "codec_laws c" "wire_laws w" "length (cl_log cl) < 2 ^ 64 - 1"
  shows "cluster_inv c w identity cl"
  using assms(1,4)
proof induction
  case run_start
  show ?case by (rule cluster_inv_start)
next
  case (run_step cl cl')
  then show ?case using cluster_inv_step [OF _ assms(2,3) run_step.hyps(2)] cluster_step_log [OF run_step.hyps(2)] by simp
qed

section \<open>What replication guarantees\<close>

lemma replica_serial: "replica_ok c w src (take n log) s \<Longrightarrow> n \<le> length log \<Longrightarrow> length log < 2 ^ 64 \<Longrightarrow> unat (ms_serial s) = n"
  by (simp add: replica_ok_def journal_matches_def unat_u64_of_nat)

text \<open>C26: Whatever the writer commits, publishes and prunes, whatever pages and manifests are delayed, repeated, reordered or
  relayed, and whatever bytes a checkpoint transfer delivers, a replica at serial \<open>n\<close> holds exactly the rows and the
  revocations that the first \<open>n\<close> entries of the writer's log leave behind, apart from its own cursor row.\<close>

theorem replica_holds_prefix:
  assumes "cluster_run c w identity cl" "codec_laws c" "wire_laws w" "length (cl_log cl) < 2 ^ 64 - 1"
    and "s = cl_replicas cl r" "n = unat (ms_serial s)"
  shows "n \<le> length (cl_log cl) \<and> rows_agree {REPLICA_STATE_KEY} (ms_driver s) (log_rows (take n (cl_log cl)))
    \<and> (\<forall>d. digest_revocation_of (ms_revocations s) d = fmlookup (log_revocations c (take n (cl_log cl))) (canonical d))"
proof -
  from cluster_run_inv [OF assms(1-4)] obtain k where k: "k \<le> length (cl_log cl)" "replica_ok c w (ci_source identity) (take k (cl_log cl)) s"
    using assms(5) unfolding cluster_inv_def by blast
  then have "n = k" using replica_serial [OF k(2,1)] assms(4,6) by simp
  with k show ?thesis by (simp add: replica_ok_def digest_revocation_of_eq)
qed

text \<open>C27: A replica whose serial is the writer's holds every row of the writer that the writer did not write outside its
  journal, and answers every revocation question the way the writer does.\<close>

theorem caught_up_replica_equals_writer:
  assumes "cluster_run c w identity cl" "codec_laws c" "wire_laws w" "length (cl_log cl) < 2 ^ 64 - 1"
    and "s = cl_replicas cl r" "ms_serial s = ms_serial (cl_writer cl)"
  shows "rows_agree (insert REPLICA_STATE_KEY (cl_local cl)) (ms_driver s) (ms_driver (cl_writer cl))
    \<and> (\<forall>d. digest_revocation_of (ms_revocations s) d = digest_revocation_of (ms_revocations (cl_writer cl)) d)
    \<and> has_active_digest_revocation (ms_revocations s) = has_active_digest_revocation (ms_revocations (cl_writer cl))"
proof -
  note inv = cluster_run_inv [OF assms(1-4)]
  then obtain k where k: "k \<le> length (cl_log cl)" "replica_ok c w (ci_source identity) (take k (cl_log cl)) s"
    using assms(5) unfolding cluster_inv_def by blast
  have wr: "writer_ok c identity (cl_log cl) (cl_local cl) (cl_writer cl)" using inv by (simp add: cluster_inv_def)
  have "unat (ms_serial (cl_writer cl)) = length (cl_log cl)" using wr by (simp add: writer_ok_def journal_matches_def unat_u64_of_nat)
  then have "k = length (cl_log cl)" using replica_serial [OF k(2,1)] assms(4,6) by simp
  with k wr show ?thesis
    by (auto simp: replica_ok_def writer_ok_def rows_agree_def digest_revocation_of_eq has_active_iff)
qed

text \<open>C28: However often the writer publishes and prunes, its published checkpoint together with the journal it still retains
  folds to the state of everything it ever journaled.\<close>

theorem checkpoint_and_journal_complete:
  assumes "cluster_run c w identity cl" "codec_laws c" "wire_laws w" "length (cl_log cl) < 2 ^ 64 - 1"
    and "published_checkpoint (cl_writer cl) = Some (m, st)"
  shows "cs_rows st = log_rows (take (unat (cm_serial m)) (cl_log cl))
    \<and> cs_revocations st = log_revocations c (take (unat (cm_serial m)) (cl_log cl))
    \<and> (\<exists>st'. fold_journal c (cl_writer cl) st (cm_serial m) (ms_serial (cl_writer cl)) = Inr st'
         \<and> cs_rows st' = log_rows (cl_log cl) \<and> cs_revocations st' = log_revocations c (cl_log cl))"
proof -
  let ?s = "cl_writer cl" and ?log = "cl_log cl" and ?n = "unat (cm_serial m)"
  note inv = cluster_run_inv [OF assms(1-4)]
  then have ok: "journal_matches ?log ?s" "publication_ok c ?log ?s" "log_decodes c ?log"
    by (simp_all add: cluster_inv_def writer_ok_def log_bounded_def)
  have pub: "ct_manifest (ms_checkpoint ?s) = Some m" "st = tables_state (ms_checkpoint ?s)"
    using assms(5) by (auto simp: published_checkpoint_def)
  then have st: "cs_rows st = log_rows (take ?n ?log)" "cs_revocations st = log_revocations c (take ?n ?log)"
    using ok(2) by (auto simp: publication_ok_def publishes_def tables_state_def)
  have "unat (retained_from ?s) \<le> Suc ?n" using retained_covers_checkpoint [OF ok(2)] assms(5) by simp
  note fold = fold_journal_eq [OF ok(1,3) this, of st]
  let ?st = "foldl (cs_apply_entry c) st (drop ?n ?log)"
  have "cs_rows ?st = log_rows ?log" "cs_revocations ?st = log_revocations c ?log"
    using st log_rows_append [of "take ?n ?log" "drop ?n ?log"] log_revocations_append [of c "take ?n ?log" "drop ?n ?log"]
    by (simp_all add: fold_entries)
  with fold st show ?thesis by blast
qed

section \<open>A run\<close>

definition sample_wire :: wire where
  "sample_wire = \<lparr>change_size = (\<lambda>_. 100), enc_state = (\<lambda>st. to_le_bytes (rs_serial st) @ rs_source st),
     dec_state = (\<lambda>raw. Some \<lparr>rs_source = drop 8 raw, rs_serial = from_le_bytes (take 8 raw)\<rparr>)\<rparr>"

lemma sample_wire_laws: "wire_laws sample_wire"
  by (simp add: wire_laws_def sample_wire_def)

definition run_writer :: meta_store where
  "run_writer = (case commit_driver_txn meta_store_empty True 0 (calls_body [CallPut ''k'' ''v''] [''e'']) of
     Inr (_, s) \<Rightarrow> s | Inl _ \<Rightarrow> meta_store_empty)"

definition run_page :: change_page where
  "run_page = (case build_change_page sample_wire run_writer ''a'' 0 5 (\<lambda>_. False) of
     Encoded p \<Rightarrow> p | _ \<Rightarrow> \<lparr>cp_version = 0, cp_source = [], cp_after = 0, cp_current_serial = 0, cp_changes = []\<rparr>)"

definition run_replica :: meta_store where
  "run_replica = (case apply_page sample_codecs sample_wire meta_store_empty 5 True 0 run_page of
     Inr (_, s) \<Rightarrow> s | Inl _ \<Rightarrow> meta_store_empty)"

definition run_log :: "journal_entry list" where
  "run_log = [\<lparr>je_payload = ''e'', je_mutations = [MutPut ''k'' ''v''], je_blobs = []\<rparr>]"

definition run_cluster :: cluster where
  "run_cluster = \<lparr>cl_writer = run_writer, cl_replicas = (\<lambda>_. meta_store_empty)(''r'' := run_replica), cl_pages = {run_page},
     cl_manifests = {}, cl_log = run_log, cl_local = {}\<rparr>"

lemma run_journal: "txn_journal meta_store_empty [CallPut ''k'' ''v''] [''e''] = run_log"
  by code_simp

lemma run_local: "txn_local meta_store_empty [CallPut ''k'' ''v''] [''e''] = {}"
  by (simp add: txn_local_def)

lemma run_commit: "commit_driver_txn meta_store_empty True 0 (calls_body [CallPut ''k'' ''v''] [''e'']) = Inr ((), run_writer)"
proof -
  have "(case commit_driver_txn meta_store_empty True 0 (calls_body [CallPut ''k'' ''v''] [''e'']) of Inr _ \<Rightarrow> True | Inl _ \<Rightarrow> False)"
    by code_simp
  then show ?thesis unfolding run_writer_def by (auto split: sum.splits)
qed

lemma run_built: "build_change_page sample_wire run_writer ''a'' 0 5 (\<lambda>_. False) = Encoded run_page"
  and run_page_eq: "cp_changes run_page \<noteq> []" "cp_after run_page = 0" "length (cp_changes run_page) \<le> 5"
proof -
  have "(case build_change_page sample_wire run_writer ''a'' 0 5 (\<lambda>_. False) of Encoded p \<Rightarrow> True | _ \<Rightarrow> False)"
    by code_simp
  then show "build_change_page sample_wire run_writer ''a'' 0 5 (\<lambda>_. False) = Encoded run_page"
    unfolding run_page_def by (auto split: change_page_body.splits)
  show "cp_changes run_page \<noteq> []" "cp_after run_page = 0" "length (cp_changes run_page) \<le> 5" by code_simp+
qed

lemma run_facts:
  shows run_bounded: "log_bounded sample_codecs run_log" and run_clean: "log_clean run_log"
    and run_writer_ok: "writer_ok sample_codecs sample_identity run_log {} run_writer"
proof -
  show "log_bounded sample_codecs run_log"
    by (simp add: log_bounded_def log_decodes_def log_lifts_def server_records_def sample_codecs_def run_log_def)
  show "log_clean run_log"
    by (simp add: log_clean_def run_log_def keys_allowed_def starts_with_def REPLICA_KEY_PREFIX_def)
  have "writer_ok sample_codecs sample_identity [] {} meta_store_empty"
    using cluster_inv_start [of sample_codecs sample_wire sample_identity] by (simp add: cluster_inv_def cluster_start_def)
  from writer_commit [OF this _ run_commit] show "writer_ok sample_codecs sample_identity run_log {} run_writer"
    by (simp add: run_journal run_local run_log_def sample_codecs_def)
qed

lemma run_replica_start: "replica_ok sample_codecs sample_wire ''a'' (take 0 run_log) meta_store_empty"
  using cluster_inv_start [of sample_codecs sample_wire sample_identity]
  by (simp add: cluster_inv_def cluster_start_def sample_identity_def)

lemma run_page_ok: "page_of_log ''a'' run_log run_page"
  using build_page_of_log(1) [OF _ sample_wire_laws run_built] run_writer_ok by (simp add: writer_ok_def)

lemma run_applied: "\<exists>a. apply_page sample_codecs sample_wire meta_store_empty 5 True 0 run_page = Inr (a, run_replica)"
proof -
  have "\<exists>a s'. apply_page sample_codecs sample_wire meta_store_empty 5 True 0 run_page = Inr (a, s')"
    by (rule apply_page_accepts [OF run_replica_start _ run_bounded sample_wire_laws run_clean run_page_ok])
      (use run_page_eq in simp_all)
  then show ?thesis unfolding run_replica_def by auto
qed

lemma run_reached: "cluster_run sample_codecs sample_wire sample_identity run_cluster"
proof -
  let ?step = "cluster_step sample_codecs sample_wire sample_identity"
  define c1 where "c1 = cluster_start\<lparr>cl_writer := run_writer, cl_log := cl_log cluster_start @ run_log, cl_local := cl_local cluster_start \<union> {}\<rparr>"
  define c2 where "c2 = c1\<lparr>cl_pages := insert run_page (cl_pages c1)\<rparr>"
  have "writer_write sample_codecs meta_store_empty run_writer run_log {}"
    using writer_write.w_commit [OF run_commit, of sample_codecs] by (simp add: run_journal run_local sample_codecs_def)
  then have 1: "?step cluster_start c1" unfolding c1_def by (intro cluster_step.writes) (simp add: cluster_start_def)
  have 2: "?step c1 c2" unfolding c2_def
    by (rule cluster_step.send_page [where after = 0 and limit = 5 and cancelled = "\<lambda>_. False"])
      (simp add: c1_def run_built sample_identity_def)
  have "cl_replicas c2 ''r'' = meta_store_empty" by (simp add: c2_def c1_def cluster_start_def)
  with run_applied obtain a where "apply_page sample_codecs sample_wire (cl_replicas c2 ''r'') 5 True 0 run_page = Inr (a, run_replica)" by auto
  moreover have "run_page \<in> cl_pages c2" by (simp add: c2_def)
  ultimately have 3: "?step c2 (c2\<lparr>cl_replicas := (cl_replicas c2)(''r'' := run_replica)\<rparr>)"
    by (intro cluster_step.replica_apply)
  moreover have "c2\<lparr>cl_replicas := (cl_replicas c2)(''r'' := run_replica)\<rparr> = run_cluster"
    by (simp add: c2_def c1_def cluster_start_def run_cluster_def)
  ultimately show ?thesis using 1 2 cluster_run.intros by metis
qed

lemma run_short: "length (cl_log run_cluster) < 2 ^ 64 - 1"
  by (simp add: run_cluster_def run_log_def)

lemma run_serials: "ms_serial run_writer = 1" "ms_serial run_replica = 1"
proof -
  show "ms_serial run_writer = 1" using run_writer_ok by (simp add: writer_ok_def journal_matches_def run_log_def)
  from run_applied obtain a where "apply_page sample_codecs sample_wire meta_store_empty 5 True 0 run_page = Inr (a, run_replica)" by blast
  from apply_page_prefix [OF run_replica_start _ run_bounded sample_wire_laws run_page_ok this] run_page_eq(1)
  show "ms_serial run_replica = 1"
    by (auto simp: replica_ok_def journal_matches_def run_log_def le_Suc_eq)
qed

lemma replica_holds_prefix_witness:
  "fmlookup (ms_driver run_replica) ''k'' = Some ''v'' \<and> digest_revocation_of (ms_revocations run_replica) ''aa'' = None"
proof -
  have "log_rows run_log = fmupd ''k'' ''v'' fmempty" "log_revocations sample_codecs run_log = fmempty"
    by (simp_all add: log_rows_def log_revocations_def run_log_def server_records_def sample_codecs_def)
  moreover have "take 1 run_log = run_log" "''k'' \<noteq> REPLICA_STATE_KEY"
    by (simp_all add: run_log_def REPLICA_STATE_KEY_def REPLICA_KEY_PREFIX_def)
  ultimately show ?thesis
    using replica_holds_prefix [OF run_reached sample_codec_laws sample_wire_laws run_short refl refl, of "''r''"] run_serials
    by (simp add: run_cluster_def rows_agree_def)
qed

lemma caught_up_replica_equals_writer_witness:
  "rows_agree {REPLICA_STATE_KEY} (ms_driver run_replica) (ms_driver run_writer)"
  using caught_up_replica_equals_writer [OF run_reached sample_codec_laws sample_wire_laws run_short refl, of "''r''"] run_serials
  by (simp add: run_cluster_def)

definition run_published :: meta_store where
  "run_published = (case publish_checkpoint_with_sizes sample_codecs run_writer 0 sample_identity fmempty (\<lambda>_. Inr {||}) of
     Inr (_, s) \<Rightarrow> s | Inl _ \<Rightarrow> meta_store_empty)"

lemma run_publication: "publication_state sample_codecs run_writer fmempty (\<lambda>_. Inr {||}) = Inr sample_state"
proof -
  have none: "ct_manifest (ms_checkpoint run_writer) = None" by code_simp
  have ok: "journal_matches run_log run_writer" "log_decodes sample_codecs run_log" "publication_ok sample_codecs run_log run_writer"
    using run_writer_ok run_bounded by (simp_all add: writer_ok_def log_bounded_def)
  let ?st = "(foldl (cs_apply_entry sample_codecs) checkpoint_state_default run_log)\<lparr>cs_blobs := {||}\<rparr>"
  have pub: "published_checkpoint run_writer = None" using none by (simp add: published_checkpoint_def)
  have "fold_journal sample_codecs run_writer checkpoint_state_default 0 (ms_serial run_writer) =
      Inr (foldl (cs_apply_entry sample_codecs) checkpoint_state_default run_log)"
    using fold_journal_eq [OF ok(1,2), of 0] retained_covers_checkpoint [OF ok(3)] pub by simp
  moreover have "retain_blobs st {||} fmempty = Inr (st\<lparr>cs_blobs := {||}\<rparr>)" for st
    by (simp add: retain_blobs_def Let_def sorted_list_of_fset.rep_eq)
  ultimately have st: "publication_state sample_codecs run_writer fmempty (\<lambda>_. Inr {||}) = Inr ?st"
    by (simp add: publication_state_def pub Let_def)
  have "?st = sample_state"
    by (simp add: run_log_def cs_apply_entry_def checkpoint_state_default_def sample_state_def server_records_def sample_codecs_def)
  with st show ?thesis by simp
qed

definition run_manifest :: checkpoint_manifest where
  "run_manifest = (cs_manifest sample_codecs sample_state sample_identity 1)\<lparr>cm_generation := 1\<rparr>"

lemma run_publish:
  "publish_checkpoint_with_sizes sample_codecs run_writer 0 sample_identity fmempty (\<lambda>_. Inr {||}) = Inr (run_manifest, run_published)"
  "run_published = write_publication run_writer sample_state run_manifest 1"
proof -
  have none: "ct_manifest (ms_checkpoint run_writer) = None" by code_simp
  then have "publish_checkpoint_with_sizes sample_codecs run_writer 0 sample_identity fmempty (\<lambda>_. Inr {||}) =
      Inr (run_manifest, write_publication run_writer sample_state run_manifest 1)"
    by (simp add: publish_checkpoint_with_sizes_def fold_and_write_def run_publication run_serials next_generation_def run_manifest_def Let_def)
  then show "publish_checkpoint_with_sizes sample_codecs run_writer 0 sample_identity fmempty (\<lambda>_. Inr {||}) = Inr (run_manifest, run_published)"
    "run_published = write_publication run_writer sample_state run_manifest 1"
    by (simp_all add: run_published_def)
qed

lemma run_published_reached: "cluster_run sample_codecs sample_wire sample_identity (run_cluster\<lparr>cl_writer := run_published\<rparr>)"
proof -
  have "cluster_step sample_codecs sample_wire sample_identity run_cluster (run_cluster\<lparr>cl_writer := run_published\<rparr>)"
    by (rule cluster_step.publish [where now = 0 and supplemental = fmempty and scan = "\<lambda>_. Inr {||}" and m = run_manifest])
      (use run_publish(1) run_publication sample_state_state_ok in \<open>auto simp: run_cluster_def\<close>)
  from cluster_run.run_step [OF run_reached this] show ?thesis .
qed

lemma checkpoint_and_journal_complete_witness:
  "\<exists>m st. published_checkpoint run_published = Some (m, st) \<and> cs_rows st = log_rows (take (unat (cm_serial m)) run_log)"
proof -
  have p: "published_checkpoint (cl_writer (run_cluster\<lparr>cl_writer := run_published\<rparr>)) =
      Some (run_manifest, tables_state (ms_checkpoint run_published))"
    by (simp add: published_checkpoint_def run_publish(2) write_publication_def)
  from checkpoint_and_journal_complete [OF run_published_reached sample_codec_laws sample_wire_laws _ p] run_short p
  show ?thesis by (simp add: run_cluster_def)
qed

end
