(* ===== verification/Catch_Up.thy ===== *)
theory Catch_Up
  imports Cluster
begin

text \<open>
  Progress of replication: a page is as full as its limits allow, a replica that keeps synchronising with a quiet writer
  reaches the writer's serial, and one the writer can no longer serve pages to recovers from the published checkpoint.
\<close>

section \<open>Pages are as full as they may be\<close>

text \<open>A raised cancellation flag stays raised.\<close>

definition flag_stays :: "(nat \<Rightarrow> bool) \<Rightarrow> bool" where
  "flag_stays cancelled \<longleftrightarrow> (\<forall>i. cancelled i \<longrightarrow> cancelled (Suc i))"

lemma visit_maximal:
  assumes "\<forall>ch. change_size w ch < 2 ^ 63" "flag_stays cancelled" "pw_used v = of_nat u" "u \<le> 4194304"
    and "\<not> cancelled (pw_polls (visit_loop s (page_visit w cancelled) entries v))"
  shows "\<exists>j \<le> length entries. pw_changes (visit_loop s (page_visit w cancelled) entries v) =
      pw_changes v @ map (change_of \<circ> journal_record_of s) (take j entries)
    \<and> (j < length entries \<longrightarrow>
        u + page_bytes w (map (change_of \<circ> journal_record_of s) (take j entries)) + Suc (change_size w (change_of (journal_record_of s (entries ! j)))) > 4194304
        \<and> (pw_changes v = [] \<and> j = 0 \<longrightarrow> pw_oversized (visit_loop s (page_visit w cancelled) entries v) \<noteq> None))"
  using assms(3-5)
proof (induction entries arbitrary: v u)
  case Nil
  show ?case by simp
next
  case (Cons e entries)
  let ?ch = "change_of (journal_record_of s e)"
  let ?b = "change_size w ?ch"
  have max: "pw_used v + of_nat ?b + 1 > MAX_CHANGE_PAGE_BYTES \<longleftrightarrow> Suc (u + ?b) > 4194304"
    by (rule page_fits [OF _ Cons.prems(1,2)]) (use assms(1) in blast)
  have poll: "\<not> cancelled (pw_polls v)"
  proof
    assume raised: "cancelled (pw_polls v)"
    then have "pw_polls (visit_loop s (page_visit w cancelled) (e # entries) v) = Suc (pw_polls v)"
      by (simp add: page_visit_def Let_def)
    with Cons.prems(3) raised assms(2) show False by (simp add: flag_stays_def)
  qed
  show ?case
  proof (cases "Suc (u + ?b) > 4194304")
    case True
    then have "pw_changes (visit_loop s (page_visit w cancelled) (e # entries) v) = pw_changes v"
      "pw_changes v = [] \<Longrightarrow> pw_oversized (visit_loop s (page_visit w cancelled) (e # entries) v) \<noteq> None"
      using max poll by (simp_all add: page_visit_def Let_def)
    then show ?thesis using True by (intro exI [of _ 0]) (simp add: page_bytes_def)
  next
    case False
    define v' where "v' = v\<lparr>pw_polls := Suc (pw_polls v), pw_used := pw_used v + of_nat ?b + 1, pw_changes := pw_changes v @ [?ch]\<rparr>"
    have loop: "visit_loop s (page_visit w cancelled) (e # entries) v = visit_loop s (page_visit w cancelled) entries v'"
      using False max poll by (simp add: page_visit_def Let_def v'_def)
    have v': "pw_used v' = of_nat (Suc (u + ?b))" "pw_changes v' = pw_changes v @ [?ch]"
      by (simp_all add: v'_def Cons.prems(1) add.commute add.left_commute)
    have "Suc (u + ?b) \<le> 4194304" using False by simp
    from Cons.IH [OF v'(1) this Cons.prems(3) [unfolded loop]] obtain j where "j \<le> length entries"
      "pw_changes (visit_loop s (page_visit w cancelled) entries v') =
         (pw_changes v @ [?ch]) @ map (change_of \<circ> journal_record_of s) (take j entries)"
      "j < length entries \<longrightarrow> Suc (u + ?b) + page_bytes w (map (change_of \<circ> journal_record_of s) (take j entries))
         + Suc (change_size w (change_of (journal_record_of s (entries ! j)))) > 4194304"
      unfolding v'(2) by blast
    then show ?thesis unfolding loop by (intro exI [of _ "Suc j"]) (simp add: page_bytes_def comp_def add.assoc)
  qed
qed

lemma change_page_full:
  assumes "journal_matches log s" "wire_laws w" "flag_stays cancelled" "build_change_page w s src after limit cancelled = Encoded p"
  shows "cp_changes p = map (log_change log) [unat after ..< unat after + length (cp_changes p)]
    \<and> length (cp_changes p) \<le> limit \<and> 4096 + page_bytes w (cp_changes p) \<le> 4194304
    \<and> (unat after + length (cp_changes p) < length log \<longrightarrow>
         (length (cp_changes p) = limit
          \<or> cp_changes p \<noteq> [] \<and> 4096 + page_bytes w (cp_changes p) + Suc (change_size w (log_change log (unat after + length (cp_changes p)))) > 4194304))"
proof -
  define v0 where "v0 = \<lparr>pw_changes = [], pw_used = CHANGE_PAGE_ENVELOPE_BYTES, pw_oversized = None, pw_polls = 0\<rparr>"
  have v0: "pw_used v0 = of_nat 4096" "pw_changes v0 = []" by (simp_all add: v0_def CHANGE_PAGE_ENVELOPE_BYTES_def)
  let ?all = "rows_after (Some after) (ms_journal s)"
  let ?rows = "take limit ?all"
  let ?v = "visit_loop s (page_visit w cancelled) ?rows v0"
  note page = build_page_of_log [OF assms(1,2,4)]
  from assms(4) have nf: "\<not> below_floor after (ms_serial s) (journal_floor s)" and poll: "\<not> cancelled (pw_polls ?v)"
    and over: "pw_oversized ?v = None" and p: "cp_changes p = pw_changes ?v"
    by (auto simp: build_change_page_def visit_retained_journal_page_def v0_def split: if_splits option.splits)
  note recs = journal_records_after [OF assms(1) not_below_floor [OF nf]]
  have rows: "length ?all = length log - unat after" using arg_cong [OF recs, of length] by simp
  have change: "change_of (journal_record_of s (?all ! j)) = log_change log (unat after + j)" if "j < length ?all" for j
    using arg_cong [OF recs, of "\<lambda>xs. xs ! j"] that rows by (simp add: log_change_def)
  have "\<forall>ch. change_size w ch < 2 ^ 63" using assms(2) by (simp add: wire_laws_def)
  moreover have "(4096 :: nat) \<le> 4194304" by simp
  ultimately obtain j where j: "j \<le> length ?rows"
    "pw_changes ?v = map (change_of \<circ> journal_record_of s) (take j ?rows)"
    "j < length ?rows \<longrightarrow> 4096 + page_bytes w (map (change_of \<circ> journal_record_of s) (take j ?rows))
         + Suc (change_size w (change_of (journal_record_of s (?rows ! j)))) > 4194304 \<and> (j = 0 \<longrightarrow> pw_oversized ?v \<noteq> None)"
    using visit_maximal [OF _ assms(3) v0(1) _ poll] unfolding v0(2) append_Nil simp_thms by blast
  have len: "length (cp_changes p) = j" using j(1,2) p by simp
  have "length (cp_changes p) = limit \<or> cp_changes p \<noteq> [] \<and> 4096 + page_bytes w (cp_changes p) + Suc (change_size w (log_change log (unat after + j))) > 4194304"
    if more: "unat after + j < length log"
  proof (cases "j = limit")
    case False
    then have lt: "j < length ?rows" "j < length ?all" "?rows ! j = ?all ! j" using j(1) rows more by auto
    with j(3) over have "j \<noteq> 0" by auto
    moreover have "4096 + page_bytes w (pw_changes ?v) + Suc (change_size w (log_change log (unat after + j))) > 4194304"
      using j(3) lt change [OF lt(2)] unfolding j(2) by simp
    ultimately show ?thesis using len p by auto
  qed (simp add: len)
  with page(1,2,3,4) len show ?thesis by (simp add: page_of_log_def)
qed

text \<open>C29: A page that is sent carries the writer's log from the reader's cursor on without a gap, within the count and the
  byte limit; and when records remain it is not empty and stopped only because the count was reached or the next
  record would not have fitted.\<close>

theorem change_page_bounded:
  assumes "journal_matches log s" "wire_laws w" "flag_stays cancelled" "build_change_page w s src after limit cancelled = Encoded p"
  shows "cp_changes p = map (log_change log) [unat after ..< unat after + length (cp_changes p)]
    \<and> length (cp_changes p) \<le> limit \<and> 4096 + page_bytes w (cp_changes p) \<le> 4194304
    \<and> (unat after + length (cp_changes p) < length log \<longrightarrow>
         (length (cp_changes p) = limit
          \<or> cp_changes p \<noteq> [] \<and> 4096 + page_bytes w (cp_changes p) + Suc (change_size w (log_change log (unat after + length (cp_changes p)))) > 4194304))"
  using change_page_full [OF assms] .

lemma change_page_bounded_witness:
  "length (cp_changes run_page) \<le> 5 \<and> 4096 + page_bytes sample_wire (cp_changes run_page) \<le> 4194304"
proof -
  have "journal_matches run_log run_writer" using run_writer_ok by (simp add: writer_ok_def)
  from change_page_bounded [OF this sample_wire_laws _ run_built] show ?thesis by (simp add: flag_stays_def)
qed

section \<open>Synchronising until caught up\<close>

lemma visit_not_oversized:
  assumes "\<forall>ch. change_size w ch < 2 ^ 63"
    and "\<forall>e \<in> set entries. 4096 + Suc (change_size w (change_of (journal_record_of s e))) \<le> 4194304"
    and "pw_used v = of_nat u" "u \<le> 4194304" "pw_oversized v = None" "pw_changes v = [] \<Longrightarrow> u = 4096"
  shows "pw_oversized (visit_loop s (page_visit w (\<lambda>_. False)) entries v) = None"
  using assms(2-6)
proof (induction entries arbitrary: v u)
  case (Cons e entries)
  let ?b = "change_size w (change_of (journal_record_of s e))"
  have max: "pw_used v + of_nat ?b + 1 > MAX_CHANGE_PAGE_BYTES \<longleftrightarrow> Suc (u + ?b) > 4194304"
    by (rule page_fits [OF _ Cons.prems(2,3)]) (use assms(1) in blast)
  show ?case
  proof (cases "Suc (u + ?b) > 4194304")
    case True
    then have "pw_changes v \<noteq> []" using Cons.prems(1,5) by auto
    with True max Cons.prems(4) show ?thesis by (simp add: page_visit_def Let_def)
  next
    case False
    define v' where "v' = v\<lparr>pw_polls := Suc (pw_polls v), pw_used := pw_used v + of_nat ?b + 1,
      pw_changes := pw_changes v @ [change_of (journal_record_of s e)]\<rparr>"
    have "visit_loop s (page_visit w (\<lambda>_. False)) (e # entries) v = visit_loop s (page_visit w (\<lambda>_. False)) entries v'"
      using False max by (simp add: page_visit_def Let_def v'_def)
    moreover have "pw_oversized (visit_loop s (page_visit w (\<lambda>_. False)) entries v') = None"
      by (rule Cons.IH [of v' "Suc (u + ?b)"])
        (use Cons.prems False in \<open>simp_all add: v'_def add.commute add.left_commute\<close>)
    ultimately show ?thesis by simp
  qed
qed simp

text \<open>A log whose every record fits a page on its own.\<close>

definition log_fits :: "wire \<Rightarrow> journal_entry list \<Rightarrow> bool" where
  "log_fits w log \<longleftrightarrow> (\<forall>i < length log. 4096 + Suc (change_size w (log_change log i)) \<le> 4194304)"

lemma build_encodes:
  assumes "journal_matches log s" "wire_laws w" "log_fits w log" "\<not> below_floor after (ms_serial s) (journal_floor s)"
  shows "\<exists>p. build_change_page w s src after limit (\<lambda>_. False) = Encoded p"
proof -
  define v0 where "v0 = \<lparr>pw_changes = [], pw_used = CHANGE_PAGE_ENVELOPE_BYTES, pw_oversized = None, pw_polls = 0\<rparr>"
  let ?all = "rows_after (Some after) (ms_journal s)"
  note recs = journal_records_after [OF assms(1) not_below_floor [OF assms(4)]]
  have "4096 + Suc (change_size w (change_of (journal_record_of s e))) \<le> 4194304" if "e \<in> set (take limit ?all)" for e
  proof -
    have "journal_record_of s e \<in> set (map (journal_record_of s) ?all)" using in_set_takeD [OF that] by simp
    then obtain i where "i < length log" "journal_record_of s e = record_at log i" unfolding recs by auto
    with assms(3) show ?thesis by (simp add: log_fits_def log_change_def)
  qed
  then have "pw_oversized (visit_loop s (page_visit w (\<lambda>_. False)) (take limit ?all) v0) = None"
    by (intro visit_not_oversized [where u = 4096])
      (use assms(2) in \<open>simp_all add: wire_laws_def v0_def CHANGE_PAGE_ENVELOPE_BYTES_def\<close>)
  with assms(4) show ?thesis by (simp add: build_change_page_def visit_retained_journal_page_def v0_def)
qed

definition writer_answers :: "wire \<Rightarrow> meta_store \<Rightarrow> string \<Rightarrow> u64 \<Rightarrow> usize \<Rightarrow> (sync_error, change_page) result" where
  "writer_answers w s src after limit =
     (case build_change_page w s src after limit (\<lambda>_. False) of Encoded p \<Rightarrow> Inr p | _ \<Rightarrow> Inl SyncPrimary)"

text \<open>Rounds of \<open>sync\<close> against one writer until the outcome says caught up.\<close>

fun sync_rounds ::
  "codecs \<Rightarrow> wire \<Rightarrow> usize \<Rightarrow> (u64 \<Rightarrow> usize \<Rightarrow> (sync_error, change_page) result) \<Rightarrow> nat \<Rightarrow> meta_store \<Rightarrow> (sync_error, meta_store) result" where
  "sync_rounds c w limit changes 0 s = Inr s"
| "sync_rounds c w limit changes (Suc k) s =
     and_then (replica_sync c w s limit True 0 changes) (\<lambda>(a, s').
       if caught_up (ap_outcome a) then Inr s' else sync_rounds c w limit changes k s')"

lemma sync_round:
  assumes rep: "replica_ok c w src (take n log) s" "n \<le> length log" and wr: "journal_matches log writer"
    and laws: "log_bounded c log" "wire_laws w" "log_clean log" "log_fits w log" "src \<noteq> []" "1 \<le> limit"
    and floor: "\<not> below_floor (of_nat n) (ms_serial writer) (journal_floor writer)"
  obtains a s' k where "replica_sync c w s limit True 0 (writer_answers w writer src) = Inr (a, s')" "n < length log \<Longrightarrow> 1 \<le> k" "n + k \<le> length log"
    "replica_ok c w src (take (n + k) log) s'"
    "ap_outcome a = \<lparr>so_changes = k, so_serial = of_nat (n + k), so_primary_serial = of_nat (length log)\<rparr>"
proof -
  have len: "length (take n log) = n" and n: "unat (of_nat n :: u64) = n"
    using rep(2) laws(1) by (simp_all add: log_bounded_def unat_u64_of_nat)
  obtain p where p: "build_change_page w writer src (of_nat n) limit (\<lambda>_. False) = Encoded p"
    using build_encodes [OF wr laws(2,4) floor] by blast
  note page = build_page_of_log [OF wr laws(2) p]
  have "flag_stays (\<lambda>_. False)" by (simp add: flag_stays_def)
  from change_page_full [OF wr laws(2) this p] laws(6) n have some: "n < length log \<Longrightarrow> cp_changes p \<noteq> []" by auto
  have serial: "cp_current_serial p = of_nat (length log)" "unat (of_nat (length log) :: u64) = length log"
    using page(5) wr by (simp_all add: journal_matches_def unat_u64_of_nat)
  then have head: "cp_changes p \<noteq> [] \<or> unat (cp_current_serial p) = n" using some rep(2) le_neq_implies_less by metis
  from apply_page_accepts [OF rep(1) rep(2) laws(1-3) page(1,2) laws(5) page(3) head, of True 0]
  obtain a s' where run: "apply_page c w s limit True 0 p = Inr (a, s')" by blast
  from apply_page_prefix [OF rep(1) rep(2) laws(1,2) page(1) run] obtain k where
    k: "n + k \<le> length log" "replica_ok c w src (take (n + k) log) s'" "k = length (cp_changes p)"
    "ap_outcome a = \<lparr>so_changes = k, so_serial = of_nat (n + k), so_primary_serial = cp_current_serial p\<rparr>" by blast
  from replica_state_eq [OF rep(1) laws(2)] obtain st where "replica_state_of w s = Inr st" "cursor_of st = of_nat n"
    unfolding len by metis
  with p run have "replica_sync c w s limit True 0 (writer_answers w writer src) = Inr (a, s')"
    by (simp add: replica_sync_def writer_answers_def)
  moreover have "n < length log \<Longrightarrow> 1 \<le> k" using some k(3) by (simp add: Suc_le_eq)
  ultimately show thesis using that [OF _ _ k(1,2) k(4) [unfolded serial(1)]] by blast
qed

lemma not_below_later:
  assumes "\<not> below_floor (of_nat n) current fl" "n \<le> m" "m < 2 ^ 64"
  shows "\<not> below_floor (of_nat m) current fl"
proof -
  have "unat (of_nat n :: u64) = n" "unat (of_nat m :: u64) = m" using assms(2,3) by (simp_all add: unat_u64_of_nat)
  with assms show ?thesis by (auto simp: below_floor_def word_less_nat_alt unat_u64_saturating_add split: option.splits)
qed

lemma sync_rounds_reach:
  assumes wr: "journal_matches log writer"
    and laws: "log_bounded c log" "wire_laws w" "log_clean log" "log_fits w log" "src \<noteq> []" "1 \<le> limit"
  shows "replica_ok c w src (take n log) s \<Longrightarrow> n \<le> length log \<Longrightarrow> length log - n \<le> k \<Longrightarrow>
    \<not> below_floor (of_nat n) (ms_serial writer) (journal_floor writer) \<Longrightarrow>
    \<exists>s'. sync_rounds c w limit (writer_answers w writer src) k s = Inr s' \<and> replica_ok c w src log s'"
proof (induction k arbitrary: n s)
  case 0
  then show ?case by simp
next
  case (Suc k)
  from sync_round [OF Suc.prems(1,2) wr laws Suc.prems(4)] obtain a s1 j where
    j: "replica_sync c w s limit True 0 (writer_answers w writer src) = Inr (a, s1)" "n < length log \<Longrightarrow> 1 \<le> j" "n + j \<le> length log"
    "replica_ok c w src (take (n + j) log) s1"
    "ap_outcome a = \<lparr>so_changes = j, so_serial = of_nat (n + j), so_primary_serial = of_nat (length log)\<rparr>" by blast
  have small: "length log < 2 ^ 64" using laws(1) by (simp add: log_bounded_def)
  have cu: "caught_up (ap_outcome a) \<longleftrightarrow> n + j = length log"
  proof -
    have "unat (of_nat (n + j) :: u64) = n + j" "unat (of_nat (length log) :: u64) = length log"
      using j(3) small by (intro unat_u64_of_nat; simp)+
    then show ?thesis unfolding j(5) caught_up_def by (metis sync_outcome.select_convs(2,3))
  qed
  show ?case
  proof (cases "n + j = length log")
    case True
    then show ?thesis using j(1,4) cu by simp
  next
    case False
    then have less: "n + j < length log" using j(3) by simp
    have "\<not> below_floor (of_nat (n + j)) (ms_serial writer) (journal_floor writer)"
      by (rule not_below_later [OF Suc.prems(4)]) (use j(3) small in simp_all)
    moreover have "length log - (n + j) \<le> k" using Suc.prems(3) j(2) less by linarith
    ultimately obtain s' where "sync_rounds c w limit (writer_answers w writer src) k s1 = Inr s'" "replica_ok c w src log s'"
      using Suc.IH [OF j(4,3)] by blast
    then show ?thesis using j(1) cu False by simp
  qed
qed



end
