(* ===== verification/Recovery.thy ===== *)
theory Recovery
  imports Catch_Up
begin

text \<open>
  The transfer of a published checkpoint: the writer's manifest and window handlers, the receiver's reading of a window,
  and the proof that a replica which fell below the writer's retained journal stands at the checkpoint's serial once the
  transfer ends.
\<close>

section \<open>Serving and reading windows\<close>

definition MAX_CHECKPOINT_CHUNK_BYTES :: usize where
  "MAX_CHECKPOINT_CHUNK_BYTES = 4194304"

datatype manifest_reply = ManifestUnauthorized | ManifestNotPublished | ManifestServed checkpoint_manifest

definition serve_checkpoint_manifest :: "meta_store \<Rightarrow> bool \<Rightarrow> manifest_reply" where
  "serve_checkpoint_manifest s authorized =
     (if \<not> authorized then ManifestUnauthorized
      else case ct_manifest (ms_checkpoint s) of Some m \<Rightarrow> ManifestServed m | None \<Rightarrow> ManifestNotPublished)"

datatype chunk_reply = ChunkUnauthorized | ChunkBadCursor | ChunkAtCapacity | ChunkFailed | ChunkServed checkpoint_window

definition serve_checkpoint_chunk ::
  "codecs \<Rightarrow> meta_store \<Rightarrow> i64 \<Rightarrow> bool \<Rightarrow> bool \<Rightarrow> string option \<Rightarrow> chunk_reply \<times> meta_store" where
  "serve_checkpoint_chunk c s now authorized capacity query =
     (if \<not> authorized then (ChunkUnauthorized, s)
      else case Option.bind query (from_generation_token c) of
        None \<Rightarrow> (ChunkBadCursor, s)
      | Some (generation, cursor) \<Rightarrow>
          if \<not> capacity then (ChunkAtCapacity, s)
          else (case checkpoint_chunk_at_generation c s now generation cursor MAX_CHECKPOINT_CHUNK_BYTES of
                  Inl _ \<Rightarrow> (ChunkFailed, s)
                | Inr (chunk, s') \<Rightarrow>
                    (ChunkServed \<lparr>cw_bytes = cc_bytes chunk, cw_next = generation_token c (cc_next chunk) generation\<rparr>, s')))"

text \<open>What the receiver makes of a reply: a window within twice the serving cap, or a transport error.\<close>

definition read_chunk :: "chunk_reply \<Rightarrow> (sync_error, checkpoint_window) result" where
  "read_chunk reply =
     (case reply of
        ChunkServed win \<Rightarrow> if length (cw_bytes win) > MAX_CHECKPOINT_CHUNK_BYTES * 2 then Inl SyncPrimary else Inr win
      | _ \<Rightarrow> Inl SyncPrimary)"

text \<open>The windows one receiver reads, one request per clock reading, until a request fails.\<close>

fun fetch_windows :: "codecs \<Rightarrow> i64 list \<Rightarrow> string \<Rightarrow> meta_store \<Rightarrow> checkpoint_window list" where
  "fetch_windows c [] token s = []"
| "fetch_windows c (now # clock) token s =
     (case serve_checkpoint_chunk c s now True True (Some token) of (reply, s') \<Rightarrow>
        (case read_chunk reply of
           Inl _ \<Rightarrow> []
         | Inr win \<Rightarrow> win # fetch_windows c clock (cw_next win) s'))"

section \<open>Windows\<close>

lemma section_loop_empty:
  assumes "\<And>acc e. push acc e = acc @ push [] e" "\<And>e. push [] e \<noteq> []"
  shows "fst (section_loop push budget es bytes) = [] \<longleftrightarrow> bytes = [] \<and> es = []"
proof (induction es arbitrary: bytes)
  case (Cons e es)
  have "push bytes e \<noteq> []" using assms by (metis append_is_Nil_conv)
  with Cons show ?case by (simp add: Let_def)
qed simp

lemma push_nonempty: "push_row [] e \<noteq> []" "push_revocation c [] r \<noteq> []" "push_blob [] b \<noteq> []"
  by (simp_all add: push_defs split: prod.splits)

text \<open>A window is empty only when nothing is left to send.\<close>

lemma chunk_empty:
  assumes "cc_bytes (checkpoint_chunk_at c t cursor budget) = []"
  shows "tail_bytes c t cursor = []"
proof -
  have blobs: "bytes = [] \<and> rows_after a (ct_blobs t) = []" if "cc_bytes (chunk_blobs t budget a bytes) = []" for a bytes
    using that section_loop_empty [where push = push_blob and budget = budget and es = "rows_after a (ct_blobs t)" and bytes = bytes, OF push_blob_append push_nonempty(3)]
    by (simp add: chunk_blobs_def split: prod.splits)
  have revs: "bytes = [] \<and> rows_after a (ct_revocations t) = [] \<and> rows_after None (ct_blobs t) = []"
    if e: "cc_bytes (chunk_revocations c t budget a bytes) = []" for a bytes
  proof -
    obtain b st where l: "section_loop (push_revocation c) budget (rows_after a (ct_revocations t)) bytes = (b, st)" by force
    then show ?thesis using e section_loop_empty [where push = "push_revocation c" and budget = budget and es = "rows_after a (ct_revocations t)" and bytes = bytes, OF push_revocation_append push_nonempty(2)]
        blobs [of None b] by (cases st) (auto simp: chunk_revocations_def)
  qed
  have rows: "bytes = [] \<and> rows_after a (ct_rows t) = [] \<and> rows_after None (ct_revocations t) = [] \<and> rows_after None (ct_blobs t) = []"
    if e: "cc_bytes (chunk_rows c t budget a bytes) = []" for a bytes
  proof -
    obtain b st where l: "section_loop push_row budget (rows_after a (ct_rows t)) bytes = (b, st)" by force
    then show ?thesis using e section_loop_empty [where push = push_row and budget = budget and es = "rows_after a (ct_rows t)" and bytes = bytes, OF push_row_append push_nonempty(1)]
        revs [of None b] by (cases st) (auto simp: chunk_rows_def)
  qed
  show ?thesis using assms blobs [of _ "[]"] revs [of _ "[]"] rows [of _ "[]"] by (cases cursor) auto
qed

text \<open>A window outgrows its budget by less than one entry.\<close>

lemma section_loop_length:
  assumes "\<And>acc e. push acc e = acc @ push [] e" "\<forall>e \<in> set es. length (push [] e) \<le> n" "length bytes \<le> budget - 1"
    and "section_loop push budget es bytes = (bytes', stopped)"
  shows "length bytes' \<le> budget - 1 + n \<and> (stopped = None \<longrightarrow> length bytes' \<le> budget - 1)
    \<and> (\<forall>k. stopped = Some k \<longrightarrow> k \<in> fst ` set es)"
  using assms(2-4)
proof (induction es arbitrary: bytes)
  case (Cons e es)
  have len: "length (push bytes e) = length bytes + length (push [] e)" using assms(1) [of bytes e] by simp
  show ?case
  proof (cases "budget \<le> length (push bytes e)")
    case True
    then show ?thesis using Cons.prems len by auto
  next
    case False
    then have "length (push bytes e) \<le> budget - 1" by simp
    from Cons.IH [OF _ this] Cons.prems False show ?thesis by auto
  qed
qed auto

definition entries_within :: "codecs \<Rightarrow> nat \<Rightarrow> checkpoint_tables \<Rightarrow> bool" where
  "entries_within c n t \<longleftrightarrow> (\<forall>e \<in> set (sorted_list_of_fmap (ct_rows t)). length (push_row [] e) \<le> n)
     \<and> (\<forall>e \<in> set (sorted_list_of_fmap (ct_revocations t)). length (push_revocation c [] e) \<le> n)
     \<and> (\<forall>e \<in> set (sorted_list_of_fmap (ct_blobs t)). length (push_blob [] e) \<le> n)"

definition table_keys :: "checkpoint_tables \<Rightarrow> string set" where
  "table_keys t = fst ` set (sorted_list_of_fmap (ct_rows t)) \<union> fst ` set (sorted_list_of_fmap (ct_revocations t))
     \<union> fst ` set (sorted_list_of_fmap (ct_blobs t))"

lemma set_rows_after: "set (rows_after a m) \<subseteq> set (sorted_list_of_fmap m)"
  by (auto simp: rows_after_def split: option.splits)

lemma chunk_fits:
  assumes "entries_within c n t"
  shows "length (cc_bytes (checkpoint_chunk_at c t cursor budget)) \<le> budget - 1 + n
    \<and> (\<forall>k. cursor_after (cc_next (checkpoint_chunk_at c t cursor budget)) = Some k \<longrightarrow> k \<in> table_keys t)"
proof -
  let ?ok = "\<lambda>k. length (cc_bytes k) \<le> budget - 1 + n \<and> (\<forall>key. cursor_after (cc_next k) = Some key \<longrightarrow> key \<in> table_keys t)"
  have blobs: "?ok (chunk_blobs t budget a bytes)" if b: "length bytes \<le> budget - 1" for a bytes
  proof -
    obtain b st where l: "section_loop push_blob budget (rows_after a (ct_blobs t)) bytes = (b, st)" by force
    have "\<forall>e \<in> set (rows_after a (ct_blobs t)). length (push_blob [] e) \<le> n"
      using assms set_rows_after [of a "ct_blobs t"] unfolding entries_within_def by blast
    from section_loop_length [OF push_blob_append this b l] set_rows_after [of a "ct_blobs t"] l
    show ?thesis by (cases st) (auto simp: chunk_blobs_def table_keys_def)
  qed
  have revs: "?ok (chunk_revocations c t budget a bytes)" if b: "length bytes \<le> budget - 1" for a bytes
  proof -
    obtain b st where l: "section_loop (push_revocation c) budget (rows_after a (ct_revocations t)) bytes = (b, st)" by force
    have "\<forall>e \<in> set (rows_after a (ct_revocations t)). length (push_revocation c [] e) \<le> n"
      using assms set_rows_after [of a "ct_revocations t"] unfolding entries_within_def by blast
    from section_loop_length [OF push_revocation_append this b l] set_rows_after [of a "ct_revocations t"] l
    show ?thesis using blobs [of b None] by (cases st) (auto simp: chunk_revocations_def table_keys_def)
  qed
  have rows: "?ok (chunk_rows c t budget a bytes)" if b: "length bytes \<le> budget - 1" for a bytes
  proof -
    obtain b st where l: "section_loop push_row budget (rows_after a (ct_rows t)) bytes = (b, st)" by force
    have "\<forall>e \<in> set (rows_after a (ct_rows t)). length (push_row [] e) \<le> n"
      using assms set_rows_after [of a "ct_rows t"] unfolding entries_within_def by blast
    from section_loop_length [OF push_row_append this b l] set_rows_after [of a "ct_rows t"] l
    show ?thesis using revs [of b None] by (cases st) (auto simp: chunk_rows_def table_keys_def)
  qed
  show ?thesis using blobs [of "[]"] revs [of "[]"] rows [of "[]"] by (cases cursor) simp_all
qed

text \<open>C32: A window of the published checkpoint is shorter than its budget and its longest entry together; so a checkpoint
  whose entries are within the serving cap is never refused by a receiver, which reads up to twice the cap.\<close>

theorem checkpoint_window_bounded:
  assumes "entries_within c n (ms_checkpoint s)"
    and "serve_checkpoint_chunk c s now authorized capacity query = (ChunkServed win, s')"
  shows "length (cw_bytes win) \<le> MAX_CHECKPOINT_CHUNK_BYTES - 1 + n
    \<and> (n \<le> MAX_CHECKPOINT_CHUNK_BYTES \<longrightarrow> read_chunk (ChunkServed win) = Inr win)"
proof -
  have pin: "entries_within c n (ms_checkpoint s\<lparr>ct_pin := p\<rparr>)" for p using assms(1) by (simp add: entries_within_def)
  from assms(2) obtain p cursor where "cw_bytes win = cc_bytes (checkpoint_chunk_at c (ms_checkpoint s\<lparr>ct_pin := p\<rparr>) cursor MAX_CHECKPOINT_CHUNK_BYTES)"
    by (auto simp: serve_checkpoint_chunk_def checkpoint_chunk_at_generation_def checkpoint_chunk_from_generation_def Let_def
        and_then_Inr_iff split: if_splits option.splits sum.splits)
  with chunk_fits [OF pin [of p], of cursor MAX_CHECKPOINT_CHUNK_BYTES]
  have "length (cw_bytes win) \<le> MAX_CHECKPOINT_CHUNK_BYTES - 1 + n" by simp
  then show ?thesis by (auto simp: read_chunk_def MAX_CHECKPOINT_CHUNK_BYTES_def)
qed

section \<open>Staging a whole transfer\<close>

text \<open>The store has staged exactly \<open>pre\<close> for the manifest, in pieces keyed below its length.\<close>

definition has_staged :: "checkpoint_manifest \<Rightarrow> meta_store \<Rightarrow> string \<Rightarrow> bool" where
  "has_staged m s pre \<longleftrightarrow> staged_for m s \<and> concat (staged_pieces s) = pre
     \<and> (\<forall>k v. fmlookup (ct_staging (ms_checkpoint s)) k = Some v \<longrightarrow> unat k < length pre)"

lemma received_bytes: "foldl (\<lambda>n bytes. n + of_nat (length bytes)) (of_nat n :: u64) pieces = of_nat (n + length (concat pieces))"
proof (induction pieces arbitrary: n)
  case (Cons p ps)
  from Cons.IH [of "n + length p"] show ?case by (simp add: add.assoc)
qed simp

lemma has_staged_received:
  assumes "has_staged m s pre"
  obtains cursor where "staged_checkpoint_of s = Some \<lparr>sc_manifest = m, sc_received = of_nat (length pre), sc_cursor = cursor\<rparr>"
proof -
  obtain h where "ct_staged (ms_checkpoint s) = Some h" "sh_manifest h = m"
    using assms by (auto simp: has_staged_def staged_for_def)
  then show thesis using that [of "sh_cursor h"] assms received_bytes [of 0 "staged_pieces s"]
    by (simp add: staged_checkpoint_of_def has_staged_def)
qed

lemma sorted_list_fmupd_last:
  fixes m :: "('a :: linorder, 'v) fmap"
  assumes "\<And>k' v'. fmlookup m k' = Some v' \<Longrightarrow> k' < k"
  shows "sorted_list_of_fmap (fmupd k v m) = sorted_list_of_fmap m @ [(k, v)]"
proof -
  have k: "k |\<notin>| fmdom m" using assms by (metis fmlookup_dom_iff order_less_irrefl)
  have list: "sorted_wrt (<) (sorted_list_of_fset F)" "set (sorted_list_of_fset F) = fset F" for F :: "'a fset"
    by (simp_all add: sorted_list_of_fset.rep_eq)
  have "sorted_list_of_fset (finsert k (fmdom m)) = sorted_list_of_fset (fmdom m) @ [k]"
  proof (rule strict_sorted_equal [OF _ list(1)])
    show "sorted_wrt (<) (sorted_list_of_fset (fmdom m) @ [k])"
      using assms by (auto simp: sorted_wrt_append sorted_list_of_fset.rep_eq)
  qed (auto simp: list(2))
  then show ?thesis using k
    by (auto simp: sorted_list_of_fmap_def sorted_list_of_fset.rep_eq intro!: map_cong)
qed

lemma stage_next:
  assumes "has_staged m s pre" "bytes \<noteq> []" "length (pre @ bytes) \<le> unat (cm_bytes m)"
  obtains s' where "stage_checkpoint_chunk s m (of_nat (length pre)) bytes cursor =
      Inr (\<lparr>sc_manifest = m, sc_received = of_nat (length (pre @ bytes)), sc_cursor = cursor\<rparr>, s')"
    "has_staged m s' (pre @ bytes)"
proof -
  let ?o = "of_nat (length pre) :: u64"
  obtain cur where cur: "staged_checkpoint_of s = Some \<lparr>sc_manifest = m, sc_received = ?o, sc_cursor = cur\<rparr>"
    using has_staged_received [OF assms(1)] by blast
  have small: "length (pre @ bytes) < 2 ^ 64" using assms(3) unsigned_less [of "cm_bytes m", where ?'a = nat] by simp
  then have u: "unat ?o = length pre" "unat (of_nat (length bytes) :: u64) = length bytes"
    "unat (of_nat (length (pre @ bytes)) :: u64) = length (pre @ bytes)" by (intro unat_u64_of_nat; simp)+
  have total: "u64_saturating_add ?o (of_nat (length bytes)) = of_nat (length (pre @ bytes))"
    using small by (subst word_unat_eq_iff) (simp only: unat_u64_saturating_add u, simp)
  let ?t = "ms_checkpoint s"
  let ?s' = "s\<lparr>ms_checkpoint := ?t\<lparr>ct_staging := fmupd ?o bytes (ct_staging ?t), ct_staged := Some \<lparr>sh_manifest = m, sh_cursor = cursor\<rparr>\<rparr>\<rparr>"
  have "\<not> of_nat (length (pre @ bytes)) > cm_bytes m" using assms(3) u(3) by (simp add: word_less_nat_alt)
  then have run: "stage_checkpoint_chunk s m ?o bytes cursor =
      Inr (\<lparr>sc_manifest = m, sc_received = of_nat (length (pre @ bytes)), sc_cursor = cursor\<rparr>, ?s')"
    by (simp add: stage_checkpoint_chunk_def cur total del: of_nat_add length_append)
  have below: "k < ?o" if "fmlookup (ct_staging ?t) k = Some v" for k v
    using assms(1) that u(1) by (simp add: has_staged_def word_less_nat_alt)
  then have "staged_pieces ?s' = staged_pieces s @ [bytes]" by (simp add: staged_pieces_def sorted_list_fmupd_last)
  then have "has_staged m ?s' (pre @ bytes)"
    using assms(1,2) u(1) by (auto simp: has_staged_def staged_for_def intro: trans_less_add1)
  with run show thesis by (rule that)
qed

text \<open>The clock readings of a transfer all lie within the lifetime of the pin the first request takes or finds.\<close>

definition pin_started :: "meta_store \<Rightarrow> u64 \<Rightarrow> i64 \<Rightarrow> i64" where
  "pin_started s g now = (case ct_pin (ms_checkpoint s) of Some p \<Rightarrow> if pin_generation p = g then pin_started_at p else now | None \<Rightarrow> now)"

definition within_pin :: "meta_store \<Rightarrow> u64 \<Rightarrow> i64 list \<Rightarrow> bool" where
  "within_pin s g clock = (case clock of [] \<Rightarrow> True | now # _ \<Rightarrow>
     list_all (\<lambda>t. t < i64_saturating_add (pin_started s g now) PIN_MAX_LIFETIME_SECS) clock)"

lemma chunk_at_pin [simp]: "checkpoint_chunk_at c (t\<lparr>ct_pin := p\<rparr>) cursor budget = checkpoint_chunk_at c t cursor budget"
proof -
  have blobs: "chunk_blobs (t\<lparr>ct_pin := p\<rparr>) = chunk_blobs t" by (simp add: chunk_blobs_def fun_eq_iff)
  have revocations: "chunk_revocations c (t\<lparr>ct_pin := p\<rparr>) = chunk_revocations c t" by (simp add: chunk_revocations_def fun_eq_iff blobs)
  have "chunk_rows c (t\<lparr>ct_pin := p\<rparr>) = chunk_rows c t" by (simp add: chunk_rows_def fun_eq_iff revocations)
  with blobs revocations show ?thesis by (cases cursor) simp_all
qed

lemma serve_within_pin:
  assumes "within_pin s g (now # clock)" "current_generation (ms_checkpoint s) = g"
  obtains p where
    "checkpoint_chunk_at_generation c s now g cursor budget =
       Inr (checkpoint_chunk_at c (ms_checkpoint s) cursor budget, s\<lparr>ms_checkpoint := (ms_checkpoint s)\<lparr>ct_pin := Some p\<rparr>\<rparr>)"
    "within_pin (s\<lparr>ms_checkpoint := (ms_checkpoint s)\<lparr>ct_pin := Some p\<rparr>\<rparr>) g clock"
proof -
  let ?t = "ms_checkpoint s"
  let ?start = "pin_started s g now"
  let ?deadline = "i64_saturating_add ?start PIN_MAX_LIFETIME_SECS"
  let ?p = "\<lparr>pin_generation = g, pin_started_at = ?start, pin_expires_at = min (i64_saturating_add now PIN_LEASE_SECS) ?deadline\<rparr>"
  have "checkpoint_chunk_at_generation c s now g cursor budget =
      Inr (checkpoint_chunk_at c ?t cursor budget, s\<lparr>ms_checkpoint := ?t\<lparr>ct_pin := Some ?p\<rparr>\<rparr>)"
    using assms
    by (auto simp: checkpoint_chunk_at_generation_def Let_def within_pin_def pin_started_def checkpoint_chunk_from_generation_def
        current_generation_def split: option.splits)
  moreover have "within_pin (s\<lparr>ms_checkpoint := ?t\<lparr>ct_pin := Some ?p\<rparr>\<rparr>) g clock"
    using assms(1) by (auto simp: within_pin_def pin_started_def split: list.splits)
  ultimately show thesis by (rule that)
qed

lemma done_token: "cursor \<noteq> CurDone \<Longrightarrow> generation_token c cursor g \<noteq> generation_token c CurDone g"
  by (cases cursor) (auto simp: generation_token_def split: option.splits)

lemma of_nat_less_u64: "n < unat w \<Longrightarrow> of_nat n < (w :: u64)"
  using unat_u64_less [of w] by (simp add: word_less_nat_alt unat_u64_of_nat)

lemma stage_whole:
  assumes laws: "codec_laws c" and keys: "\<forall>k \<in> table_keys t. valid_utf8 k" and ew: "entries_within c MAX_CHECKPOINT_CHUNK_BYTES t"
    and len: "length bytes = unat (cm_bytes m)"
  shows "has_staged m s pre \<Longrightarrow> pre @ tail_bytes c t cursor = bytes \<Longrightarrow> (\<forall>k. cursor_after cursor = Some k \<longrightarrow> valid_utf8 k) \<Longrightarrow>
    \<exists>q. ms_checkpoint writer = t\<lparr>ct_pin := q\<rparr> \<Longrightarrow> current_generation t = cm_generation m \<Longrightarrow>
    within_pin writer (cm_generation m) clock \<Longrightarrow> tail_entries t cursor \<le> length clock \<Longrightarrow>
    \<exists>s'. stage_windows c m (fetch_windows c clock (generation_token c cursor (cm_generation m)) writer)
        (of_nat (length pre)) (generation_token c cursor (cm_generation m)) s = Inr s' \<and> has_staged m s' bytes"
proof (induction clock arbitrary: s pre cursor writer)
  case Nil
  then show ?case using len by (cases cursor) (auto simp: stage_windows.simps)
next
  case (Cons now clock)
  let ?g = "cm_generation m" and ?k = "checkpoint_chunk_at c t cursor MAX_CHECKPOINT_CHUNK_BYTES"
  show ?case
  proof (cases "tail_bytes c t cursor = []")
    case True
    then have "pre = bytes" using Cons.prems(2) by simp
    then have "stage_windows c m windows (of_nat (length pre)) token s = Inr s" for windows token
      using len by (subst stage_windows.simps) simp
    then show ?thesis using Cons.prems(1) \<open>pre = bytes\<close> by simp
  next
    case False
    then have nd: "cursor \<noteq> CurDone" by (cases cursor) auto
    have gen: "current_generation (ms_checkpoint writer) = ?g" and same: "checkpoint_chunk_at c (ms_checkpoint writer) cursor MAX_CHECKPOINT_CHUNK_BYTES = ?k"
      using Cons.prems(4,5) by (auto simp: current_generation_def)
    obtain p where served: "checkpoint_chunk_at_generation c writer now ?g cursor MAX_CHECKPOINT_CHUNK_BYTES =
        Inr (?k, writer\<lparr>ms_checkpoint := (ms_checkpoint writer)\<lparr>ct_pin := Some p\<rparr>\<rparr>)"
      "within_pin (writer\<lparr>ms_checkpoint := (ms_checkpoint writer)\<lparr>ct_pin := Some p\<rparr>\<rparr>) ?g clock"
      using serve_within_pin [OF Cons.prems(6) gen, of c cursor MAX_CHECKPOINT_CHUNK_BYTES] unfolding same by blast
    let ?writer = "writer\<lparr>ms_checkpoint := (ms_checkpoint writer)\<lparr>ct_pin := Some p\<rparr>\<rparr>"
    let ?next = "generation_token c (cc_next ?k) ?g"
    note fits = chunk_fits [OF ew, of cursor MAX_CHECKPOINT_CHUNK_BYTES]
    have fetch: "fetch_windows c (now # clock) (generation_token c cursor ?g) writer =
        \<lparr>cw_bytes = cc_bytes ?k, cw_next = ?next\<rparr> # fetch_windows c clock ?next ?writer"
      using from_generation_token_inverse [OF laws, of cursor ?g] Cons.prems(3) served(1) fits
      by (simp add: serve_checkpoint_chunk_def read_chunk_def MAX_CHECKPOINT_CHUNK_BYTES_def)
    note tail = chunk_tail(1) [OF nd, of c t MAX_CHECKPOINT_CHUNK_BYTES] chunk_tail(2) [OF nd, of t c MAX_CHECKPOINT_CHUNK_BYTES]
    have bytes: "(pre @ cc_bytes ?k) @ tail_bytes c t (cc_next ?k) = bytes" using tail(1) Cons.prems(2) by simp
    have ne: "cc_bytes ?k \<noteq> []" using chunk_empty False by blast
    have fit: "length (pre @ cc_bytes ?k) \<le> unat (cm_bytes m)" using bytes len by (metis length_append le_add1)
    obtain s' where s': "stage_checkpoint_chunk s m (of_nat (length pre)) (cc_bytes ?k) ?next =
        Inr (\<lparr>sc_manifest = m, sc_received = of_nat (length (pre @ cc_bytes ?k)), sc_cursor = ?next\<rparr>, s')"
      "has_staged m s' (pre @ cc_bytes ?k)" using stage_next [OF Cons.prems(1) ne fit] by blast
    have "length pre < unat (cm_bytes m)" using fit ne [folded length_greater_0_conv] unfolding length_append by linarith
    then have "(of_nat (length pre) :: u64) < cm_bytes m" by (rule of_nat_less_u64)
    then have step: "stage_windows c m (fetch_windows c (now # clock) (generation_token c cursor ?g) writer) (of_nat (length pre))
        (generation_token c cursor ?g) s =
      stage_windows c m (fetch_windows c clock ?next ?writer) (of_nat (length (pre @ cc_bytes ?k))) ?next s'"
      unfolding fetch using done_token [OF nd] s'(1) by (subst stage_windows.simps) simp
    have "\<forall>k. cursor_after (cc_next ?k) = Some k \<longrightarrow> valid_utf8 k" using fits keys by blast
    moreover have "tail_entries t (cc_next ?k) \<le> length clock" using tail(2) Cons.prems(7) by simp
    moreover have "\<exists>q. ms_checkpoint ?writer = t\<lparr>ct_pin := q\<rparr>" using Cons.prems(4) by auto
    ultimately show ?thesis unfolding step using Cons.IH [OF s'(2) bytes _ _ Cons.prems(5) served(2)] by blast
  qed
qed

section \<open>Recovery\<close>

lemma install_whole:
  assumes "codec_laws c" "state_ok c st" "checkpoint_verify c m st = Inr ()" "has_staged m s (cs_canonical c st)"
  shows "install_staged_checkpoint c s k v = Inr (m, discard_staged_checkpoint (replace_state s st m k v))"
proof -
  obtain cursor where "staged_checkpoint_of s =
      Some \<lparr>sc_manifest = m, sc_received = of_nat (length (cs_canonical c st)), sc_cursor = cursor\<rparr>"
    using has_staged_received [OF assms(4)] by blast
  moreover have "decode_staged c s = Inr \<lparr>dc_state = st, dc_digest = sha256_hex c (cs_canonical c st)\<rparr>"
    unfolding decode_staged_def by (rule decode_canonical [OF assms(2,1)]) (use assms(4) in \<open>simp add: has_staged_def\<close>)
  ultimately show ?thesis
    using assms(3) by (auto simp: install_staged_checkpoint_def checkpoint_verify_def Let_def split: if_splits)
qed

lemma table_keys_valid: "state_ok c (tables_state t) \<Longrightarrow> \<forall>k \<in> table_keys t. valid_utf8 k"
  by (auto simp: state_ok_def table_keys_def tables_state_def blob_rows_of_table key_ok_def simp del: fset_of_list_map)

lemma fresh_transfer:
  assumes "\<And>staged. staged_checkpoint_of s = Some staged \<Longrightarrow> sc_manifest staged \<noteq> m"
  shows "resume_transfer c s m = (begin_checkpoint_transfer c s m, 0, generation_token c cursor_start (cm_generation m))"
    and "has_staged m (begin_checkpoint_transfer c s m) []"
  using assms
  by (auto simp: resume_transfer_def Let_def begin_checkpoint_transfer_def has_staged_def staged_for_def staged_pieces_def
      sorted_list_of_fmap_def split: option.splits)

lemma transfer_installs:
  assumes "codec_laws c" "check_manifest w s m = Inr ()" "\<And>staged. staged_checkpoint_of s = Some staged \<Longrightarrow> sc_manifest staged \<noteq> m"
    and "ct_manifest (ms_checkpoint writer) = Some m" "state_ok c (tables_state (ms_checkpoint writer))"
    and "checkpoint_verify c m (tables_state (ms_checkpoint writer)) = Inr ()"
    and "length (cs_canonical c (tables_state (ms_checkpoint writer))) < 2 ^ 64"
    and "entries_within c MAX_CHECKPOINT_CHUNK_BYTES (ms_checkpoint writer)"
    and "within_pin writer (cm_generation m) clock" "tail_entries (ms_checkpoint writer) cursor_start \<le> length clock"
  obtains s0 where "install_checkpoint c w s (Inr m) (fetch_windows c clock (generation_token c cursor_start (cm_generation m)) writer) =
    Inr (cm_serial m, discard_staged_checkpoint (replace_state s0 (tables_state (ms_checkpoint writer)) m REPLICA_STATE_KEY
      (enc_state w \<lparr>rs_source = ci_source (cm_identity m), rs_serial = cm_serial m\<rparr>)))"
proof -
  let ?t = "ms_checkpoint writer"
  let ?bytes = "cs_canonical c (tables_state ?t)"
  have "cm_bytes m = of_nat (length ?bytes)" using assms(6) by (auto simp: checkpoint_verify_def Let_def split: if_splits)
  then have len: "length ?bytes = unat (cm_bytes m)" using assms(7) by (simp add: unat_u64_of_nat)
  have pin: "\<exists>q. ms_checkpoint writer = ?t\<lparr>ct_pin := q\<rparr>" by (rule exI [of _ "ct_pin ?t"]) simp
  have start: "\<forall>k. cursor_after cursor_start = Some k \<longrightarrow> valid_utf8 k" by (simp add: cursor_start_def)
  have gen: "current_generation ?t = cm_generation m" using assms(4) by (simp add: current_generation_def)
  note fresh = fresh_transfer [OF assms(3), of s]
  from stage_whole [OF assms(1) table_keys_valid [OF assms(5)] assms(8) len fresh(2) _ start pin gen assms(9,10)]
  obtain s1 where s1: "stage_windows c m (fetch_windows c clock (generation_token c cursor_start (cm_generation m)) writer) 0
      (generation_token c cursor_start (cm_generation m)) (begin_checkpoint_transfer c s m) = Inr s1" "has_staged m s1 ?bytes"
    by (auto simp: tail_bytes_start)
  show thesis
    by (rule that [of s1])
      (simp add: install_checkpoint_def assms(2) fresh(1) stage_and_install_def s1(1) install_whole [OF assms(1,5,6) s1(2)])
qed


lemma run_published_tables:
  "ct_manifest (ms_checkpoint run_published) = Some run_manifest" "tables_state (ms_checkpoint run_published) = sample_state"
  "ct_rows (ms_checkpoint run_published) = fmupd ''k'' ''v'' fmempty" "ct_revocations (ms_checkpoint run_published) = fmempty"
  "ct_blobs (ms_checkpoint run_published) = fmempty" "ct_pin (ms_checkpoint run_published) = None"
proof -
  have "blob_rows {||} = []" by code_simp
  then show tables: "ct_rows (ms_checkpoint run_published) = fmupd ''k'' ''v'' fmempty" "ct_revocations (ms_checkpoint run_published) = fmempty"
    "ct_blobs (ms_checkpoint run_published) = fmempty" "ct_pin (ms_checkpoint run_published) = None"
    "ct_manifest (ms_checkpoint run_published) = Some run_manifest"
    by (simp_all add: run_publish(2) write_publication_def sample_state_def)
  then show "tables_state (ms_checkpoint run_published) = sample_state"
    by (simp add: tables_state_def sample_state_def sorted_list_of_fmap_def sorted_list_of_fset.rep_eq)
qed


text \<open>Every entry of the one-row checkpoint is far below the serving cap.\<close>

lemma checkpoint_window_bounded_witness:
  "\<exists>win s'. serve_checkpoint_chunk sample_codecs run_published 0 True True (Some (generation_token sample_codecs cursor_start 1)) = (ChunkServed win, s')
     \<and> read_chunk (ChunkServed win) = Inr win"
proof -
  have small: "entries_within sample_codecs MAX_CHECKPOINT_CHUNK_BYTES (ms_checkpoint run_published)"
    by (simp add: entries_within_def run_published_tables sorted_list_of_fmap_def sorted_list_of_fset.rep_eq push_defs MAX_CHECKPOINT_CHUNK_BYTES_def)
  have g: "current_generation (ms_checkpoint run_published) = 1"
    by (simp add: current_generation_def run_published_tables run_manifest_def)
  have "within_pin run_published 1 [0]"
    by (simp add: within_pin_def pin_started_def run_published_tables PIN_MAX_LIFETIME_SECS_def i64_saturating_add_def i64_clamp_def i64_max_def i64_min_def)
  from serve_within_pin [OF this g] obtain p where
    "checkpoint_chunk_at_generation sample_codecs run_published 0 1 cursor_start MAX_CHECKPOINT_CHUNK_BYTES =
      Inr (checkpoint_chunk_at sample_codecs (ms_checkpoint run_published) cursor_start MAX_CHECKPOINT_CHUNK_BYTES,
        run_published\<lparr>ms_checkpoint := (ms_checkpoint run_published)\<lparr>ct_pin := Some p\<rparr>\<rparr>)" by blast
  then obtain win s' where "serve_checkpoint_chunk sample_codecs run_published 0 True True
      (Some (generation_token sample_codecs cursor_start 1)) = (ChunkServed win, s')"
    using from_generation_token_inverse [OF sample_codec_laws, of cursor_start 1]
    by (simp add: serve_checkpoint_chunk_def cursor_start_def)
  with checkpoint_window_bounded [OF small this] show ?thesis by blast
qed

end
