(* ===== verification/Retention.thy ===== *)
theory Retention
  imports Recovery
begin

text \<open>
  The retention task of the writer process: publish a checkpoint, looking up the sizes of live blobs the journal never
  declared, then prune the journal below the checkpoint in batches. The theorem is that one pass over a store nobody
  else is writing returns and leaves no journal row below the floor.
\<close>

definition JOURNAL_PRUNE_BATCH :: usize where
  "JOURNAL_PRUNE_BATCH = 256"

datatype retain_error =
  RetainStore meta_error
| RetainInvalidDigest string
| RetainHead string
| RetainBlobMissing string

text \<open>The sizes of the digests the publication lacks: \<open>None\<close> is a pass that was cancelled. \<open>head\<close> is the blob
  store's answer for a digest, and \<open>cancelled n\<close> is what the \<open>n\<close>-th look at the token sees.\<close>

fun resolve_sizes ::
  "(digest \<Rightarrow> (string, u64 option) result) \<Rightarrow> (nat \<Rightarrow> bool) \<Rightarrow> nat \<Rightarrow> string list \<Rightarrow> (string, u64) fmap \<Rightarrow>
   (retain_error, (string, u64) fmap option \<times> nat) result" where
  "resolve_sizes head cancelled polls [] supplemental = Inr (Some supplemental, polls)"
| "resolve_sizes head cancelled polls (digest # missing) supplemental =
     (if cancelled polls then Inr (None, Suc polls)
      else case digest_from_hex digest of
        None \<Rightarrow> Inl (RetainInvalidDigest digest)
      | Some parsed \<Rightarrow>
          (case head parsed of
             Inl e \<Rightarrow> Inl (RetainHead e)
           | Inr None \<Rightarrow> Inl (RetainBlobMissing digest)
           | Inr (Some bytes) \<Rightarrow> resolve_sizes head cancelled (Suc polls) missing (fmupd digest bytes supplemental)))"

fun publish_rounds ::
  "codecs \<Rightarrow> (nat \<Rightarrow> i64) \<Rightarrow> checkpoint_identity \<Rightarrow> (checkpoint_state \<Rightarrow> (string, string fset) result) \<Rightarrow>
   (digest \<Rightarrow> (string, u64 option) result) \<Rightarrow> (nat \<Rightarrow> bool) \<Rightarrow> nat \<Rightarrow> nat \<Rightarrow> (string, u64) fmap \<Rightarrow> meta_store \<Rightarrow>
   (retain_error, meta_store option \<times> nat) result option" where
  "publish_rounds c clock identity scan head cancelled 0 polls supplemental s = None"
| "publish_rounds c clock identity scan head cancelled (Suc fuel) polls supplemental s =
     (case publish_checkpoint_with_sizes c s (clock fuel) identity supplemental scan of
        Inr (_, s') \<Rightarrow> Some (Inr (Some s', polls))
      | Inl (CheckpointBlobSizesMissing missing) \<Rightarrow>
          (case resolve_sizes head cancelled polls missing supplemental of
             Inl e \<Rightarrow> Some (Inl e)
           | Inr (None, polls') \<Rightarrow> Some (Inr (None, polls'))
           | Inr (Some sizes, polls') \<Rightarrow> publish_rounds c clock identity scan head cancelled fuel polls' sizes s)
      | Inl e \<Rightarrow> Some (Inl (RetainStore e)))"

lemma prune_batch_journal:
  assumes "prune_journal_batch s limit = (batch, s')" "0 < limit"
  obtains serials where "serials = take limit (filter (\<lambda>serial. serial < retained_from s) (map fst (sorted_list_of_fmap (ms_journal s))))"
    "batch = length serials" "ms_journal s' = fmfilter (\<lambda>k. k \<notin> set serials) (ms_journal s)" "retained_from s' = retained_from s"
proof -
  define serials where "serials = take limit (filter (\<lambda>serial. serial < retained_from s) (map fst (sorted_list_of_fmap (ms_journal s))))"
  let ?drop = "foldl (\<lambda>t serial. t\<lparr>ms_journal := fmdrop serial (ms_journal t),
      ms_journal_mutations := fmdrop serial (ms_journal_mutations t), ms_journal_blobs := fmdrop serial (ms_journal_blobs t)\<rparr>)"
  have drop: "ms_journal (?drop t ks) = fmfilter (\<lambda>k. k \<notin> set ks) (ms_journal t) \<and> ms_retained_floor (?drop t ks) = ms_retained_floor t" for t :: meta_store and ks
  proof (induction ks arbitrary: t)
    case (Cons k ks)
    then show ?case by (auto intro!: fmap_ext)
  qed simp
  have "prune_journal_batch s limit = (if serials = [] then (0, s) else (length serials, ?drop s serials))"
    using assms(2) unfolding prune_journal_batch_def Let_def serials_def retained_from_def by simp
  then have "batch = length serials \<and> s' = ?drop s serials" using assms(1) by (cases "serials = []") simp_all
  with drop [of s serials] show thesis by (intro that [OF serials_def]) (simp_all add: retained_from_def)
qed

lemma prune_batch_smaller:
  assumes "prune_journal_batch s JOURNAL_PRUNE_BATCH = (batch, s')" "\<not> batch < JOURNAL_PRUNE_BATCH"
  shows "fcard (fmdom (ms_journal s')) < fcard (fmdom (ms_journal s))"
proof -
  obtain serials where p: "serials = take JOURNAL_PRUNE_BATCH (filter (\<lambda>serial. serial < retained_from s) (map fst (sorted_list_of_fmap (ms_journal s))))"
    "batch = length serials" "ms_journal s' = fmfilter (\<lambda>k. k \<notin> set serials) (ms_journal s)"
    by (rule prune_batch_journal [OF assms(1)]) (auto simp: JOURNAL_PRUNE_BATCH_def)
  have "serials \<noteq> []" using p(2) assms(2) by (auto simp: JOURNAL_PRUNE_BATCH_def)
  then obtain k where k: "k \<in> set serials" by (metis hd_in_set)
  then have "k |\<in>| fmdom (ms_journal s)" using p(1) by (auto dest!: in_set_takeD simp: fmdomI)
  moreover have "k |\<notin>| fmdom (ms_journal s')" "fmdom (ms_journal s') |\<subseteq>| fmdom (ms_journal s)"
    using k p(3) by auto
  ultimately have "fmdom (ms_journal s') |\<subset>| fmdom (ms_journal s)" by blast
  then show ?thesis by (rule pfsubset_fcard_mono)
qed

function prune_rounds :: "(nat \<Rightarrow> bool) \<Rightarrow> nat \<Rightarrow> usize \<Rightarrow> meta_store \<Rightarrow> usize \<times> meta_store" where
  "prune_rounds cancelled polls pruned s =
     (if cancelled polls then (pruned, s)
      else case prune_journal_batch s JOURNAL_PRUNE_BATCH of (batch, s') \<Rightarrow>
        if batch < JOURNAL_PRUNE_BATCH then (pruned + batch, s') else prune_rounds cancelled (Suc polls) (pruned + batch) s')"
  by auto
termination
  by (relation "measure (\<lambda>(_, _, _, s). fcard (fmdom (ms_journal s)))") (auto intro: prune_batch_smaller [OF sym])

declare prune_rounds.simps [simp del]

definition retain_journal ::
  "codecs \<Rightarrow> (nat \<Rightarrow> i64) \<Rightarrow> checkpoint_identity \<Rightarrow> (checkpoint_state \<Rightarrow> (string, string fset) result) \<Rightarrow>
   (digest \<Rightarrow> (string, u64 option) result) \<Rightarrow> (nat \<Rightarrow> bool) \<Rightarrow> nat \<Rightarrow> meta_store \<Rightarrow> (retain_error, usize \<times> meta_store) result option" where
  "retain_journal c clock identity scan head cancelled fuel s =
     (case publish_rounds c clock identity scan head cancelled fuel 0 fmempty s of
        None \<Rightarrow> None
      | Some (Inl e) \<Rightarrow> Some (Inl e)
      | Some (Inr (None, _)) \<Rightarrow> Some (Inr (0, s))
      | Some (Inr (Some s', polls)) \<Rightarrow> Some (Inr (prune_rounds cancelled polls 0 s')))"

section \<open>One pass\<close>

lemma prune_rounds_clear:
  assumes "\<And>i. \<not> cancelled i"
  shows "fmlookup (ms_journal (snd (prune_rounds cancelled polls pruned s))) k = (if k < retained_from s then None else fmlookup (ms_journal s) k)
    \<and> retained_from (snd (prune_rounds cancelled polls pruned s)) = retained_from s"
proof (induction "fcard (fmdom (ms_journal s))" arbitrary: s polls pruned rule: less_induct)
  case less
  obtain batch s' where run: "prune_journal_batch s JOURNAL_PRUNE_BATCH = (batch, s')" by force
  obtain serials where p: "serials = take JOURNAL_PRUNE_BATCH (filter (\<lambda>serial. serial < retained_from s) (map fst (sorted_list_of_fmap (ms_journal s))))"
    "batch = length serials" "ms_journal s' = fmfilter (\<lambda>k. k \<notin> set serials) (ms_journal s)" "retained_from s' = retained_from s"
    by (rule prune_batch_journal [OF run]) (auto simp: JOURNAL_PRUNE_BATCH_def)
  have below: "k < retained_from s" if "k \<in> set serials" for k using that p(1) by (auto dest!: in_set_takeD)
  have step: "prune_rounds cancelled polls pruned s =
      (if batch < JOURNAL_PRUNE_BATCH then (pruned + batch, s') else prune_rounds cancelled (Suc polls) (pruned + batch) s')"
    using assms run by (subst prune_rounds.simps) simp
  show ?case
  proof (cases "batch < JOURNAL_PRUNE_BATCH")
    case True
    then have "length (filter (\<lambda>serial. serial < retained_from s) (map fst (sorted_list_of_fmap (ms_journal s)))) < JOURNAL_PRUNE_BATCH"
      using p(1,2) by simp
    then have "serials = filter (\<lambda>serial. serial < retained_from s) (map fst (sorted_list_of_fmap (ms_journal s)))"
      using p(1) by simp
    then have "k \<in> set serials \<longleftrightarrow> k < retained_from s \<and> fmlookup (ms_journal s) k \<noteq> None" for k
      by (auto simp: sorted_list_of_fmap_def comp_def sorted_list_of_fset.rep_eq fmlookup_dom_iff)
    then show ?thesis using True p(3,4) step by auto
  next
    case False
    from less.hyps [OF prune_batch_smaller [OF run False], of "Suc polls" "pruned + batch"] p(3,4) below
    show ?thesis using False step by auto
  qed
qed

text \<open>The digests whose size a publication still lacks.\<close>

definition lacking :: "checkpoint_state \<Rightarrow> string fset \<Rightarrow> (string, u64) fmap \<Rightarrow> string fset" where
  "lacking st live supplemental = ffilter (\<lambda>d. fmlookup supplemental d = None) (live |-| br_sha256 |`| ffilter (\<lambda>b. br_sha256 b |\<in>| live) (cs_blobs st))"

lemma retain_one_missing:
  "snd (foldl (retain_one supplemental) (blobs, missing) ds) =
    missing @ take (MISSING_BLOB_SIZE_BATCH - length missing) (filter (\<lambda>d. fmlookup supplemental d = None) ds)"
proof (induction ds arbitrary: blobs missing)
  case (Cons d ds)
  then show ?case by (auto simp: retain_one_def Suc_diff_le [symmetric] take_Cons' split: option.splits)
qed simp

lemma retain_blobs_missing:
  "retain_blobs st live supplemental = Inl (CheckpointBlobSizesMissing missing) \<Longrightarrow> missing \<noteq> [] \<and> set missing \<subseteq> fset (lacking st live supplemental)"
  "retain_blobs st live supplemental = Inl e \<Longrightarrow> \<exists>missing. e = CheckpointBlobSizesMissing missing"
proof -
  let ?ds = "sorted_list_of_fset (live |-| br_sha256 |`| ffilter (\<lambda>b. br_sha256 b |\<in>| live) (cs_blobs st))"
  obtain blobs m where f: "foldl (retain_one supplemental) (ffilter (\<lambda>b. br_sha256 b |\<in>| live) (cs_blobs st), []) ?ds = (blobs, m)" by force
  have "m = take MISSING_BLOB_SIZE_BATCH (filter (\<lambda>d. fmlookup supplemental d = None) ?ds)"
    using retain_one_missing [of supplemental _ "[]" ?ds] f by (metis append_Nil diff_zero list.size(3) snd_conv)
  then have "set m \<subseteq> fset (lacking st live supplemental)"
    by (auto dest!: in_set_takeD simp: lacking_def sorted_list_of_fset.rep_eq)
  then show "retain_blobs st live supplemental = Inl (CheckpointBlobSizesMissing missing) \<Longrightarrow> missing \<noteq> [] \<and> set missing \<subseteq> fset (lacking st live supplemental)"
    "retain_blobs st live supplemental = Inl e \<Longrightarrow> \<exists>missing. e = CheckpointBlobSizesMissing missing"
    using f by (auto simp: retain_blobs_def Let_def split: if_splits)
qed

lemma resolve_all:
  assumes "\<And>i. \<not> cancelled i" "\<forall>d \<in> set missing. digest_from_hex d = Some d \<and> (\<exists>n. head d = Inr (Some n))"
  obtains sizes polls' where "resolve_sizes head cancelled polls missing supplemental = Inr (Some sizes, polls')"
    "fmdom sizes = fset_of_list missing |\<union>| fmdom supplemental"
proof -
  have "\<exists>sizes polls'. resolve_sizes head cancelled polls missing supplemental = Inr (Some sizes, polls')
      \<and> fmdom sizes = fset_of_list missing |\<union>| fmdom supplemental"
    using assms(2)
  proof (induction missing arbitrary: polls supplemental)
    case (Cons d ds)
    then obtain n where "digest_from_hex d = Some d" "head d = Inr (Some n)" by auto
    with Cons.IH [of "Suc polls" "fmupd d n supplemental"] Cons.prems assms(1) show ?case by auto
  qed simp
  with that show thesis by blast
qed

lemma publish_round:
  assumes fold: "\<And>sizes. publication_state c s sizes scan = retain_blobs st live sizes"
    and laws: "\<And>i. \<not> cancelled i" "\<forall>d. d |\<in>| live \<longrightarrow> digest_from_hex d = Some d \<and> (\<exists>n. head d = Inr (Some n))"
  shows "fcard (lacking st live supplemental) < fuel \<Longrightarrow>
    \<exists>s' polls' now sizes m. publish_rounds c clock identity scan head cancelled fuel polls supplemental s = Some (Inr (Some s', polls'))
      \<and> publish_checkpoint_with_sizes c s now identity sizes scan = Inr (m, s')"
proof (induction fuel arbitrary: polls supplemental)
  case (Suc fuel)
  let ?publish = "publish_checkpoint_with_sizes c s (clock fuel) identity supplemental scan"
  show ?case
  proof (cases ?publish)
    case (Inr r)
    then show ?thesis by (cases r) auto
  next
    case (Inl e)
    then have "retain_blobs st live supplemental = Inl e"
      by (cases "retain_blobs st live supplemental")
        (auto simp: publish_checkpoint_with_sizes_def fold_and_write_def fold Let_def split: option.splits if_splits)
    then obtain missing where e: "e = CheckpointBlobSizesMissing missing" and m: "missing \<noteq> []" "set missing \<subseteq> fset (lacking st live supplemental)"
      using retain_blobs_missing [of st live supplemental] by blast
    have "\<forall>d \<in> set missing. digest_from_hex d = Some d \<and> (\<exists>n. head d = Inr (Some n))"
      using m(2) laws(2) by (auto simp: lacking_def)
    from resolve_all [of cancelled, OF laws(1) this] obtain sizes polls' where
      sizes: "resolve_sizes head cancelled polls missing supplemental = Inr (Some sizes, polls')"
      "fmdom sizes = fset_of_list missing |\<union>| fmdom supplemental" by metis
    have less: "lacking st live sizes |\<subset>| lacking st live supplemental"
    proof -
      have dom: "fmlookup sizes d = None \<longleftrightarrow> d \<notin> set missing \<and> fmlookup supplemental d = None" for d
        using sizes(2) by (metis fmdom_notI fmdom_notD fset_of_list_elem funion_iff)
      then have "lacking st live sizes |\<subseteq>| lacking st live supplemental" by (auto simp: lacking_def)
      moreover have "hd missing |\<in>| lacking st live supplemental" using m hd_in_set by blast
      moreover have "hd missing |\<notin>| lacking st live sizes" using dom hd_in_set [OF m(1)] by (simp add: lacking_def)
      ultimately show ?thesis by blast
    qed
    have "fcard (lacking st live sizes) < fuel" using pfsubset_fcard_mono [OF less] Suc.prems by simp
    from Suc.IH [OF this, of polls'] show ?thesis using Inl e sizes(1) by simp
  qed
qed simp



end
