(* ===== verification/Policy_Decision.thy ===== *)
theory Policy_Decision
  imports Meta_Store
begin

text \<open>
  Recorded policy decisions (\<open>peryx-storage/src/meta/policy_decision.rs\<close>): the bounded history, the current decision of
  each subject, the input generations a decision was taken under, the direct writer and the batch writer, and the paged
  query. The lemmas relate the four tables to the log of every decision ever recorded. A subject is keyed by its JSON text,
  the parameter \<open>json\<close>; a random identifier is an argument of the writers.
\<close>

section \<open>Rows\<close>

definition MAX_DECISION_HISTORY :: usize where
  "MAX_DECISION_HISTORY = 10000"

definition DECISION_QUERY_LIMIT :: usize where
  "DECISION_QUERY_LIMIT = 100"

definition MAX_REASON_BYTES :: usize where
  "MAX_REASON_BYTES = 2048"

definition MAX_SUBJECT_BYTES :: usize where
  "MAX_SUBJECT_BYTES = 512"

datatype policy_action = Upload | Cached | Serve

datatype policy_decision_state = Allow | Deny | Wait

record new_policy_decision =
  nd_repository :: string
  nd_resource :: string
  nd_group :: "string option"
  nd_artifact :: "string option"
  nd_source :: "string option"
  nd_action :: policy_action
  nd_state :: policy_decision_state
  nd_rule :: "string option"
  nd_reason :: "string option"
  nd_evaluated_at_unix :: i64
  nd_next_eligible_at_unix :: "i64 option"

text \<open>A stored record has the fields of the decision, its identifier and the generation of its inputs; a queued decision
  has the generation only.\<close>

record policy_decision_record = new_policy_decision +
  pr_id :: string
  pr_input_generation :: policy_input_generation

record owned_decision = new_policy_decision +
  od_input_generation :: policy_input_generation

record policy_decision_item =
  it_record :: policy_decision_record
  it_fresh :: bool

record policy_decision_query =
  pq_repository :: "string option"
  pq_resource :: "string option"
  pq_state :: "policy_decision_state option"
  pq_rule :: "string option"
  pq_source :: "string option"
  pq_evaluated_from_unix :: "i64 option"
  pq_evaluated_to_unix :: "i64 option"
  pq_cursor :: "string option"
  pq_limit :: usize

definition policy_query_default :: policy_decision_query where
  "policy_query_default = \<lparr>pq_repository = None, pq_resource = None, pq_state = None, pq_rule = None, pq_source = None,
     pq_evaluated_from_unix = None, pq_evaluated_to_unix = None, pq_cursor = None, pq_limit = 25\<rparr>"

record policy_decision_page =
  pp_decisions :: "policy_decision_item list"
  pp_next_cursor :: "string option"

record policy_decision_subject =
  sj_repository :: string
  sj_resource :: string
  sj_group :: "string option"
  sj_artifact :: "string option"
  sj_source :: "string option"
  sj_action :: policy_action

text \<open>\<open>MissingRecord\<close> is the panic on a current pointer without a record.\<close>

datatype policy_store_error = FieldTooLong string usize | TooManyArtifacts usize | MissingRecord

datatype policy_query_error = InvalidDecisionLimit | InvalidPolicyCursor | FilterTooLong string usize

record policy_store =
  ps_meta :: meta_store
  ps_serial :: u64
  ps_history :: "(string, policy_decision_record) fmap"
  ps_current :: "(string, string) fmap"
  ps_current_id :: "(string, policy_decision_record) fmap"

definition policy_store_empty :: "meta_store \<Rightarrow> policy_store" where
  "policy_store_empty meta = \<lparr>ps_meta = meta, ps_serial = 0, ps_history = fmempty, ps_current = fmempty, ps_current_id = fmempty\<rparr>"

section \<open>Validation and keys\<close>

definition validate_field :: "string \<Rightarrow> string \<Rightarrow> (policy_store_error, unit) result" where
  "validate_field field v = (if length v > MAX_SUBJECT_BYTES then Inl (FieldTooLong field MAX_SUBJECT_BYTES) else Inr ())"

definition validate_subject :: "'a new_policy_decision_scheme \<Rightarrow> (policy_store_error, unit) result" where
  "validate_subject d =
     try_fold (\<lambda>_ (field, v). case v of None \<Rightarrow> Inr () | Some v \<Rightarrow> validate_field field v) ()
       [(''repository'', Some (nd_repository d)), (''resource'', Some (nd_resource d)), (''group'', nd_group d),
        (''artifact'', nd_artifact d), (''source'', nd_source d)]"

definition validate_decision :: "'a new_policy_decision_scheme \<Rightarrow> (policy_store_error, unit) result" where
  "validate_decision d =
     and_then (validate_subject d) (\<lambda>_.
       if (case nd_rule d of None \<Rightarrow> False | Some rule \<Rightarrow> length rule > MAX_SUBJECT_BYTES)
       then Inl (FieldTooLong ''rule'' MAX_SUBJECT_BYTES)
       else if (case nd_reason d of None \<Rightarrow> False | Some reason \<Rightarrow> length reason > MAX_REASON_BYTES)
       then Inl (FieldTooLong ''reason'' MAX_REASON_BYTES)
       else Inr ())"

definition decision_subject :: "'a new_policy_decision_scheme \<Rightarrow> policy_decision_subject" where
  "decision_subject d = \<lparr>sj_repository = nd_repository d, sj_resource = nd_resource d, sj_group = nd_group d,
     sj_artifact = nd_artifact d, sj_source = nd_source d, sj_action = nd_action d\<rparr>"

definition subject_key :: "(policy_decision_subject \<Rightarrow> string) \<Rightarrow> 'a new_policy_decision_scheme \<Rightarrow> string" where
  "subject_key json d = json (decision_subject d)"

definition history_id :: "u64 \<Rightarrow> string" where
  "history_id serial = ''pd_'' @ hex16 serial"

definition is_ascii_hexdigit :: "char \<Rightarrow> bool" where
  "is_ascii_hexdigit c \<longleftrightarrow> (CHR ''0'' \<le> c \<and> c \<le> CHR ''9'') \<or> (CHR ''a'' \<le> c \<and> c \<le> CHR ''f'') \<or> (CHR ''A'' \<le> c \<and> c \<le> CHR ''F'')"

definition valid_cursor :: "string \<Rightarrow> bool" where
  "valid_cursor cursor \<longleftrightarrow> length cursor = 19 \<and> take 3 cursor = ''pd_'' \<and> list_all is_ascii_hexdigit (drop 3 cursor)"

section \<open>Writing\<close>

definition advance_policy_generation :: "policy_store \<Rightarrow> string \<Rightarrow> policy_input_generation \<times> policy_store" where
  "advance_policy_generation s repository =
     (let g = policy_generation_of (ps_meta s) repository; g' = g\<lparr>pg_policy := pg_policy g + 1\<rparr>
      in (g', s\<lparr>ps_meta := (ps_meta s)\<lparr>ms_policy_generation := fmupd repository g' (ms_policy_generation (ps_meta s))\<rparr>\<rparr>))"

definition store_advance_repository_generations :: "policy_store \<Rightarrow> string fset \<Rightarrow> policy_store" where
  "store_advance_repository_generations s repositories = s\<lparr>ps_meta := advance_repository_generations (ps_meta s) repositories\<rparr>"

definition record_of :: "string \<Rightarrow> policy_input_generation \<Rightarrow> new_policy_decision \<Rightarrow> policy_decision_record" where
  "record_of uuid generation d = new_policy_decision.extend d \<lparr>pr_id = uuid, pr_input_generation = generation\<rparr>"

definition record_in ::
  "(policy_decision_subject \<Rightarrow> string) \<Rightarrow> string \<Rightarrow> policy_store \<Rightarrow> new_policy_decision \<Rightarrow> policy_decision_record \<times> policy_store" where
  "record_in json uuid s decision =
     (let nxt = ps_serial s + 1;
          hid = history_id nxt;
          rec = record_of uuid (policy_generation_of (ps_meta s) (nd_repository decision)) decision;
          subject = subject_key json decision;
          current_records = (case fmlookup (ps_current s) subject of None \<Rightarrow> ps_current_id s | Some previous \<Rightarrow> fmdrop previous (ps_current_id s))
      in (rec, s\<lparr>ps_serial := nxt, ps_history := fmupd hid rec (ps_history s), ps_current := fmupd subject hid (ps_current s),
                 ps_current_id := fmupd hid rec current_records\<rparr>))"

text \<open>The batch writer keeps the serial and writes it back at the end.\<close>

record batch_writer =
  bw_history :: "(string, policy_decision_record) fmap"
  bw_current :: "(string, string) fmap"
  bw_current_records :: "(string, policy_decision_record) fmap"
  bw_serial :: u64

definition batch_new :: "policy_store \<Rightarrow> batch_writer" where
  "batch_new s = \<lparr>bw_history = ps_history s, bw_current = ps_current s, bw_current_records = ps_current_id s, bw_serial = ps_serial s\<rparr>"

definition batch_record ::
  "(policy_decision_subject \<Rightarrow> string) \<Rightarrow> string \<Rightarrow> new_policy_decision \<Rightarrow> policy_input_generation \<Rightarrow> batch_writer \<Rightarrow> batch_writer" where
  "batch_record json uuid decision generation b =
     (let serial = bw_serial b + 1;
          hid = history_id serial;
          rec = record_of uuid generation decision;
          subject = subject_key json decision;
          history = fmupd hid rec (bw_history b);
          previous = fmlookup (bw_current b) subject;
          current_records = (case previous of None \<Rightarrow> bw_current_records b | Some p \<Rightarrow> fmdrop p (bw_current_records b))
      in \<lparr>bw_history = history, bw_current = fmupd subject hid (bw_current b),
          bw_current_records = fmupd hid rec current_records, bw_serial = serial\<rparr>)"

definition batch_finish :: "policy_store \<Rightarrow> batch_writer \<Rightarrow> policy_store" where
  "batch_finish s b = s\<lparr>ps_serial := bw_serial b, ps_history := bw_history b, ps_current := bw_current b, ps_current_id := bw_current_records b\<rparr>"

definition prune_history :: "policy_store \<Rightarrow> usize \<Rightarrow> policy_store" where
  "prune_history s history_limit =
     (let ids = map fst (sorted_list_of_fmap (ps_history s));
          excess = length ids - history_limit
      in if excess = 0 then s
         else case (if excess < length ids then Some (ids ! excess) else None) of
           Some first_kept \<Rightarrow> s\<lparr>ps_history := fmfilter (\<lambda>hid. \<not> hid < first_kept) (ps_history s)\<rparr>
         | None \<Rightarrow> s\<lparr>ps_history := fmempty\<rparr>)"

definition record_policy_decision_with_history_limit ::
  "(policy_decision_subject \<Rightarrow> string) \<Rightarrow> string \<Rightarrow> policy_store \<Rightarrow> new_policy_decision \<Rightarrow> usize \<Rightarrow>
   (policy_store_error, policy_decision_record \<times> policy_store) result" where
  "record_policy_decision_with_history_limit json uuid s decision history_limit =
     and_then (validate_decision decision) (\<lambda>_.
       case record_in json uuid s decision of (rec, s') \<Rightarrow> Inr (rec, prune_history s' history_limit))"

definition record_policy_decision ::
  "(policy_decision_subject \<Rightarrow> string) \<Rightarrow> string \<Rightarrow> policy_store \<Rightarrow> new_policy_decision \<Rightarrow>
   (policy_store_error, policy_decision_record \<times> policy_store) result" where
  "record_policy_decision json uuid s decision = record_policy_decision_with_history_limit json uuid s decision MAX_DECISION_HISTORY"

definition owned_new :: "new_policy_decision \<Rightarrow> policy_input_generation \<Rightarrow> owned_decision" where
  "owned_new decision generation = new_policy_decision.extend decision \<lparr>od_input_generation = generation\<rparr>"

definition as_new :: "owned_decision \<Rightarrow> new_policy_decision" where
  "as_new owned = new_policy_decision.truncate owned"

section \<open>Reading\<close>

definition current_policy_decision ::
  "(policy_decision_subject \<Rightarrow> string) \<Rightarrow> policy_store \<Rightarrow> new_policy_decision \<Rightarrow> (policy_store_error, policy_decision_record option) result" where
  "current_policy_decision json s subject =
     and_then (validate_subject subject) (\<lambda>_.
       case fmlookup (ps_current s) (subject_key json subject) of
         None \<Rightarrow> Inr None
       | Some hid \<Rightarrow>
           (case fmlookup (ps_current_id s) hid of
              None \<Rightarrow> Inl MissingRecord
            | Some rec \<Rightarrow> Inr (if pr_input_generation rec = policy_generation_of (ps_meta s) (nd_repository rec) then Some rec else None)))"

fun artifacts_loop ::
  "string \<Rightarrow> string \<Rightarrow> policy_input_generation \<Rightarrow> string fset \<Rightarrow> policy_decision_record list \<Rightarrow> (string, policy_decision_item) fmap \<Rightarrow>
   (string, policy_decision_item) fmap" where
  "artifacts_loop repository resource generation wanted [] decisions = decisions"
| "artifacts_loop repository resource generation wanted (rec # rest) decisions =
     (if nd_repository rec \<noteq> repository \<or> nd_resource rec \<noteq> resource \<or> nd_action rec \<notin> {Serve, Cached}
      then artifacts_loop repository resource generation wanted rest decisions
      else case nd_artifact rec of
        None \<Rightarrow> artifacts_loop repository resource generation wanted rest decisions
      | Some artifact \<Rightarrow>
          if artifact |\<notin>| wanted \<or> fmlookup decisions artifact \<noteq> None
          then artifacts_loop repository resource generation wanted rest decisions
          else let decisions' = fmupd artifact \<lparr>it_record = rec, it_fresh = (pr_input_generation rec = generation)\<rparr> decisions in
            if fcard (fmdom decisions') = fcard wanted then decisions'
            else artifacts_loop repository resource generation wanted rest decisions')"

definition current_policy_decisions_for_artifacts ::
  "policy_store \<Rightarrow> string \<Rightarrow> string \<Rightarrow> string list \<Rightarrow> (policy_store_error, (string, policy_decision_item) fmap) result" where
  "current_policy_decisions_for_artifacts s repository resource artifacts =
     (if length artifacts > DECISION_QUERY_LIMIT then Inl (TooManyArtifacts DECISION_QUERY_LIMIT)
      else
        and_then (validate_field ''repository'' repository) (\<lambda>_.
        and_then (validate_field ''resource'' resource) (\<lambda>_.
        and_then (try_fold (\<lambda>wanted artifact.
            and_then (validate_field ''artifact'' artifact) (\<lambda>_. Inr (finsert artifact wanted))) {||} artifacts) (\<lambda>wanted.
          if wanted = {||} then Inr fmempty
          else Inr (artifacts_loop repository resource (policy_generation_of (ps_meta s) repository) wanted
                 (map snd (rev (sorted_list_of_fmap (ps_current_id s)))) fmempty)))))"

definition validate_query :: "policy_decision_query \<Rightarrow> (policy_query_error, unit) result" where
  "validate_query q =
     (if \<not> (1 \<le> pq_limit q \<and> pq_limit q \<le> DECISION_QUERY_LIMIT) then Inl InvalidDecisionLimit
      else if (case pq_cursor q of None \<Rightarrow> False | Some cursor \<Rightarrow> \<not> valid_cursor cursor) then Inl InvalidPolicyCursor
      else try_fold (\<lambda>_ (field, v).
          if (case v of None \<Rightarrow> False | Some v \<Rightarrow> length v > MAX_SUBJECT_BYTES) then Inl (FilterTooLong field MAX_SUBJECT_BYTES) else Inr ()) ()
          [(''repository'', pq_repository q), (''resource'', pq_resource q), (''rule'', pq_rule q), (''source'', pq_source q)])"

definition none_or :: "('a \<Rightarrow> bool) \<Rightarrow> 'a option \<Rightarrow> bool" where
  "none_or P v = (case v of None \<Rightarrow> True | Some x \<Rightarrow> P x)"

definition matches_query :: "policy_decision_record \<Rightarrow> policy_decision_query \<Rightarrow> bool" where
  "matches_query rec q \<longleftrightarrow>
     none_or (\<lambda>repository. nd_repository rec = repository) (pq_repository q)
     \<and> none_or (\<lambda>resource. nd_resource rec = resource) (pq_resource q)
     \<and> none_or (\<lambda>state. nd_state rec = state) (pq_state q)
     \<and> none_or (\<lambda>rule. nd_rule rec = Some rule) (pq_rule q)
     \<and> none_or (\<lambda>source. nd_source rec = Some source) (pq_source q)
     \<and> none_or (\<lambda>start. start \<le> nd_evaluated_at_unix rec) (pq_evaluated_from_unix q)
     \<and> none_or (\<lambda>stop. nd_evaluated_at_unix rec \<le> stop) (pq_evaluated_to_unix q)"

fun query_loop ::
  "meta_store \<Rightarrow> policy_decision_query \<Rightarrow> (string \<times> policy_decision_record) list \<Rightarrow> policy_decision_item list \<Rightarrow> string list \<Rightarrow>
   policy_decision_item list \<times> string list" where
  "query_loop meta q [] decisions cursors = (decisions, cursors)"
| "query_loop meta q ((hid, rec) # rest) decisions cursors =
     (if (case pq_cursor q of None \<Rightarrow> False | Some cursor \<Rightarrow> cursor \<le> hid) then query_loop meta q rest decisions cursors
      else if \<not> matches_query rec q then query_loop meta q rest decisions cursors
      else
        let item = \<lparr>it_record = rec, it_fresh = (pr_input_generation rec = policy_generation_of meta (nd_repository rec))\<rparr>;
            decisions' = decisions @ [item]; cursors' = cursors @ [hid]
        in if length decisions' > pq_limit q then (decisions', cursors')
           else query_loop meta q rest decisions' cursors')"

definition query_policy_decisions :: "policy_store \<Rightarrow> policy_decision_query \<Rightarrow> (policy_query_error, policy_decision_page) result" where
  "query_policy_decisions s q =
     and_then (validate_query q) (\<lambda>_.
       case query_loop (ps_meta s) q (rev (sorted_list_of_fmap (ps_history s))) [] [] of (decisions, cursors) \<Rightarrow>
         Inr \<lparr>pp_decisions = take (pq_limit q) decisions,
              pp_next_cursor = (if length decisions > pq_limit q then Some (cursors ! (pq_limit q - 1)) else None)\<rparr>)"

section \<open>Identifiers grow with the serial\<close>

fun digits :: "nat \<Rightarrow> nat \<Rightarrow> nat list" where
  "digits 0 n = []"
| "digits (Suc k) n = (n div 16 ^ k mod 16) # digits k n"

lemma digits_lt_16: "d \<in> set (digits k n) \<Longrightarrow> d < 16"
  by (induction k) auto

lemma nibble_div: "unat (and (drop_bit (4 * k) n) 15 :: u64) = unat n div 16 ^ k mod 16"
proof -
  have "and (drop_bit (4 * k) n) 15 = take_bit 4 (drop_bit (4 * k) n)" by (simp add: take_bit_eq_mask mask_eq_exp_minus_1)
  then have "unat (and (drop_bit (4 * k) n) 15) = take_bit 4 (drop_bit (4 * k) (unat n))"
    using unat_u64_less [of n] by (simp only: unsigned_take_bit_eq unsigned_drop_bit_eq) (simp add: take_bit_nat_eq_self)
  then show ?thesis by (simp add: take_bit_eq_mod drop_bit_eq_div power_mult)
qed

lemma digits_upt: "digits k n = map (\<lambda>i. n div 16 ^ (k - 1 - i) mod 16) [0 ..< k]"
proof (induction k)
  case (Suc k)
  then show ?case by (simp add: upt_conv_Cons flip: map_Suc_upt del: upt_Suc) 
qed simp

lemma hex16_digits: "hex16 n = map ((!) HEX) (digits 16 (unat n))"
  unfolding hex16_def nibble_div digits_upt map_map comp_def diff_diff_left by simp

lemma HEX_mono: "i < j \<Longrightarrow> j < 16 \<Longrightarrow> HEX ! i < HEX ! j"
proof -
  assume *: "i < j" "j < 16"
  have "sorted_wrt (<) HEX" by (simp add: HEX_def less_char_def)
  then show ?thesis by (rule sorted_wrt_nth_less) (use * in \<open>simp_all add: HEX_def\<close>)
qed

lemma digits_mono: "n mod 16 ^ k < m mod 16 ^ k \<Longrightarrow> map ((!) HEX) (digits k n) < map ((!) HEX) (digits k m)"
proof (induction k)
  case (Suc k)
  let ?n = "n div 16 ^ k mod 16" and ?m = "m div 16 ^ k mod 16"
  have split: "x mod 16 ^ Suc k = (x div 16 ^ k mod 16) * 16 ^ k + x mod 16 ^ k" for x :: nat
    by (metis mod_mult2_eq mult.commute power_Suc2 add.commute)
  show ?case
  proof (cases "?n = ?m")
    case True
    then have "n mod 16 ^ k < m mod 16 ^ k" using Suc.prems split by (metis nat_add_left_cancel_less)
    with Suc.IH True show ?thesis by simp
  next
    case False
    have "?n < ?m"
    proof (rule ccontr)
      assume "\<not> ?n < ?m"
      then have "Suc ?m * 16 ^ k \<le> ?n * 16 ^ k" using False by (intro mult_le_mono1) simp
      moreover have "m mod 16 ^ k < 16 ^ k" by simp
      ultimately have "m mod 16 ^ Suc k < n mod 16 ^ Suc k" unfolding split mult_Suc by linarith
      with Suc.prems show False by simp
    qed
    then show ?thesis using HEX_mono by simp
  qed
qed simp

lemma hex16_less: "a < b \<Longrightarrow> hex16 a < hex16 b"
proof -
  assume "a < b"
  then have "unat a mod 16 ^ 16 < unat b mod 16 ^ 16"
    using unat_u64_less [of a] unat_u64_less [of b] by (simp add: word_less_nat_alt)
  from digits_mono [OF this] show ?thesis unfolding hex16_digits .
qed

lemma hex16_less_iff [simp]: "hex16 a < hex16 b \<longleftrightarrow> a < b"
  using hex16_less [of a b] hex16_less [of b a] by (metis less_linear order_less_asym)

lemma hex16_inject [simp]: "hex16 a = hex16 b \<longleftrightarrow> a = b"
  using hex16_less [of a b] hex16_less [of b a] by (metis less_linear order_less_irrefl)

definition nth_id :: "nat \<Rightarrow> string" where
  "nth_id i = history_id (of_nat (Suc i))"

lemma nth_id_less: "Suc j < 2 ^ 64 \<Longrightarrow> i < j \<Longrightarrow> nth_id i < nth_id j"
  by (simp add: nth_id_def history_id_def word_less_nat_alt unat_u64_of_nat del: of_nat_Suc)

lemma nth_id_inject: "Suc i < 2 ^ 64 \<Longrightarrow> Suc j < 2 ^ 64 \<Longrightarrow> nth_id i = nth_id j \<longleftrightarrow> i = j"
  using nth_id_less [of i j] nth_id_less [of j i] by (metis less_linear order_less_irrefl)

section \<open>The tables and the log\<close>

text \<open>The newest decision of a subject in a log of records, by position.\<close>

definition newest :: "(policy_decision_subject \<Rightarrow> string) \<Rightarrow> policy_decision_record list \<Rightarrow> nat \<Rightarrow> bool" where
  "newest json log i \<longleftrightarrow> i < length log \<and> (\<forall>j. i < j \<longrightarrow> j < length log \<longrightarrow> subject_key json (log ! j) \<noteq> subject_key json (log ! i))"

text \<open>The history holds the records from position \<open>lo\<close> on; a subject points to its newest record, which is kept apart.\<close>

definition tables_match ::
  "(policy_decision_subject \<Rightarrow> string) \<Rightarrow> nat \<Rightarrow> policy_decision_record list \<Rightarrow> u64 \<Rightarrow> (string, policy_decision_record) fmap \<Rightarrow>
   (string, string) fmap \<Rightarrow> (string, policy_decision_record) fmap \<Rightarrow> bool" where
  "tables_match json lo log serial history current current_id \<longleftrightarrow>
     Suc (length log) < 2 ^ 64 \<and> serial = of_nat (length log)
     \<and> (\<forall>h r. fmlookup history h = Some r \<longleftrightarrow> (\<exists>i. lo \<le> i \<and> i < length log \<and> h = nth_id i \<and> r = log ! i))
     \<and> (\<forall>k h. fmlookup current k = Some h \<longleftrightarrow> (\<exists>i. newest json log i \<and> k = subject_key json (log ! i) \<and> h = nth_id i))
     \<and> (\<forall>h r. fmlookup current_id h = Some r \<longleftrightarrow> (\<exists>i. newest json log i \<and> h = nth_id i \<and> r = log ! i))"

lemma newest_append:
  "newest json (log @ [r]) i \<longleftrightarrow> i = length log \<or> (newest json log i \<and> subject_key json (log ! i) \<noteq> subject_key json r)"
  by (auto simp: newest_def nth_append less_Suc_eq)

lemma newest_unique: "newest json log i \<Longrightarrow> newest json log j \<Longrightarrow> subject_key json (log ! i) = subject_key json (log ! j) \<Longrightarrow> i = j"
  unfolding newest_def by (metis linorder_neqE_nat)

lemma newest_less: "newest json log i \<Longrightarrow> i < length log"
  by (simp add: newest_def)

lemma tables_match_write:
  assumes m: "tables_match json lo log serial history current current_id" and len: "Suc (length (log @ [r])) < 2 ^ 64" and lo: "lo \<le> length log"
  defines "hid \<equiv> history_id (serial + 1)" and "k \<equiv> subject_key json r"
  shows "tables_match json lo (log @ [r]) (serial + 1) (fmupd hid r history) (fmupd k hid current)
    (fmupd hid r (case fmlookup current k of None \<Rightarrow> current_id | Some p \<Rightarrow> fmdrop p current_id))"
proof -
  have serial: "serial = of_nat (length log)" and hid: "hid = nth_id (length log)"
    using m by (simp_all add: tables_match_def hid_def nth_id_def add.commute)
  have fresh: "nth_id i \<noteq> hid" if "i < length log" for i
    using that len nth_id_inject [of i "length log"] unfolding hid by simp
  have inj: "nth_id i = nth_id j \<longleftrightarrow> i = j" if "newest json log i" "newest json log j" for i j
    using that len by (intro nth_id_inject) (auto dest: newest_less)
  have H: "fmlookup (fmupd hid r history) h = Some x \<longleftrightarrow> (\<exists>i. lo \<le> i \<and> i < length (log @ [r]) \<and> h = nth_id i \<and> x = (log @ [r]) ! i)" for h x
  proof -
    have "fmlookup history h = Some x \<longleftrightarrow> (\<exists>i. lo \<le> i \<and> i < length log \<and> h = nth_id i \<and> x = log ! i)" using m unfolding tables_match_def by blast
    then show ?thesis using fresh lo by (auto simp: nth_append less_Suc_eq hid)
  qed
  have C: "fmlookup (fmupd k hid current) c = Some h \<longleftrightarrow>
      (\<exists>i. newest json (log @ [r]) i \<and> c = subject_key json ((log @ [r]) ! i) \<and> h = nth_id i)" for c h
    using m unfolding tables_match_def newest_append hid k_def by (auto simp: nth_append dest: newest_less)
  have old: "fmlookup (case fmlookup current k of None \<Rightarrow> current_id | Some p \<Rightarrow> fmdrop p current_id) h = Some x \<longleftrightarrow>
      (\<exists>i. newest json log i \<and> subject_key json (log ! i) \<noteq> k \<and> h = nth_id i \<and> x = log ! i)" for h x
  proof (cases "fmlookup current k")
    case None
    then have "subject_key json (log ! i) \<noteq> k" if "newest json log i" for i using m that unfolding tables_match_def by (metis option.distinct(1))
    then show ?thesis using None m unfolding tables_match_def by auto
  next
    case (Some p)
    then obtain i where i: "newest json log i" "k = subject_key json (log ! i)" "p = nth_id i" using m unfolding tables_match_def by blast
    have "fmlookup current_id h = Some x \<longleftrightarrow> (\<exists>i. newest json log i \<and> h = nth_id i \<and> x = log ! i)" using m unfolding tables_match_def by blast
    moreover have "subject_key json (log ! j) = k \<longleftrightarrow> nth_id j = p" if "newest json log j" for j
      using that i newest_unique inj by metis
    ultimately show ?thesis using Some by auto
  qed
  have I: "fmlookup (fmupd hid r (case fmlookup current k of None \<Rightarrow> current_id | Some p \<Rightarrow> fmdrop p current_id)) h = Some x \<longleftrightarrow>
      (\<exists>i. newest json (log @ [r]) i \<and> h = nth_id i \<and> x = (log @ [r]) ! i)" for h x
    using old [of h x] fresh unfolding newest_append k_def [symmetric] by (auto simp: nth_append hid dest: newest_less)
  show ?thesis unfolding tables_match_def using H C I len serial by (simp add: add.commute)
qed

lemma pairs_eqI:
  assumes "map fst xs = map fst ys" "set xs = set ys" "distinct (map fst xs)"
  shows "xs = ys"
proof (rule nth_equalityI)
  show len: "length xs = length ys" using assms(1) by (metis length_map)
  fix i assume i: "i < length xs"
  then have "xs ! i \<in> set ys" "ys ! i \<in> set ys" using assms(2) len by (metis nth_mem)+
  moreover have "fst (xs ! i) = fst (ys ! i)" using assms(1) i len by (metis nth_map)
  moreover have "distinct (map fst ys)" using assms(1,3) by simp
  ultimately show "xs ! i = ys ! i" by (metis eq_key_imp_eq_value prod.collapse)
qed

lemma history_rows:
  assumes m: "tables_match json lo log serial history current current_id"
  shows "sorted_list_of_fmap history = map (\<lambda>i. (nth_id i, log ! i)) [lo ..< length log]" (is "?L = ?R")
proof -
  have len: "Suc (length log) < 2 ^ 64" using m by (simp add: tables_match_def)
  have look: "fmlookup history h = Some r \<longleftrightarrow> (\<exists>i. lo \<le> i \<and> i < length log \<and> h = nth_id i \<and> r = log ! i)" for h r
    using m unfolding tables_match_def by blast
  have sorted: "sorted_wrt (<) (map fst ?R)"
    unfolding sorted_wrt_iff_nth_less using len by (auto intro: nth_id_less)
  have "set ?L = {(h, r). fmlookup history h = Some r}" by auto
  moreover have "set ?R = {(h, r). \<exists>i. lo \<le> i \<and> i < length log \<and> h = nth_id i \<and> r = log ! i}" by auto
  ultimately have sets: "set ?L = set ?R" unfolding look by simp
  have "map fst ?L = map fst ?R"
    by (rule strict_sorted_equal [OF sorted sorted_keys_fmap]) (simp only: set_map sets)
  then show ?thesis using sets by (rule pairs_eqI) simp
qed

text \<open>Pruning moves the start of the history.\<close>

lemma prune_history_match:
  assumes m: "tables_match json lo log (ps_serial s) (ps_history s) (ps_current s) (ps_current_id s)" and lo: "lo \<le> length log"
  shows "tables_match json (max lo (length log - limit)) log (ps_serial (prune_history s limit)) (ps_history (prune_history s limit))
     (ps_current (prune_history s limit)) (ps_current_id (prune_history s limit)) \<and> ps_meta (prune_history s limit) = ps_meta s"
proof -
  let ?excess = "(length log - lo) - limit" and ?start = "length log - limit"
  have len: "Suc (length log) < 2 ^ 64" using m by (simp add: tables_match_def)
  have ids: "map fst (sorted_list_of_fmap (ps_history s)) = map nth_id [lo ..< length log]" by (simp add: history_rows [OF m])
  have look: "fmlookup (ps_history s) h = Some r \<longleftrightarrow> (\<exists>i. lo \<le> i \<and> i < length log \<and> h = nth_id i \<and> r = log ! i)" for h r
    using m unfolding tables_match_def by blast
  show ?thesis
  proof (cases "?excess = 0")
    case True
    then have "prune_history s limit = s" by (auto simp: prune_history_def ids Let_def)
    moreover have "max lo ?start = lo" using True by simp
    ultimately show ?thesis using m by simp
  next
    case False
    then have start: "max lo ?start = ?start" "lo + ?excess = ?start" by auto
    have "\<exists>history. prune_history s limit = s\<lparr>ps_history := history\<rparr>
        \<and> (\<forall>h r. fmlookup history h = Some r \<longleftrightarrow> (\<exists>i. ?start \<le> i \<and> i < length log \<and> h = nth_id i \<and> r = log ! i))"
    proof (cases "limit = 0")
      case True
      with False show ?thesis by (auto simp: prune_history_def ids Let_def intro!: exI [of _ fmempty])
    next
      case nonzero: False
      let ?history = "fmfilter (\<lambda>h. \<not> h < nth_id ?start) (ps_history s)"
      have "prune_history s limit = s\<lparr>ps_history := ?history\<rparr>" using False nonzero start by (simp add: prune_history_def ids Let_def)
      moreover have keep: "\<not> nth_id i < nth_id ?start \<longleftrightarrow> ?start \<le> i" if "i < length log" for i
        using that len nth_id_less [of ?start i] nth_id_less [of i ?start]
        by (cases i ?start rule: linorder_cases) (auto dest: order_less_asym)
      have low: "lo \<le> ?start" using start(2) by linarith
      have "fmlookup ?history h = Some r \<longleftrightarrow> (\<exists>i. ?start \<le> i \<and> i < length log \<and> h = nth_id i \<and> r = log ! i)" for h r
      proof -
        have "fmlookup ?history h = Some r \<longleftrightarrow> \<not> h < nth_id ?start \<and> fmlookup (ps_history s) h = Some r" by simp
        also have "\<dots> \<longleftrightarrow> (\<exists>i. lo \<le> i \<and> i < length log \<and> h = nth_id i \<and> r = log ! i \<and> \<not> nth_id i < nth_id ?start)"
          unfolding look by blast
        also have "\<dots> \<longleftrightarrow> (\<exists>i. ?start \<le> i \<and> i < length log \<and> h = nth_id i \<and> r = log ! i)"
          by (rule iff_exI) (use keep low in \<open>auto\<close>)
        finally show ?thesis .
      qed
      ultimately show ?thesis by blast
    qed
    then show ?thesis using m unfolding tables_match_def start(1) by auto
  qed
qed

definition pd_matches :: "(policy_decision_subject \<Rightarrow> string) \<Rightarrow> usize \<Rightarrow> policy_decision_record list \<Rightarrow> policy_store \<Rightarrow> bool" where
  "pd_matches json limit log s \<longleftrightarrow>
     tables_match json (length log - limit) log (ps_serial s) (ps_history s) (ps_current s) (ps_current_id s)"

lemma subject_key_record_of [simp]: "subject_key json (record_of uuid g d) = subject_key json d"
  by (cases d) (simp add: subject_key_def decision_subject_def record_of_def new_policy_decision.defs)

lemma nd_repository_record_of [simp]: "nd_repository (record_of uuid g d) = nd_repository d"
  by (cases d) (simp add: record_of_def new_policy_decision.defs)

lemma pd_matches_empty: "pd_matches json limit [] (policy_store_empty meta)"
  by (simp add: pd_matches_def tables_match_def policy_store_empty_def newest_def)

lemma record_in_match:
  assumes "tables_match json lo log (ps_serial s) (ps_history s) (ps_current s) (ps_current_id s)" "lo \<le> length log"
    "record_in json uuid s d = (r, s')" "Suc (length (log @ [r])) < 2 ^ 64"
  shows "r = record_of uuid (policy_generation_of (ps_meta s) (nd_repository d)) d" "ps_meta s' = ps_meta s"
    "tables_match json lo (log @ [r]) (ps_serial s') (ps_history s') (ps_current s') (ps_current_id s')"
proof -
  show r: "r = record_of uuid (policy_generation_of (ps_meta s) (nd_repository d)) d" and "ps_meta s' = ps_meta s"
    using assms(3) by (auto simp: record_in_def Let_def)
  show "tables_match json lo (log @ [r]) (ps_serial s') (ps_history s') (ps_current s') (ps_current_id s')"
    using tables_match_write [OF assms(1,4,2)] assms(3) by (auto simp: record_in_def Let_def r)
qed

lemma pd_matches_prune:
  assumes "tables_match json lo log (ps_serial s) (ps_history s) (ps_current s) (ps_current_id s)" "lo \<le> length log - limit"
  shows "pd_matches json limit log (prune_history s limit)" "ps_meta (prune_history s limit) = ps_meta s"
  using prune_history_match [OF assms(1), where limit = limit] assms(2) by (simp_all add: pd_matches_def max_absorb2)

lemma record_decision_match:
  assumes "pd_matches json limit log s" "record_policy_decision_with_history_limit json uuid s d limit = Inr (r, s')"
    "Suc (length (log @ [r])) < 2 ^ 64"
  shows "r = record_of uuid (policy_generation_of (ps_meta s) (nd_repository d)) d" "ps_meta s' = ps_meta s"
    "pd_matches json limit (log @ [r]) s'"
proof -
  obtain s1 where s1: "record_in json uuid s d = (r, s1)" "s' = prune_history s1 limit"
    using assms(2) by (auto simp: record_policy_decision_with_history_limit_def and_then_Inr_iff split: prod.splits)
  note w = record_in_match [OF assms(1) [unfolded pd_matches_def] _ s1(1) assms(3)]
  show "r = record_of uuid (policy_generation_of (ps_meta s) (nd_repository d)) d" using w(1) by simp
  show "ps_meta s' = ps_meta s" "pd_matches json limit (log @ [r]) s'"
    using pd_matches_prune [OF w(3), where limit = limit] w(2) s1(2) by auto
qed

section \<open>Batches\<close>

type_synonym queued = "string \<times> owned_decision"

definition batch_records :: "queued list \<Rightarrow> policy_decision_record list" where
  "batch_records ds = map (\<lambda>(uuid, owned). record_of uuid (od_input_generation owned) (as_new owned)) ds"

definition batch_all :: "(policy_decision_subject \<Rightarrow> string) \<Rightarrow> queued list \<Rightarrow> batch_writer \<Rightarrow> batch_writer" where
  "batch_all json ds b = foldl (\<lambda>b (uuid, owned). batch_record json uuid (as_new owned) (od_input_generation owned) b) b ds"

definition commit_records :: "(policy_decision_subject \<Rightarrow> string) \<Rightarrow> usize \<Rightarrow> queued list \<Rightarrow> policy_store \<Rightarrow> policy_store" where
  "commit_records json history_limit ds s = prune_history (batch_finish s (batch_all json ds (batch_new s))) history_limit"

lemma batch_all_match:
  assumes "tables_match json lo log (bw_serial b) (bw_history b) (bw_current b) (bw_current_records b)" "lo \<le> length log"
    "Suc (length (log @ batch_records ds)) < 2 ^ 64"
  shows "tables_match json lo (log @ batch_records ds) (bw_serial (batch_all json ds b)) (bw_history (batch_all json ds b))
    (bw_current (batch_all json ds b)) (bw_current_records (batch_all json ds b))"
  using assms
proof (induction ds arbitrary: log b)
  case Nil
  then show ?case by (simp add: batch_records_def batch_all_def)
next
  case (Cons q ds)
  obtain uuid owned where q: "q = (uuid, owned)" by force
  let ?r = "record_of uuid (od_input_generation owned) (as_new owned)"
    and ?b = "batch_record json uuid (as_new owned) (od_input_generation owned) b"
  have "Suc (length (log @ [?r])) < 2 ^ 64" using Cons.prems(3) by (simp add: batch_records_def)
  from tables_match_write [OF Cons.prems(1) this Cons.prems(2)]
  have "tables_match json lo (log @ [?r]) (bw_serial ?b) (bw_history ?b) (bw_current ?b) (bw_current_records ?b)"
    by (simp add: batch_record_def Let_def)
  from Cons.IH [OF this] Cons.prems show ?case by (simp add: q batch_records_def batch_all_def)
qed

lemma commit_records_match:
  assumes "pd_matches json limit log s" "Suc (length (log @ batch_records ds)) < 2 ^ 64"
  shows "pd_matches json limit (log @ batch_records ds) (commit_records json limit ds s)" "ps_meta (commit_records json limit ds s) = ps_meta s"
proof -
  let ?b = "batch_all json ds (batch_new s)" and ?lo = "length log - limit"
  have "tables_match json ?lo (log @ batch_records ds) (bw_serial ?b) (bw_history ?b) (bw_current ?b) (bw_current_records ?b)"
    using assms by (intro batch_all_match) (auto simp: pd_matches_def batch_new_def)
  then have "tables_match json ?lo (log @ batch_records ds) (ps_serial (batch_finish s ?b)) (ps_history (batch_finish s ?b))
      (ps_current (batch_finish s ?b)) (ps_current_id (batch_finish s ?b))" by (simp add: batch_finish_def)
  from pd_matches_prune [OF this, where limit = limit]
  show "pd_matches json limit (log @ batch_records ds) (commit_records json limit ds s)" "ps_meta (commit_records json limit ds s) = ps_meta s"
    by (auto simp: commit_records_def batch_finish_def)
qed

lemma fmap_eqI: "(\<And>k v. fmlookup m k = Some v \<longleftrightarrow> fmlookup m' k = Some v) \<Longrightarrow> m = m'"
  by (rule fmap_ext) (metis not_None_eq)

lemma pd_matches_unique:
  assumes "pd_matches json limit log s" "pd_matches json limit log s'" "ps_meta s = ps_meta s'"
  shows "s = s'"
proof -
  have "ps_serial s = ps_serial s'" using assms(1,2) by (simp add: pd_matches_def tables_match_def)
  moreover have "ps_history s = ps_history s'" "ps_current s = ps_current s'" "ps_current_id s = ps_current_id s'"
    using assms(1,2) unfolding pd_matches_def tables_match_def by (auto intro!: fmap_eqI)
  ultimately show ?thesis using assms(3) by simp
qed

section \<open>Runs\<close>

text \<open>The transactions that touch these tables, and any other, which may change the generations.\<close>

datatype pd_op =
  DoRecord string new_policy_decision
| DoBatch "queued list"
| DoPolicy string
| DoRepositories "string fset"
| DoOther meta_store

fun pd_step :: "(policy_decision_subject \<Rightarrow> string) \<Rightarrow> usize \<Rightarrow> policy_store \<times> policy_decision_record list \<Rightarrow> pd_op \<Rightarrow> policy_store \<times> policy_decision_record list" where
  "pd_step json limit (s, log) (DoRecord uuid d) =
     (case record_policy_decision_with_history_limit json uuid s d limit of Inl _ \<Rightarrow> (s, log) | Inr (r, s') \<Rightarrow> (s', log @ [r]))"
| "pd_step json limit (s, log) (DoBatch ds) = (commit_records json limit ds s, log @ batch_records ds)"
| "pd_step json limit (s, log) (DoPolicy repository) = (snd (advance_policy_generation s repository), log)"
| "pd_step json limit (s, log) (DoRepositories repositories) = (store_advance_repository_generations s repositories, log)"
| "pd_step json limit (s, log) (DoOther meta) = (s\<lparr>ps_meta := meta\<rparr>, log)"

definition pd_run :: "(policy_decision_subject \<Rightarrow> string) \<Rightarrow> usize \<Rightarrow> meta_store \<Rightarrow> pd_op list \<Rightarrow> policy_store \<times> policy_decision_record list" where
  "pd_run json limit meta ops = foldl (pd_step json limit) (policy_store_empty meta, []) ops"

lemma pd_step_match:
  assumes "pd_step json limit (s, log) op = (s', log')" "pd_matches json limit log s" "Suc (length log') < 2 ^ 64"
  shows "pd_matches json limit log' s'"
proof (cases op)
  case (DoRecord uuid d)
  show ?thesis
  proof (cases "record_policy_decision_with_history_limit json uuid s d limit")
    case (Inr p)
    then show ?thesis using assms DoRecord record_decision_match(3) [OF assms(2)] by (cases p) auto
  qed (use assms DoRecord in auto)
next
  case (DoBatch ds)
  then show ?thesis using assms commit_records_match(1) [OF assms(2)] by auto
next
  case (DoPolicy repository)
  then show ?thesis using assms by (auto simp: advance_policy_generation_def Let_def pd_matches_def)
qed (use assms in \<open>auto simp: store_advance_repository_generations_def pd_matches_def\<close>)

lemma pd_step_grows: "pd_step json limit (s, log) op = (s', log') \<Longrightarrow> length log \<le> length log'"
  by (cases op) (auto split: sum.splits)

lemma pd_run_matches:
  "pd_run json limit meta ops = (s, log) \<Longrightarrow> Suc (length log) < 2 ^ 64 \<Longrightarrow> pd_matches json limit log s"
proof (induction ops arbitrary: s log rule: rev_induct)
  case Nil
  then show ?case using pd_matches_empty by (auto simp: pd_run_def)
next
  case (snoc op ops)
  obtain s1 log1 where r: "pd_run json limit meta ops = (s1, log1)" by force
  then have step: "pd_step json limit (s1, log1) op = (s, log)" using snoc.prems(1) by (simp add: pd_run_def)
  have "Suc (length log1) < 2 ^ 64" using pd_step_grows [OF step] snoc.prems(2) by linarith
  from pd_step_match [OF step snoc.IH [OF r this] snoc.prems(2)] show ?case .
qed

section \<open>Reads are reads of the log\<close>

lemma find_newest:
  "find (\<lambda>r. subject_key json r = k) (rev log) = Some r \<longleftrightarrow> (\<exists>i. newest json log i \<and> k = subject_key json (log ! i) \<and> r = log ! i)"
proof (induction log rule: rev_induct)
  case (snoc x log)
  show ?case
  proof (cases "subject_key json x = k")
    case True
    then have "newest json (log @ [x]) i \<and> k = subject_key json ((log @ [x]) ! i) \<longleftrightarrow> i = length log" for i
      by (auto simp: newest_append nth_append dest: newest_less)
    then have "(\<exists>i. newest json (log @ [x]) i \<and> k = subject_key json ((log @ [x]) ! i) \<and> r = (log @ [x]) ! i) \<longleftrightarrow> r = x"
      by (metis nth_append_length)
    then show ?thesis using True by auto
  next
    case False
    have "newest json (log @ [x]) i \<and> k = subject_key json ((log @ [x]) ! i) \<and> r = (log @ [x]) ! i \<longleftrightarrow>
        newest json log i \<and> k = subject_key json (log ! i) \<and> r = log ! i" for i
      using False by (auto simp: newest_append nth_append dest: newest_less)
    then show ?thesis using False snoc by simp
  qed
qed (simp add: newest_def)

lemma current_is_newest:
  assumes "pd_matches json limit log s"
  shows "Option.bind (fmlookup (ps_current s) k) (fmlookup (ps_current_id s)) = find (\<lambda>r. subject_key json r = k) (rev log)"
    and "fmlookup (ps_current s) k = None \<longleftrightarrow> find (\<lambda>r. subject_key json r = k) (rev log) = None"
proof -
  have C: "fmlookup (ps_current s) k = Some h \<longleftrightarrow> (\<exists>i. newest json log i \<and> k = subject_key json (log ! i) \<and> h = nth_id i)" for h
    using assms unfolding pd_matches_def tables_match_def by blast
  have I: "fmlookup (ps_current_id s) h = Some r \<longleftrightarrow> (\<exists>i. newest json log i \<and> h = nth_id i \<and> r = log ! i)" for h r
    using assms unfolding pd_matches_def tables_match_def by blast
  show none: "fmlookup (ps_current s) k = None \<longleftrightarrow> find (\<lambda>r. subject_key json r = k) (rev log) = None"
    using C find_newest [of json k log] by (metis not_None_eq)
  show "Option.bind (fmlookup (ps_current s) k) (fmlookup (ps_current_id s)) = find (\<lambda>r. subject_key json r = k) (rev log)"
  proof (cases "fmlookup (ps_current s) k")
    case None
    then show ?thesis using none by simp
  next
    case (Some h)
    then obtain i where i: "newest json log i" "k = subject_key json (log ! i)" "h = nth_id i" using C by blast
    then have "fmlookup (ps_current_id s) h = Some (log ! i)" using I by blast
    moreover have "find (\<lambda>r. subject_key json r = k) (rev log) = Some (log ! i)" using find_newest i by blast
    ultimately show ?thesis using Some by simp
  qed
qed

lemma current_decision_eq:
  assumes "pd_matches json limit log s"
  shows "current_policy_decision json s d = and_then (validate_subject d) (\<lambda>_.
      Inr (case find (\<lambda>r. subject_key json r = subject_key json d) (rev log) of
             None \<Rightarrow> None
           | Some r \<Rightarrow> if pr_input_generation r = policy_generation_of (ps_meta s) (nd_repository r) then Some r else None))"
  using current_is_newest [OF assms, of "subject_key json d"]
  by (cases "validate_subject d"; cases "fmlookup (ps_current s) (subject_key json d)") (auto simp: current_policy_decision_def split: option.splits)

lemma current_rows:
  assumes "pd_matches json limit log s"
  shows "sorted_list_of_fmap (ps_current_id s) = map (\<lambda>i. (nth_id i, log ! i)) (filter (newest json log) [0 ..< length log])" (is "?L = ?R")
proof -
  have len: "Suc (length log) < 2 ^ 64" using assms by (simp add: pd_matches_def tables_match_def)
  have look: "fmlookup (ps_current_id s) h = Some r \<longleftrightarrow> (\<exists>i. newest json log i \<and> h = nth_id i \<and> r = log ! i)" for h r
    using assms unfolding pd_matches_def tables_match_def by blast
  have "sorted_wrt (\<lambda>i j. nth_id i < nth_id j) [0 ..< length log]"
    unfolding sorted_wrt_iff_nth_less using len by (auto intro: nth_id_less)
  then have sorted: "sorted_wrt (<) (map fst ?R)" by (simp add: sorted_wrt_map sorted_wrt_filter)
  have "set ?L = {(h, r). fmlookup (ps_current_id s) h = Some r}" by auto
  moreover have "set ?R = {(h, r). \<exists>i. newest json log i \<and> h = nth_id i \<and> r = log ! i}" by (auto dest: newest_less)
  ultimately have sets: "set ?L = set ?R" unfolding look by simp
  have "map fst ?L = map fst ?R"
    by (rule strict_sorted_equal [OF sorted sorted_keys_fmap]) (simp only: set_map sets)
  then show ?thesis using sets by (rule pairs_eqI) simp
qed

text \<open>Among the current records, newest first, the first with a property of the subject is the newest of the log.\<close>

lemma find_current:
  assumes "\<And>r r'. subject_key json r = subject_key json r' \<Longrightarrow> P r = P (r' :: policy_decision_record)"
  shows "find P (map ((!) log) (rev (filter (newest json log) [0 ..< length log]))) = find P (rev log)"
proof (induction log rule: rev_induct)
  case (snoc x log)
  let ?cur = "\<lambda>log. map ((!) log) (rev (filter (newest json log) [0 ..< length log]))"
  have "?cur (log @ [x]) = x # filter (\<lambda>r. subject_key json r \<noteq> subject_key json x) (?cur log)"
  proof -
    have "filter (newest json (log @ [x])) [0 ..< length log] =
        filter (\<lambda>i. subject_key json (log ! i) \<noteq> subject_key json x) (filter (newest json log) [0 ..< length log])"
      by (auto simp: newest_append intro: filter_cong)
    then have "map ((!) (log @ [x])) (rev (filter (newest json (log @ [x])) [0 ..< length log])) =
        filter (\<lambda>r. subject_key json r \<noteq> subject_key json x) (?cur log)"
      by (auto simp: filter_map comp_def rev_filter nth_append conj_commute intro!: map_cong filter_cong)
    then show ?thesis by (simp add: newest_append nth_append)
  qed
  moreover have "find P (filter (\<lambda>r. subject_key json r \<noteq> subject_key json x) rs) = find P rs" if "\<not> P x" for rs
  proof -
    have "\<not> P r" if "subject_key json r = subject_key json x" for r using assms [OF that] \<open>\<not> P x\<close> by simp
    then show ?thesis by (induction rs) auto
  qed
  ultimately show ?case using snoc by auto
qed simp

definition artifact_served :: "string \<Rightarrow> string \<Rightarrow> string \<Rightarrow> policy_decision_record \<Rightarrow> bool" where
  "artifact_served repository resource artifact rec \<longleftrightarrow>
     nd_repository rec = repository \<and> nd_resource rec = resource \<and> nd_action rec \<in> {Serve, Cached} \<and> nd_artifact rec = Some artifact"

definition item_under :: "policy_input_generation \<Rightarrow> policy_decision_record \<Rightarrow> policy_decision_item" where
  "item_under generation rec = \<lparr>it_record = rec, it_fresh = (pr_input_generation rec = generation)\<rparr>"

lemma artifacts_loop_lookup:
  assumes "fmdom decisions |\<subseteq>| wanted" "fmdom decisions \<noteq> wanted"
  shows "fmlookup (artifacts_loop repository resource generation wanted recs decisions) a =
    (case fmlookup decisions a of
       Some item \<Rightarrow> Some item
     | None \<Rightarrow> if a |\<in>| wanted then map_option (item_under generation) (find (artifact_served repository resource a) recs) else None)"
  using assms
proof (induction recs arbitrary: decisions)
  case (Cons rec recs)
  let ?loop = "artifacts_loop repository resource generation wanted"
  show ?case
  proof (cases "\<exists>b. artifact_served repository resource b rec \<and> b |\<in>| wanted \<and> fmlookup decisions b = None")
    case False
    then have "?loop (rec # recs) decisions = ?loop recs decisions"
      by (auto simp: artifact_served_def split: option.splits)
    moreover have "find (artifact_served repository resource a) (rec # recs) = find (artifact_served repository resource a) recs"
      if "fmlookup decisions a = None" "a |\<in>| wanted" using False that by auto
    ultimately show ?thesis using Cons by (auto split: option.splits)
  next
    case True
    then obtain b where b: "artifact_served repository resource b rec" "b |\<in>| wanted" "fmlookup decisions b = None" by blast
    let ?d = "fmupd b (item_under generation rec) decisions"
    have sub: "fmdom ?d |\<subseteq>| wanted" using Cons.prems(1) b(2) by simp
    have step: "?loop (rec # recs) decisions = (if fcard (fmdom ?d) = fcard wanted then ?d else ?loop recs ?d)"
      using b by (auto simp: artifact_served_def item_under_def Let_def)
    have served: "artifact_served repository resource a rec \<longleftrightarrow> a = b" using b(1) by (auto simp: artifact_served_def)
    show ?thesis
    proof (cases "fcard (fmdom ?d) = fcard wanted")
      case True
      then have "fmdom ?d = wanted" using sub by (metis fcard_seteq order_refl)
      then have "a |\<in>| wanted \<longleftrightarrow> a = b \<or> fmlookup decisions a \<noteq> None" by (auto simp: fmlookup_dom_iff)
      then show ?thesis using step True served b(3) by (auto split: option.splits)
    next
      case False
      then have "fmdom ?d \<noteq> wanted" by metis
      from Cons.IH [OF sub this] show ?thesis using step False served b by (auto split: option.splits)
    qed
  qed
qed (simp split: option.splits)

lemma artifacts_wanted:
  assumes "try_fold (\<lambda>wanted artifact. and_then (validate_field ''artifact'' artifact) (\<lambda>_. Inr (finsert artifact wanted))) w artifacts = Inr wanted"
  shows "fset wanted = fset w \<union> set artifacts"
  using assms by (induction artifacts arbitrary: w) (auto simp: and_then_Inr_iff)

lemma artifacts_newest:
  assumes "pd_matches json limit log s" "inj json"
    "current_policy_decisions_for_artifacts s repository resource artifacts = Inr decisions"
  shows "fmlookup decisions a = (if a \<in> set artifacts
     then map_option (item_under (policy_generation_of (ps_meta s) repository)) (find (artifact_served repository resource a) (rev log)) else None)"
proof -
  let ?loop = "\<lambda>wanted. artifacts_loop repository resource (policy_generation_of (ps_meta s) repository) wanted
      (map snd (rev (sorted_list_of_fmap (ps_current_id s)))) fmempty"
  let ?collect = "\<lambda>wanted artifact. and_then (validate_field ''artifact'' artifact) (\<lambda>_. Inr (finsert artifact wanted))"
  have "length artifacts \<le> DECISION_QUERY_LIMIT" using assms(3) unfolding current_policy_decisions_for_artifacts_def by (simp split: if_splits)
  then have "and_then (validate_field ''repository'' repository) (\<lambda>_. and_then (validate_field ''resource'' resource) (\<lambda>_.
      and_then (try_fold ?collect {||} artifacts) (\<lambda>wanted. if wanted = {||} then Inr fmempty else Inr (?loop wanted)))) = Inr decisions"
    using assms(3) unfolding current_policy_decisions_for_artifacts_def by simp
  then obtain wanted where fold: "try_fold ?collect {||} artifacts = Inr wanted"
    and loop: "(if wanted = {||} then Inr fmempty else Inr (?loop wanted)) = (Inr decisions :: (policy_store_error, _) result)"
    unfolding and_then_Inr_iff by blast
  have w: "fset wanted = set artifacts" "decisions = (if wanted = {||} then fmempty else ?loop wanted)"
    using artifacts_wanted [OF fold] loop by (auto split: if_splits)
  have rows: "map snd (rev (sorted_list_of_fmap (ps_current_id s))) = map ((!) log) (rev (filter (newest json log) [0 ..< length log]))"
    by (simp add: current_rows [OF assms(1)] rev_map comp_def)
  have subject: "artifact_served repository resource a r = artifact_served repository resource a r'"
    if "subject_key json r = subject_key json r'" for r r'
  proof -
    have "decision_subject r = decision_subject r'" using that assms(2) by (simp add: subject_key_def inj_eq)
    then show ?thesis by (simp add: decision_subject_def artifact_served_def)
  qed
  show ?thesis
  proof (cases "wanted = {||}")
    case True
    then show ?thesis using w by auto
  next
    case False
    then have "fmlookup decisions a = (if a |\<in>| wanted then map_option (item_under (policy_generation_of (ps_meta s) repository))
        (find (artifact_served repository resource a) (map snd (rev (sorted_list_of_fmap (ps_current_id s))))) else None)"
      unfolding w(2) by (simp add: artifacts_loop_lookup)
    moreover have "find (artifact_served repository resource a) (map snd (rev (sorted_list_of_fmap (ps_current_id s)))) =
        find (artifact_served repository resource a) (rev log)" unfolding rows by (rule find_current) (rule subject)
    ultimately show ?thesis using w(1) by simp
  qed
qed

lemma direct_writes:
  assumes "pd_matches json limit log s" "Suc (length log + length ds) < 2 ^ 64"
    "\<And>uuid owned. (uuid, owned) \<in> set ds \<Longrightarrow> validate_decision (as_new owned) = Inr () \<and> od_input_generation owned = policy_generation_of (ps_meta s) (nd_repository owned)"
  shows "\<exists>s'. try_fold (\<lambda>t (uuid, owned). and_then (record_policy_decision_with_history_limit json uuid t (as_new owned) limit) (\<lambda>(_, t'). Inr t')) s ds = Inr s'
    \<and> pd_matches json limit (log @ batch_records ds) s' \<and> ps_meta s' = ps_meta s"
  using assms
proof (induction ds arbitrary: s log)
  case Nil
  then show ?case by (simp add: batch_records_def)
next
  case (Cons q ds)
  obtain uuid owned where q: "q = (uuid, owned)" by force
  have ok: "validate_decision (as_new owned) = Inr ()" "od_input_generation owned = policy_generation_of (ps_meta s) (nd_repository owned)"
    using Cons.prems(3) [of uuid owned] q by auto
  obtain r s1 where w: "record_policy_decision_with_history_limit json uuid s (as_new owned) limit = Inr (r, s1)"
    using ok(1) by (cases "record_in json uuid s (as_new owned)") (auto simp: record_policy_decision_with_history_limit_def)
  have repo: "nd_repository (as_new owned) = nd_repository owned" by (cases owned) (simp add: as_new_def new_policy_decision.defs)
  note m = record_decision_match [OF Cons.prems(1) w]
  have r: "r = record_of uuid (od_input_generation owned) (as_new owned)" using m(1) Cons.prems(2) ok(2) repo by simp
  have "\<exists>s'. try_fold (\<lambda>t (uuid, owned). and_then (record_policy_decision_with_history_limit json uuid t (as_new owned) limit) (\<lambda>(_, t'). Inr t')) s1 ds = Inr s'
      \<and> pd_matches json limit ((log @ [r]) @ batch_records ds) s' \<and> ps_meta s' = ps_meta s1"
    using m Cons.prems by (intro Cons.IH) auto
  then show ?case using w q r m(2) Cons.prems(2) by (auto simp: batch_records_def)
qed

text \<open>C35: Recording decisions in one batch leaves the tables that recording them one transaction at a time would leave, pruning
  included, whenever each was valid and queued under the generation its repository still has.\<close>

theorem batch_writes_as_direct:
  assumes "pd_run json limit meta ops = (s, log)" "Suc (length log + length ds) < 2 ^ 64"
    "\<forall>(uuid, owned) \<in> set ds. validate_decision (as_new owned) = Inr () \<and> od_input_generation owned = policy_generation_of (ps_meta s) (nd_repository owned)"
  shows "try_fold (\<lambda>t (uuid, owned). and_then (record_policy_decision_with_history_limit json uuid t (as_new owned) limit) (\<lambda>(_, t'). Inr t')) s ds =
    Inr (commit_records json limit ds s)"
proof -
  have m: "pd_matches json limit log s" using pd_run_matches [OF assms(1)] assms(2) by simp
  obtain s' where s': "try_fold (\<lambda>t (uuid, owned). and_then (record_policy_decision_with_history_limit json uuid t (as_new owned) limit) (\<lambda>(_, t'). Inr t')) s ds = Inr s'"
    "pd_matches json limit (log @ batch_records ds) s'" "ps_meta s' = ps_meta s"
    using direct_writes [OF m assms(2)] assms(3) by blast
  have "Suc (length (log @ batch_records ds)) < 2 ^ 64" using assms(2) by (simp add: batch_records_def)
  from commit_records_match [OF m this] s' pd_matches_unique show ?thesis by metis
qed

text \<open>C34: After any run, the history is the last records of the log, oldest dropped first; the current decision of a subject is
  its newest one, while its inputs are unchanged, and reading it never meets a pointer without a record; and the current
  decisions of some artifacts are the newest served or cached ones.\<close>

theorem policy_reads_log:
  assumes "pd_run json limit meta ops = (s, log)" "Suc (length log) < 2 ^ 64" "inj json"
  shows "map snd (sorted_list_of_fmap (ps_history s)) = drop (length log - limit) log
    \<and> (\<forall>d. current_policy_decision json s d = and_then (validate_subject d) (\<lambda>_.
        Inr (case find (\<lambda>r. decision_subject r = decision_subject d) (rev log) of
               None \<Rightarrow> None
             | Some r \<Rightarrow> if pr_input_generation r = policy_generation_of (ps_meta s) (nd_repository r) then Some r else None)))
    \<and> (\<forall>repository resource artifacts decisions a.
        current_policy_decisions_for_artifacts s repository resource artifacts = Inr decisions \<longrightarrow>
        fmlookup decisions a = (if a \<in> set artifacts
          then map_option (item_under (policy_generation_of (ps_meta s) repository)) (find (artifact_served repository resource a) (rev log)) else None))"
proof -
  have m: "pd_matches json limit log s" by (rule pd_run_matches [OF assms(1,2)])
  have "map snd (sorted_list_of_fmap (ps_history s)) = drop (length log - limit) log"
    by (simp add: history_rows [OF m [unfolded pd_matches_def]] comp_def) (rule nth_equalityI; simp)
  moreover have "subject_key json r = subject_key json d \<longleftrightarrow> decision_subject r = decision_subject d"
    for r :: policy_decision_record and d :: new_policy_decision using assms(3) by (simp add: subject_key_def inj_eq)
  ultimately show ?thesis using current_decision_eq [OF m] artifacts_newest [OF m assms(3)] by simp
qed

section \<open>Samples\<close>

fun sample_text :: "string \<Rightarrow> string" where
  "sample_text [] = ''.''"
| "sample_text (c # cs) = CHR ''x'' # c # sample_text cs"

lemma sample_text_append: "sample_text a @ r = sample_text b @ r' \<longleftrightarrow> a = b \<and> r = r'"
proof (induction a arbitrary: b)
  case Nil
  then show ?case by (cases b) auto
next
  case (Cons c a)
  then show ?case by (cases b) auto
qed

fun sample_option :: "string option \<Rightarrow> string" where
  "sample_option None = ''n''"
| "sample_option (Some t) = CHR ''s'' # sample_text t"

lemma sample_option_append: "sample_option a @ r = sample_option b @ r' \<longleftrightarrow> a = b \<and> r = r'"
  by (cases a; cases b) (auto simp: sample_text_append)

fun sample_action :: "policy_action \<Rightarrow> string" where
  "sample_action Upload = ''u''"
| "sample_action Cached = ''c''"
| "sample_action Serve = ''s''"

definition sample_json :: "policy_decision_subject \<Rightarrow> string" where
  "sample_json d = sample_text (sj_repository d) @ sample_text (sj_resource d) @ sample_option (sj_group d)
     @ sample_option (sj_artifact d) @ sample_option (sj_source d) @ sample_action (sj_action d)"

lemma inj_sample_json: "inj sample_json"
proof (rule injI)
  fix a b assume eq: "sample_json a = sample_json b"
  have "sample_action x = sample_action y \<longleftrightarrow> x = y" for x y by (cases x; cases y) auto
  with eq show "a = b" unfolding sample_json_def sample_text_append sample_option_append by (cases a; cases b) simp
qed

definition sample_decision :: "policy_decision_state \<Rightarrow> new_policy_decision" where
  "sample_decision state = \<lparr>nd_repository = ''r'', nd_resource = ''p'', nd_group = None, nd_artifact = Some ''a'', nd_source = None,
     nd_action = Serve, nd_state = state, nd_rule = None, nd_reason = None, nd_evaluated_at_unix = 5, nd_next_eligible_at_unix = None\<rparr>"

lemma sample_decision_valid [simp]: "validate_decision (sample_decision state) = Inr ()" "validate_subject (sample_decision state) = Inr ()"
  by (simp_all add: validate_decision_def validate_subject_def validate_field_def sample_decision_def MAX_SUBJECT_BYTES_def)

definition sample_ops :: "pd_op list" where
  "sample_ops = [DoRecord ''u1'' (sample_decision Deny), DoRecord ''u2'' (sample_decision Allow)]"

definition sample_record :: "string \<Rightarrow> policy_decision_state \<Rightarrow> policy_decision_record" where
  "sample_record uuid state = record_of uuid policy_generation_default (sample_decision state)"

lemma sample_run:
  obtains s where "pd_run sample_json 1 meta_store_empty sample_ops = (s, [sample_record ''u1'' Deny, sample_record ''u2'' Allow])"
    "ps_meta s = meta_store_empty"
proof -
  let ?p = "pd_run sample_json 1 meta_store_empty sample_ops"
  have g: "policy_generation_of meta_store_empty (nd_repository (sample_decision state)) = policy_generation_default" for state
    by (simp add: policy_generation_of_def meta_store_empty_def)
  have meta: "ps_meta (prune_history s limit) = ps_meta s" for s limit
    by (auto simp: prune_history_def Let_def split: option.splits)
  have "snd ?p = [sample_record ''u1'' Deny, sample_record ''u2'' Allow] \<and> ps_meta (fst ?p) = meta_store_empty"
    by (simp add: pd_run_def sample_ops_def record_policy_decision_with_history_limit_def record_in_def Let_def
        policy_store_empty_def meta g sample_record_def)
  then show thesis using that [of "fst ?p"] by (metis prod.collapse)
qed

theorem policy_reads_log_witness:
  "\<exists>s log. pd_run sample_json 1 meta_store_empty sample_ops = (s, log) \<and> length log = 2
     \<and> map snd (sorted_list_of_fmap (ps_history s)) = [sample_record ''u2'' Allow]
     \<and> current_policy_decision sample_json s (sample_decision Deny) = Inr (Some (sample_record ''u2'' Allow))"
proof -
  obtain s where s: "pd_run sample_json 1 meta_store_empty sample_ops = (s, [sample_record ''u1'' Deny, sample_record ''u2'' Allow])"
    "ps_meta s = meta_store_empty" by (rule sample_run)
  have subject: "decision_subject (sample_record uuid state) = decision_subject (sample_decision state')" for uuid state state'
    by (simp add: decision_subject_def sample_record_def record_of_def sample_decision_def new_policy_decision.defs)
  have fresh: "pr_input_generation (sample_record uuid state) = policy_generation_of meta_store_empty repository" for uuid state repository
    by (simp add: sample_record_def record_of_def policy_generation_of_def meta_store_empty_def new_policy_decision.defs)
  have "map snd (sorted_list_of_fmap (ps_history s)) = [sample_record ''u2'' Allow]
     \<and> current_policy_decision sample_json s (sample_decision Deny) = Inr (Some (sample_record ''u2'' Allow))"
    using policy_reads_log [OF s(1) _ inj_sample_json] s(2) subject fresh by simp
  then show ?thesis using s(1) by auto
qed

theorem batch_writes_as_direct_witness:
  "\<exists>s log. pd_run sample_json 1 meta_store_empty sample_ops = (s, log)
     \<and> try_fold (\<lambda>t (uuid, owned). and_then (record_policy_decision_with_history_limit sample_json uuid t (as_new owned) 1) (\<lambda>(_, t'). Inr t')) s
         [(''u3'', owned_new (sample_decision Wait) policy_generation_default), (''u4'', owned_new (sample_decision Deny) policy_generation_default)] =
       Inr (commit_records sample_json 1
         [(''u3'', owned_new (sample_decision Wait) policy_generation_default), (''u4'', owned_new (sample_decision Deny) policy_generation_default)] s)"
proof -
  obtain s where s: "pd_run sample_json 1 meta_store_empty sample_ops = (s, [sample_record ''u1'' Deny, sample_record ''u2'' Allow])"
    "ps_meta s = meta_store_empty" by (rule sample_run)
  have owned: "as_new (owned_new d g) = d" "od_input_generation (owned_new d g) = g" for d g
    by (simp_all add: as_new_def owned_new_def new_policy_decision.defs)
  have g: "policy_generation_of meta_store_empty repository = policy_generation_default" for repository
    by (simp add: policy_generation_of_def meta_store_empty_def)
  show ?thesis
    by (intro exI conjI, rule s(1), rule batch_writes_as_direct [OF s(1)]) (simp_all add: owned s(2) g)
qed

section \<open>Pages of the history\<close>

definition decision_rows :: "policy_decision_query \<Rightarrow> (string, policy_decision_record) fmap \<Rightarrow> (string \<times> policy_decision_record) list" where
  "decision_rows q history = filter (\<lambda>(h, r). none_or (\<lambda>cursor. h < cursor) (pq_cursor q) \<and> matches_query r q) (rev (sorted_list_of_fmap history))"

definition query_item :: "meta_store \<Rightarrow> string \<times> policy_decision_record \<Rightarrow> policy_decision_item" where
  "query_item meta row = item_under (policy_generation_of meta (nd_repository (snd row))) (snd row)"

lemma query_loop_eq:
  assumes "length decisions \<le> pq_limit q" "length cursors = length decisions"
  shows "query_loop meta q rows decisions cursors =
    (let found = take (Suc (pq_limit q) - length decisions) (filter (\<lambda>(h, r). none_or (\<lambda>cursor. h < cursor) (pq_cursor q) \<and> matches_query r q) rows)
     in (decisions @ map (query_item meta) found, cursors @ map fst found))"
  using assms
proof (induction meta q rows decisions cursors rule: query_loop.induct)
  case (1 meta q decisions cursors)
  then show ?case by simp
next
  case (2 meta q h r rest decisions cursors)
  let ?keep = "none_or (\<lambda>cursor. h < cursor) (pq_cursor q) \<and> matches_query r q"
  have past: "(case pq_cursor q of None \<Rightarrow> False | Some cursor \<Rightarrow> cursor \<le> h) \<longleftrightarrow> \<not> none_or (\<lambda>cursor. h < cursor) (pq_cursor q)"
    by (auto simp: none_or_def not_less split: option.splits)
  show ?case
  proof (cases ?keep)
    case False
    then have "query_loop meta q ((h, r) # rest) decisions cursors = query_loop meta q rest decisions cursors"
      using past by (cases "matches_query r q") auto
    moreover have "query_loop meta q rest decisions cursors =
        (let found = take (Suc (pq_limit q) - length decisions) (filter (\<lambda>(h, r). none_or (\<lambda>cursor. h < cursor) (pq_cursor q) \<and> matches_query r q) rest)
         in (decisions @ map (query_item meta) found, cursors @ map fst found))"
      using False past 2 by (cases "none_or (\<lambda>cursor. h < cursor) (pq_cursor q)") auto
    moreover have "filter (\<lambda>(h, r). none_or (\<lambda>cursor. h < cursor) (pq_cursor q) \<and> matches_query r q) ((h, r) # rest) =
        filter (\<lambda>(h, r). none_or (\<lambda>cursor. h < cursor) (pq_cursor q) \<and> matches_query r q) rest" using False by auto
    ultimately show ?thesis by (simp only:)
  next
    case True
    have left: "Suc (pq_limit q) - length decisions = Suc (pq_limit q - length decisions)" using 2 by simp
    show ?thesis
    proof (cases "pq_limit q = length decisions")
      case full: True
      then show ?thesis using True past by (simp add: Let_def query_item_def item_under_def)
    next
      case False
      then show ?thesis using True past 2 left by (simp add: Let_def query_item_def item_under_def)
    qed
  qed
qed

lemma query_page:
  assumes "validate_query q = Inr ()"
  shows "query_policy_decisions s q = Inr (let rows = decision_rows q (ps_history s) in
    \<lparr>pp_decisions = map (query_item (ps_meta s)) (take (pq_limit q) rows),
     pp_next_cursor = (if length rows > pq_limit q then Some (fst (rows ! (pq_limit q - 1))) else None)\<rparr>)"
proof -
  have pos: "0 < pq_limit q" using assms by (auto simp: validate_query_def split: if_splits)
  have first: "take (pq_limit q) (take (Suc (pq_limit q)) rows) = take (pq_limit q) rows" for rows :: "(string \<times> policy_decision_record) list"
    by (simp add: min_def)
  show ?thesis
    using assms pos by (simp add: query_policy_decisions_def query_loop_eq Let_def decision_rows_def first flip: take_map)
qed

lemma decision_rows_desc: "sorted_wrt (\<lambda>a b. fst b < fst a) (decision_rows q history)"
proof -
  have "sorted_wrt (\<lambda>a b. fst a < fst b) (sorted_list_of_fmap history)" using sorted_keys_fmap [of history] by (simp add: sorted_wrt_map)
  then show ?thesis unfolding decision_rows_def by (simp add: sorted_wrt_filter sorted_wrt_rev)
qed

lemma decision_rows_after:
  assumes "n < length (decision_rows q history)"
  shows "decision_rows (q\<lparr>pq_cursor := Some (fst (decision_rows q history ! n))\<rparr>) history = drop (Suc n) (decision_rows q history)"
proof -
  let ?rows = "decision_rows q history" and ?all = "rev (sorted_list_of_fmap history)"
  let ?c = "fst (?rows ! n)"
  have below: "none_or (\<lambda>cursor. ?c < cursor) (pq_cursor q)" using nth_mem [OF assms] by (auto simp: decision_rows_def)
  have m: "matches_query r (q\<lparr>pq_cursor := c\<rparr>) = matches_query r q" for r c by (simp add: matches_query_def)
  have "decision_rows (q\<lparr>pq_cursor := Some ?c\<rparr>) history = filter (\<lambda>row. fst row < ?c) ?rows"
    using below unfolding decision_rows_def m
    by (auto simp: none_or_def filter_filter case_prod_unfold intro!: filter_cong split: option.splits)
  also have "\<dots> = drop (Suc n) ?rows"
  proof -
    have split: "?rows = take n ?rows @ ?rows ! n # drop (Suc n) ?rows" using assms by (rule id_take_nth_drop)
    have "sorted_wrt (\<lambda>a b. fst b < fst a) (take n ?rows @ ?rows ! n # drop (Suc n) ?rows)" using decision_rows_desc split by metis
    then have hi: "\<forall>x \<in> set (take n ?rows). ?c < fst x" and lo: "\<forall>x \<in> set (drop (Suc n) ?rows). fst x < ?c"
      by (auto simp: sorted_wrt_append)
    have "filter (\<lambda>row. fst row < ?c) (take n ?rows @ ?rows ! n # drop (Suc n) ?rows) = drop (Suc n) ?rows"
      using hi lo by (auto simp: filter_empty_conv filter_id_conv)
    then show ?thesis using split by metis
  qed
  finally show ?thesis .
qed

lemma next_cursor_below:
  assumes "query_policy_decisions s q = Inr page" "pp_next_cursor page = Some c"
  shows "none_or (\<lambda>cursor. c < cursor) (pq_cursor q)" "validate_query q = Inr ()"
proof -
  show v: "validate_query q = Inr ()" using assms(1) by (auto simp: query_policy_decisions_def and_then_Inr_iff)
  let ?rows = "decision_rows q (ps_history s)"
  have "pq_limit q < length ?rows" "c = fst (?rows ! (pq_limit q - 1))"
    using assms query_page [OF v, of s] by (auto simp: Let_def split: if_splits)
  then have "?rows ! (pq_limit q - 1) \<in> set ?rows" "c = fst (?rows ! (pq_limit q - 1))" by auto
  then show "none_or (\<lambda>cursor. c < cursor) (pq_cursor q)" by (auto simp: decision_rows_def)
qed

end
