(* ===== verification/Policy_Queue.thy ===== *)
theory Policy_Queue
  imports Policy_Decision "HOL-Library.Multiset"
begin

text \<open>
  The background writer of policy decisions (\<open>peryx-storage/src/meta/policy_decision_queue.rs\<close>): a bounded channel, two atomic
  counters, the thread that drains the channel in batches, and the callers that queue a decision, wait for the queued ones or
  shut the writer down. Callers and the writer interleave at every access to the channel or a counter, as a step relation.
  The lemmas show what a reader that waited may rely on.
\<close>

section \<open>The queue\<close>

text \<open>A control message carries the reply channel of its caller, here the number of the call.\<close>

datatype control = Flush nat | Shutdown nat

datatype queue_message = QRecord owned_decision | QControl control

record decision_queue =
  dq_capacity :: usize
  dq_max_batch :: usize
  dq_history_limit :: usize
  dq_sender :: bool
  dq_receiver :: bool
  dq_channel :: "queue_message list"
  dq_enqueued :: u64
  dq_applied :: u64
  dq_replies :: "nat set"

definition queue_with_limits :: "usize \<Rightarrow> usize \<Rightarrow> usize \<Rightarrow> decision_queue" where
  "queue_with_limits capacity max_batch history_limit =
     \<lparr>dq_capacity = capacity, dq_max_batch = max_batch, dq_history_limit = history_limit, dq_sender = False, dq_receiver = True,
      dq_channel = [], dq_enqueued = 0, dq_applied = 0, dq_replies = {}\<rparr>"

definition queue_new :: decision_queue where
  "queue_new = queue_with_limits 8192 1024 MAX_DECISION_HISTORY"

datatype send_outcome = Sent decision_queue | SendFull | SendDisconnected

definition try_send :: "decision_queue \<Rightarrow> queue_message \<Rightarrow> send_outcome" where
  "try_send q message =
     (if \<not> dq_receiver q then SendDisconnected
      else if length (dq_channel q) < dq_capacity q then Sent (q\<lparr>dq_channel := dq_channel q @ [message]\<rparr>)
      else SendFull)"

text \<open>Queueing starts the writer on first use and counts the decision before it is sent.\<close>

definition enqueue_begin :: "decision_queue \<Rightarrow> decision_queue" where
  "enqueue_begin q = q\<lparr>dq_sender := True, dq_enqueued := dq_enqueued q + 1\<rparr>"

definition enqueue_failed :: "decision_queue \<Rightarrow> decision_queue" where
  "enqueue_failed q = q\<lparr>dq_applied := dq_applied q + 1\<rparr>"

text \<open>The decisions a batch takes off the channel after its first one, and the control message that ends it.\<close>

fun drain :: "usize \<Rightarrow> queue_message list \<Rightarrow> owned_decision list \<times> control option \<times> queue_message list" where
  "drain 0 messages = ([], None, messages)"
| "drain (Suc n) [] = ([], None, [])"
| "drain (Suc n) (QRecord d # messages) = (case drain n messages of (ds, c, rest) \<Rightarrow> (d # ds, c, rest))"
| "drain (Suc n) (QControl c # messages) = ([], Some c, messages)"

fun acknowledge :: "control \<Rightarrow> decision_queue \<Rightarrow> bool \<times> decision_queue" where
  "acknowledge (Flush i) q = (False, q\<lparr>dq_replies := insert i (dq_replies q)\<rparr>)"
| "acknowledge (Shutdown i) q = (True, q\<lparr>dq_replies := insert i (dq_replies q)\<rparr>)"

definition write_batch ::
  "(policy_decision_subject \<Rightarrow> string) \<Rightarrow> usize \<Rightarrow> queued list \<Rightarrow> bool \<Rightarrow> policy_store \<Rightarrow> policy_store" where
  "write_batch json history_limit ds committed store = (if committed then commit_records json history_limit ds store else store)"

section \<open>Callers and the writer\<close>

text \<open>Where a wait is: it has read the target, decided to flush, sent the message, or returned. Each phase keeps how many
  decisions had been sent when the wait began, and so does a shutdown.\<close>

datatype wait_phase = Unborn | HasTarget u64 nat | MustFlush nat | Waiting nat | Returned nat

datatype writer_pc = Receiving | Counting nat "control option" | Acknowledging control | Stopped

record queue_world =
  qw_queue :: decision_queue
  qw_store :: policy_store
  qw_writer :: writer_pc
  qw_waits :: "nat \<Rightarrow> wait_phase"
  qw_unsent :: "owned_decision multiset"
  qw_sent :: "owned_decision list"
  qw_batches :: "(bool \<times> queued list) list"
  qw_handled :: nat

definition world_start :: "decision_queue \<Rightarrow> policy_store \<Rightarrow> queue_world" where
  "world_start q store = \<lparr>qw_queue = q, qw_store = store, qw_writer = Receiving, qw_waits = (\<lambda>_. Unborn), qw_unsent = {#},
     qw_sent = [], qw_batches = [], qw_handled = 0\<rparr>"

inductive queue_step :: "(policy_decision_subject \<Rightarrow> string) \<Rightarrow> queue_world \<Rightarrow> queue_world \<Rightarrow> bool" for json where
  begin_enqueue:
  "validate_decision decision = Inr () \<Longrightarrow> d = owned_new decision (policy_generation_of (ps_meta (qw_store w)) (nd_repository decision)) \<Longrightarrow>
   queue_step json w (w\<lparr>qw_queue := enqueue_begin (qw_queue w), qw_unsent := add_mset d (qw_unsent w)\<rparr>)"
| send_record:
  "d \<in># qw_unsent w \<Longrightarrow> try_send (qw_queue w) (QRecord d) = Sent q \<Longrightarrow>
   queue_step json w (w\<lparr>qw_queue := q, qw_unsent := qw_unsent w - {#d#}, qw_sent := qw_sent w @ [d]\<rparr>)"
| refuse_record:
  "d \<in># qw_unsent w \<Longrightarrow> try_send (qw_queue w) (QRecord d) = SendDisconnected \<Longrightarrow>
   queue_step json w (w\<lparr>qw_queue := enqueue_failed (qw_queue w), qw_unsent := qw_unsent w - {#d#}\<rparr>)"
| other_transaction:
  "queue_step json w (w\<lparr>qw_store := store\<rparr>)"
| begin_wait:
  "qw_waits w i = Unborn \<Longrightarrow>
   queue_step json w (w\<lparr>qw_waits := (qw_waits w)(i := HasTarget (dq_enqueued (qw_queue w)) (length (qw_sent w)))\<rparr>)"
| wait_satisfied:
  "qw_waits w i = HasTarget target n \<Longrightarrow> target \<le> dq_applied (qw_queue w) \<Longrightarrow> queue_step json w (w\<lparr>qw_waits := (qw_waits w)(i := Returned n)\<rparr>)"
| wait_behind:
  "qw_waits w i = HasTarget target n \<Longrightarrow> dq_applied (qw_queue w) < target \<Longrightarrow>
   queue_step json w (w\<lparr>qw_waits := (qw_waits w)(i := (if dq_sender (qw_queue w) then MustFlush n else Returned n))\<rparr>)"
| send_flush:
  "qw_waits w i = MustFlush n \<Longrightarrow> try_send (qw_queue w) (QControl (Flush i)) = Sent q \<Longrightarrow>
   queue_step json w (w\<lparr>qw_queue := q, qw_waits := (qw_waits w)(i := Waiting n)\<rparr>)"
| begin_shutdown:
  "qw_waits w i = Unborn \<Longrightarrow> dq_sender (qw_queue w) \<Longrightarrow> try_send (qw_queue w) (QControl (Shutdown i)) = Sent q \<Longrightarrow>
   queue_step json w (w\<lparr>qw_queue := q, qw_waits := (qw_waits w)(i := Waiting (length (qw_sent w)))\<rparr>)"
| refuse_flush:
  "qw_waits w i = MustFlush n \<Longrightarrow> try_send (qw_queue w) (QControl (Flush i)) = SendDisconnected \<Longrightarrow>
   queue_step json w (w\<lparr>qw_waits := (qw_waits w)(i := Returned n)\<rparr>)"
| reply:
  "qw_waits w i = Waiting n \<Longrightarrow> i \<in> dq_replies (qw_queue w) \<or> \<not> dq_receiver (qw_queue w) \<Longrightarrow>
   queue_step json w (w\<lparr>qw_waits := (qw_waits w)(i := Returned n)\<rparr>)"
| commit_batch:
  "qw_writer w = Receiving \<Longrightarrow> dq_channel (qw_queue w) = QRecord first # messages \<Longrightarrow>
   drain (dq_max_batch (qw_queue w) - 1) (take seen messages) = (ds, c, rest) \<Longrightarrow> length uuids = Suc (length ds) \<Longrightarrow>
   queue_step json w (w\<lparr>qw_queue := (qw_queue w)\<lparr>dq_channel := rest @ drop seen messages\<rparr>,
     qw_store := write_batch json (dq_history_limit (qw_queue w)) (zip uuids (first # ds)) committed (qw_store w),
     qw_writer := Counting (Suc (length ds)) c,
     qw_batches := qw_batches w @ [(committed, zip uuids (first # ds))]\<rparr>)"
| count_batch:
  "qw_writer w = Counting n c \<Longrightarrow>
   queue_step json w (w\<lparr>qw_queue := (qw_queue w)\<lparr>dq_applied := dq_applied (qw_queue w) + of_nat n\<rparr>,
     qw_writer := (case c of None \<Rightarrow> Receiving | Some c \<Rightarrow> Acknowledging c), qw_handled := qw_handled w + n\<rparr>)"
| receive_control:
  "qw_writer w = Receiving \<Longrightarrow> dq_channel (qw_queue w) = QControl c # messages \<Longrightarrow>
   queue_step json w (w\<lparr>qw_queue := (qw_queue w)\<lparr>dq_channel := messages\<rparr>, qw_writer := Acknowledging c\<rparr>)"
| acknowledge_flush:
  "qw_writer w = Acknowledging c \<Longrightarrow> acknowledge c (qw_queue w) = (False, q) \<Longrightarrow>
   queue_step json w (w\<lparr>qw_queue := q, qw_writer := Receiving\<rparr>)"
| acknowledge_shutdown:
  "qw_writer w = Acknowledging c \<Longrightarrow> acknowledge c (qw_queue w) = (True, q) \<Longrightarrow>
   queue_step json w (w\<lparr>qw_queue := q\<lparr>dq_receiver := False\<rparr>, qw_writer := Stopped\<rparr>)"

inductive queue_reach :: "(policy_decision_subject \<Rightarrow> string) \<Rightarrow> queue_world \<Rightarrow> queue_world \<Rightarrow> bool" for json w where
  reach_start: "queue_reach json w w"
| reach_step: "queue_reach json w u \<Longrightarrow> queue_step json u v \<Longrightarrow> queue_reach json w v"

section \<open>What a wait guarantees\<close>

definition inflight :: "queue_world \<Rightarrow> nat" where
  "inflight w = (case qw_writer w of Counting n _ \<Rightarrow> n | _ \<Rightarrow> 0)"

fun message_records :: "queue_message list \<Rightarrow> owned_decision list" where
  "message_records [] = []"
| "message_records (QRecord d # messages) = d # message_records messages"
| "message_records (QControl c # messages) = message_records messages"

lemma message_records_append [simp]: "message_records (xs @ ys) = message_records xs @ message_records ys"
  by (induction xs rule: message_records.induct) auto

lemma message_records_map [simp]: "message_records (map QRecord ds) = ds"
  by (induction ds) auto

lemma drain_split:
  "drain n messages = (ds, c, rest) \<Longrightarrow> messages = map QRecord ds @ (case c of None \<Rightarrow> [] | Some c \<Rightarrow> [QControl c]) @ rest \<and> length ds \<le> n"
  by (induction n messages arbitrary: ds rule: drain.induct) (auto split: prod.splits)

text \<open>The decisions taken off the channel, in order, are the first ones sent; the others are still in it.\<close>

definition queue_ordered :: "queue_world \<Rightarrow> bool" where
  "queue_ordered w \<longleftrightarrow>
     (dq_receiver (qw_queue w) \<longleftrightarrow> qw_writer w \<noteq> Stopped)
     \<and> qw_handled w + inflight w \<le> length (qw_sent w)
     \<and> map snd (concat (map snd (qw_batches w))) = take (qw_handled w + inflight w) (qw_sent w)
     \<and> message_records (dq_channel (qw_queue w)) = drop (qw_handled w + inflight w) (qw_sent w)
     \<and> (dq_sender (qw_queue w) \<or> qw_sent w = [] \<and> qw_unsent w = {#})"

lemma acknowledge_keeps:
  "acknowledge c q = (b, q') \<Longrightarrow> q' = q\<lparr>dq_replies := dq_replies q'\<rparr>"
  by (cases c) auto

lemma queue_ordered_step:
  assumes "queue_step json w v" "queue_ordered w"
  shows "queue_ordered v"
  using assms
proof cases
  case (commit_batch first messages seen ds c rest uuids committed)
  have messages: "messages = map QRecord ds @ (case c of None \<Rightarrow> [] | Some c \<Rightarrow> [QControl c]) @ rest @ drop seen messages"
    using drain_split [OF commit_batch(4)] by (metis append.assoc append_take_drop_id)
  let ?tail = "message_records (rest @ drop seen messages)"
  have "message_records messages = ds @ ?tail"
    by (subst messages) (simp split: option.splits)
  then have sent: "drop (qw_handled w) (qw_sent w) = (first # ds) @ ?tail" "qw_handled w \<le> length (qw_sent w)"
    using assms(2) commit_batch(2,3) by (auto simp: queue_ordered_def inflight_def)
  then have split: "qw_sent w = take (qw_handled w) (qw_sent w) @ (first # ds) @ ?tail" by (metis append_take_drop_id)
  have "take (qw_handled w + Suc (length ds)) (qw_sent w) = take (qw_handled w) (qw_sent w) @ first # ds"
    "drop (qw_handled w + Suc (length ds)) (qw_sent w) = ?tail"
    using sent(2) by (subst split, simp)+
  moreover have "qw_handled w + Suc (length ds) \<le> length (qw_sent w)" using sent(2) by (subst split) simp
  ultimately show ?thesis
    using assms(2) commit_batch by (simp add: queue_ordered_def inflight_def)
next
  case (count_batch n c)
  then show ?thesis using assms(2) by (auto simp: queue_ordered_def inflight_def split: option.splits)
next
  case (acknowledge_flush c q)
  then show ?thesis using assms(2) acknowledge_keeps [OF acknowledge_flush(3)]
    by (cases c) (auto simp: queue_ordered_def inflight_def)
next
  case (acknowledge_shutdown c q)
  then show ?thesis using assms(2) by (cases c) (auto simp: queue_ordered_def inflight_def)
qed (auto simp: queue_ordered_def inflight_def try_send_def enqueue_begin_def enqueue_failed_def split: if_splits)

fun control_call :: "control \<Rightarrow> nat" where
  "control_call (Flush i) = i"
| "control_call (Shutdown i) = i"

text \<open>How many decisions precede the control message of a call in the channel.\<close>

fun control_at :: "nat \<Rightarrow> queue_message list \<Rightarrow> nat option" where
  "control_at i [] = None"
| "control_at i (QRecord d # messages) = map_option Suc (control_at i messages)"
| "control_at i (QControl c # messages) = (if control_call c = i then Some 0 else control_at i messages)"

lemma control_at_append:
  "control_at i (xs @ ys) = (case control_at i xs of Some n \<Rightarrow> Some n | None \<Rightarrow> map_option ((+) (length (message_records xs))) (control_at i ys))"
proof (induction i xs rule: control_at.induct)
  case (1 i)
  then show ?case by (cases "control_at i ys") auto
next
  case (2 i d messages)
  then show ?case by (cases "control_at i ys") (auto split: option.splits)
qed (auto split: option.splits)

definition writer_call :: "queue_world \<Rightarrow> nat option" where
  "writer_call w = (case qw_writer w of Counting _ c \<Rightarrow> map_option control_call c | Acknowledging c \<Rightarrow> Some (control_call c) | _ \<Rightarrow> None)"

definition call_fresh :: "queue_world \<Rightarrow> nat \<Rightarrow> bool" where
  "call_fresh w i \<longleftrightarrow> i \<notin> dq_replies (qw_queue w) \<and> control_at i (dq_channel (qw_queue w)) = None \<and> writer_call w \<noteq> Some i"

definition total_queued :: "queue_world \<Rightarrow> nat" where
  "total_queued w = length (qw_sent w) + size (qw_unsent w)"

definition wait_ok :: "queue_world \<Rightarrow> nat \<Rightarrow> bool" where
  "wait_ok w i =
     (case qw_waits w i of
        Unborn \<Rightarrow> call_fresh w i
      | HasTarget target n \<Rightarrow> call_fresh w i \<and> n \<le> length (qw_sent w) \<and> (\<exists>m. target = of_nat m \<and> n \<le> m \<and> m \<le> total_queued w)
      | MustFlush n \<Rightarrow> call_fresh w i \<and> n \<le> length (qw_sent w)
      | Waiting n \<Rightarrow>
          n \<le> length (qw_sent w) \<and> (i \<in> dq_replies (qw_queue w) \<longrightarrow> n \<le> qw_handled w)
          \<and> (writer_call w = Some i \<longrightarrow> n \<le> qw_handled w + inflight w)
          \<and> (\<forall>r. control_at i (dq_channel (qw_queue w)) = Some r \<longrightarrow> n \<le> qw_handled w + inflight w + r)
      | Returned n \<Rightarrow> n \<le> qw_handled w)"

definition queue_counted :: "queue_world \<Rightarrow> bool" where
  "queue_counted w \<longleftrightarrow> (qw_writer w \<noteq> Stopped \<and> total_queued w < 2 ^ 64 \<longrightarrow>
     dq_enqueued (qw_queue w) = of_nat (total_queued w) \<and> dq_applied (qw_queue w) = of_nat (qw_handled w) \<and> (\<forall>i. wait_ok w i))"

lemma control_at_records: "control_at i (map QRecord ds @ xs) = map_option ((+) (length ds)) (control_at i xs)"
  by (induction ds) (cases "control_at i xs"; simp)+

text \<open>Steps that leave a wait where it is keep its promise: decisions are only handled, never taken back, and its message only
  moves towards its reply.\<close>

lemma wait_ok_carry:
  assumes "wait_ok w i" "qw_waits v i = qw_waits w i" "length (qw_sent w) \<le> length (qw_sent v)" "qw_handled w \<le> qw_handled v"
    "qw_handled w + inflight w \<le> qw_handled v + inflight v" "total_queued w \<le> total_queued v"
    and message: "\<And>r. control_at i (dq_channel (qw_queue v)) = Some r \<Longrightarrow>
      \<exists>r'. control_at i (dq_channel (qw_queue w)) = Some r' \<and> qw_handled w + inflight w + r' \<le> qw_handled v + inflight v + r"
    and call: "writer_call v = Some i \<Longrightarrow>
      writer_call w = Some i \<or> (\<exists>r'. control_at i (dq_channel (qw_queue w)) = Some r' \<and> qw_handled w + inflight w + r' \<le> qw_handled v + inflight v)"
    and reply: "i \<in> dq_replies (qw_queue v) \<Longrightarrow> i \<in> dq_replies (qw_queue w) \<or> (writer_call w = Some i \<and> qw_handled w + inflight w \<le> qw_handled v)"
  shows "wait_ok v i"
proof -
  have fresh: "call_fresh v i" if "call_fresh w i"
    using that message call reply unfolding call_fresh_def by (metis option.distinct(1) not_None_eq)
  show ?thesis
  proof (cases "qw_waits w i")
    case (HasTarget target n)
    then obtain m where "target = of_nat m" "n \<le> m" "m \<le> total_queued w" "call_fresh w i" "n \<le> length (qw_sent w)"
      using assms(1) by (auto simp: wait_ok_def)
    then show ?thesis using HasTarget assms fresh unfolding wait_ok_def by (auto intro: order_trans)
  next
    case (Waiting n)
    then have n: "n \<le> length (qw_sent w)" "i \<in> dq_replies (qw_queue w) \<Longrightarrow> n \<le> qw_handled w"
      "writer_call w = Some i \<Longrightarrow> n \<le> qw_handled w + inflight w"
      "\<And>r. control_at i (dq_channel (qw_queue w)) = Some r \<Longrightarrow> n \<le> qw_handled w + inflight w + r"
      using assms(1) by (auto simp: wait_ok_def)
    have "n \<le> qw_handled v" if "i \<in> dq_replies (qw_queue v)" using reply [OF that] n(2,3) assms(4) by linarith
    moreover have "n \<le> qw_handled v + inflight v" if "writer_call v = Some i" using call [OF that] n(3,4) assms(5) by fastforce
    moreover have "n \<le> qw_handled v + inflight v + r" if "control_at i (dq_channel (qw_queue v)) = Some r" for r
      using message [OF that] n(4) by fastforce
    ultimately show ?thesis using Waiting assms(2,3) n(1) by (simp add: wait_ok_def)
  qed (use assms fresh in \<open>auto simp: wait_ok_def\<close>)
qed

lemma sent_queue: "try_send q m = Sent q' \<longleftrightarrow> dq_receiver q \<and> length (dq_channel q) < dq_capacity q \<and> q' = q\<lparr>dq_channel := dq_channel q @ [m]\<rparr>"
  by (auto simp: try_send_def)

lemmas wait_state = call_fresh_def writer_call_def inflight_def total_queued_def

lemma carry_same:
  assumes "wait_ok w i" "qw_waits v i = qw_waits w i" "length (qw_sent w) \<le> length (qw_sent v)" "total_queued w \<le> total_queued v"
    "qw_handled v = qw_handled w" "qw_writer v = qw_writer w" "dq_replies (qw_queue v) = dq_replies (qw_queue w)"
    "control_at i (dq_channel (qw_queue v)) = control_at i (dq_channel (qw_queue w))"
  shows "wait_ok v i"
  by (rule wait_ok_carry [OF assms(1,2,3)]) (use assms in \<open>auto simp: inflight_def writer_call_def\<close>)

lemma satisfied_handled:
  assumes "of_nat m \<le> (of_nat h :: u64)" "m < 2 ^ 64" "h < 2 ^ 64"
  shows "m \<le> h"
  using assms by (simp add: word_le_nat_alt unat_u64_of_nat)

lemma commit_carry:
  assumes "wait_ok w i" "qw_writer w = Receiving" "dq_channel (qw_queue w) = QRecord first # messages"
    "drain n (take seen messages) = (ds, c, rest)"
    "qw_waits v = qw_waits w" "qw_sent v = qw_sent w" "qw_unsent v = qw_unsent w" "qw_handled v = qw_handled w" "qw_writer v = Counting (Suc (length ds)) c"
    "dq_replies (qw_queue v) = dq_replies (qw_queue w)" "dq_channel (qw_queue v) = rest @ drop seen messages"
  shows "wait_ok v i"
proof -
  let ?rest = "rest @ drop seen messages"
  have messages: "messages = map QRecord ds @ (case c of None \<Rightarrow> [] | Some c \<Rightarrow> [QControl c]) @ ?rest"
    using drain_split [OF assms(4)] by (metis append.assoc append_take_drop_id)
  have pos: "control_at i (dq_channel (qw_queue w)) = map_option (\<lambda>r. Suc (length ds + r)) (control_at i ((case c of None \<Rightarrow> [] | Some c \<Rightarrow> [QControl c]) @ ?rest))"
    unfolding assms(3) by (subst messages) (simp add: control_at_records option.map_comp comp_def)
  show ?thesis
  proof (rule wait_ok_carry [OF assms(1)])
    fix r assume r: "control_at i (dq_channel (qw_queue v)) = Some r"
    show "\<exists>r'. control_at i (dq_channel (qw_queue w)) = Some r' \<and> qw_handled w + inflight w + r' \<le> qw_handled v + inflight v + r"
      using r assms(2,8,9,11) unfolding pos by (cases c) (auto simp: inflight_def)
  next
    assume "writer_call v = Some i"
    then have "control_at i (dq_channel (qw_queue w)) = Some (Suc (length ds))"
      using assms(9) unfolding pos by (auto simp: writer_call_def)
    then show "writer_call w = Some i \<or> (\<exists>r'. control_at i (dq_channel (qw_queue w)) = Some r' \<and> qw_handled w + inflight w + r' \<le> qw_handled v + inflight v)"
      using assms(2,8,9) by (auto simp: inflight_def)
  qed (use assms in \<open>auto simp: inflight_def total_queued_def\<close>)
qed

lemma counters_step:
  assumes "queue_step json w v" "dq_receiver (qw_queue w)"
    "dq_enqueued (qw_queue w) = of_nat (total_queued w)" "dq_applied (qw_queue w) = of_nat (qw_handled w)"
  shows "dq_enqueued (qw_queue v) = of_nat (total_queued v)" "dq_applied (qw_queue v) = of_nat (qw_handled v)" "total_queued w \<le> total_queued v"
proof -
  have split: "\<exists>u. qw_unsent w = add_mset d u" if "d \<in># qw_unsent w" for d using that by (auto dest: multi_member_split)
  have "dq_enqueued (qw_queue v) = of_nat (total_queued v) \<and> dq_applied (qw_queue v) = of_nat (qw_handled v) \<and> total_queued w \<le> total_queued v"
    using assms(1)
  proof cases
    case (send_record d q)
    then show ?thesis using split [OF send_record(2)] assms(3,4) by (auto simp: sent_queue total_queued_def)
  next
    case (acknowledge_flush c q)
    then show ?thesis using assms(3,4) by (cases c) (auto simp: total_queued_def)
  next
    case (acknowledge_shutdown c q)
    then show ?thesis using assms(3,4) by (cases c) (auto simp: total_queued_def)
  qed (use assms(2-4) in \<open>auto simp: sent_queue total_queued_def enqueue_begin_def try_send_def split: if_splits\<close>)
  then show "dq_enqueued (qw_queue v) = of_nat (total_queued v)" "dq_applied (qw_queue v) = of_nat (qw_handled v)" "total_queued w \<le> total_queued v"
    by auto
qed

text \<open>A step of a caller changes one wait; a step of the writer none.\<close>

lemma caller_step_keeps:
  assumes "queue_step json w v" "qw_writer v = qw_writer w"
  shows "length (qw_sent w) \<le> length (qw_sent v) \<and> qw_handled v = qw_handled w \<and> dq_replies (qw_queue v) = dq_replies (qw_queue w)
    \<and> (qw_waits v j = qw_waits w j \<longrightarrow> control_at j (dq_channel (qw_queue v)) = control_at j (dq_channel (qw_queue w)))"
  using assms(1)
proof cases
  case (count_batch n c)
  then show ?thesis using assms(2) by (auto split: option.splits)
next
  case (acknowledge_flush c q)
  then show ?thesis using assms(2) by auto
next
  case (acknowledge_shutdown c q)
  then show ?thesis using assms(2) by auto
qed (use assms(2) in \<open>auto simp: sent_queue control_at_append enqueue_begin_def enqueue_failed_def split: option.splits\<close>)

lemma caller_step_waits:
  assumes step: "queue_step json w v" and same: "qw_writer v = qw_writer w" and ord: "queue_ordered w" and rec: "dq_receiver (qw_queue w)"
    and small: "total_queued w < 2 ^ 64" and enq: "dq_enqueued (qw_queue w) = of_nat (total_queued w)"
    and app: "dq_applied (qw_queue w) = of_nat (qw_handled w)" and waits: "\<And>i. wait_ok w i"
  shows "wait_ok v j"
proof -
  have handled: "qw_handled w + inflight w \<le> length (qw_sent w)"
    and records: "message_records (dq_channel (qw_queue w)) = drop (qw_handled w + inflight w) (qw_sent w)"
    using ord by (auto simp: queue_ordered_def)
  have keep: "wait_ok v j" if "qw_waits v j = qw_waits w j"
    using caller_step_keeps [OF step same] counters_step(3) [OF step rec enq app] that
    by (intro carry_same [OF waits [of j] that]) (auto simp: same)
  show ?thesis
    using step
  proof cases
    case (begin_wait i)
    have "length (qw_sent w) \<le> total_queued w" by (simp add: total_queued_def)
    then show ?thesis using waits [of i] begin_wait enq keep
      by (cases "j = i") (auto simp: wait_ok_def wait_state simp del: of_nat_add intro!: exI [of _ "length (qw_sent w) + size (qw_unsent w)"])
  next
    case (wait_satisfied i target n)
    obtain m where m: "target = of_nat m" "n \<le> m" "m \<le> total_queued w" using waits [of i] wait_satisfied by (auto simp: wait_ok_def)
    have "m \<le> qw_handled w"
      by (rule satisfied_handled) (use wait_satisfied app m handled small in \<open>auto simp: total_queued_def\<close>)
    then show ?thesis using wait_satisfied m keep by (cases "j = i") (auto simp: wait_ok_def)
  next
    case (wait_behind i target n)
    have "n = 0" if "\<not> dq_sender (qw_queue w)"
      using that ord waits [of i] wait_behind by (auto simp: queue_ordered_def wait_ok_def)
    then show ?thesis using wait_behind waits [of i] keep by (cases "j = i") (auto simp: wait_ok_def wait_state)
  next
    case (send_flush i n q)
    then show ?thesis using waits [of i] handled records keep
      by (cases "j = i") (auto simp: wait_ok_def wait_state sent_queue control_at_append)
  next
    case (begin_shutdown i q)
    then show ?thesis using waits [of i] handled records keep
      by (cases "j = i") (auto simp: wait_ok_def wait_state sent_queue control_at_append)
  next
    case (reply i n)
    then show ?thesis using waits [of i] rec keep by (cases "j = i") (auto simp: wait_ok_def)
  next
    case (refuse_flush i n)
    then show ?thesis using rec by (auto simp: try_send_def split: if_splits)
  qed (use keep same in \<open>auto split: option.splits\<close>)
qed

lemma writer_step_waits:
  assumes step: "queue_step json w v" and moved: "qw_writer v \<noteq> qw_writer w" and live: "qw_writer v \<noteq> Stopped" and wait: "wait_ok w i"
  shows "wait_ok v i"
  using step
proof cases
  case (commit_batch first messages seen ds c rest uuids committed)
  then show ?thesis by (intro commit_carry [OF wait commit_batch(2,3,4)]) auto
next
  case (count_batch n c)
  show ?thesis by (rule wait_ok_carry [OF wait]) (use count_batch in \<open>auto simp: wait_state split: option.splits\<close>)
next
  case (receive_control c messages)
  show ?thesis by (rule wait_ok_carry [OF wait]) (use receive_control in \<open>auto simp: wait_state\<close>)
next
  case (acknowledge_flush c q)
  show ?thesis by (rule wait_ok_carry [OF wait]) (use acknowledge_flush in \<open>cases c; auto simp: wait_state\<close>)+
qed (use moved live in auto)

lemma queue_counted_step:
  assumes step: "queue_step json w v" and ord: "queue_ordered w" and inv: "queue_counted w"
  shows "queue_counted v"
  unfolding queue_counted_def
proof (intro impI)
  assume v: "qw_writer v \<noteq> Stopped \<and> total_queued v < 2 ^ 64"
  have live: "qw_writer w \<noteq> Stopped" using step v by cases auto
  then have rec: "dq_receiver (qw_queue w)" using ord by (simp add: queue_ordered_def)
  have "total_queued w \<le> total_queued v"
    using step rec by cases (auto simp: total_queued_def try_send_def dest: multi_member_split split: if_splits)
  then have small: "total_queued w < 2 ^ 64" using v by linarith
  from inv live small have enq: "dq_enqueued (qw_queue w) = of_nat (total_queued w)" and app: "dq_applied (qw_queue w) = of_nat (qw_handled w)"
    and waits: "\<And>i. wait_ok w i" by (auto simp: queue_counted_def)
  have "wait_ok v i" for i
    using caller_step_waits [OF step _ ord rec small enq app waits] writer_step_waits [OF step _ _ waits] v by blast
  then show "dq_enqueued (qw_queue v) = of_nat (total_queued v) \<and> dq_applied (qw_queue v) = of_nat (qw_handled v) \<and> (\<forall>i. wait_ok v i)"
    using counters_step [OF step rec enq app] by blast
qed

lemma queue_reach_inv:
  assumes "queue_reach json (world_start (queue_with_limits capacity max_batch history_limit) store) w"
  shows "queue_ordered w \<and> queue_counted w"
  using assms
proof induction
  case reach_start
  show ?case by (auto simp: world_start_def queue_with_limits_def queue_ordered_def queue_counted_def wait_ok_def wait_state)
next
  case (reach_step u v)
  then show ?case using queue_ordered_step queue_counted_step by blast
qed

text \<open>C38: Once a wait for the queued decisions has returned, every decision sent before it began is in a batch the writer has
  committed or reported as failed, in the order they were sent, unless a shutdown has stopped the writer.\<close>

theorem wait_covers_sent:
  assumes "queue_reach json (world_start (queue_with_limits capacity max_batch history_limit) store) w"
    "total_queued w < 2 ^ 64" "qw_waits w i = Returned n" "qw_writer w \<noteq> Stopped"
  shows "n \<le> qw_handled w \<and> qw_handled w \<le> length (map snd (concat (map snd (qw_batches w))))
    \<and> take n (map snd (concat (map snd (qw_batches w)))) = take n (qw_sent w)"
proof -
  have ord: "queue_ordered w" and "queue_counted w" using queue_reach_inv [OF assms(1)] by auto
  then have "wait_ok w i" using assms(2,4) by (auto simp: queue_counted_def)
  then have n: "n \<le> qw_handled w" using assms(3) by (simp add: wait_ok_def)
  have "map snd (concat (map snd (qw_batches w))) = take (qw_handled w + inflight w) (qw_sent w)" "qw_handled w + inflight w \<le> length (qw_sent w)"
    using ord by (auto simp: queue_ordered_def)
  then show ?thesis using n by (simp add: min_def)
qed

section \<open>Sample runs\<close>

definition sample_owned :: owned_decision where
  "sample_owned = owned_new (sample_decision Deny) policy_generation_default"

definition sample_start :: queue_world where
  "sample_start = world_start (queue_with_limits 2 2 5) (policy_store_empty meta_store_empty)"

definition queued_world :: queue_world where
  "queued_world = sample_start\<lparr>qw_queue := enqueue_begin (qw_queue sample_start), qw_unsent := {#sample_owned#}\<rparr>"

lemma queued_reach: "queue_reach json sample_start queued_world"
proof -
  have g: "policy_generation_of (ps_meta (qw_store sample_start)) repository = policy_generation_default" for repository
    by (simp add: sample_start_def world_start_def policy_store_empty_def policy_generation_of_def meta_store_empty_def)
  have "queue_step json sample_start (sample_start\<lparr>qw_queue := enqueue_begin (qw_queue sample_start),
      qw_unsent := add_mset sample_owned (qw_unsent sample_start)\<rparr>)"
    by (rule begin_enqueue [OF sample_decision_valid(1)]) (simp add: sample_owned_def g)
  moreover have "qw_unsent sample_start = {#}" by (simp add: sample_start_def world_start_def)
  ultimately show ?thesis using reach_step [OF reach_start] by (simp add: queued_world_def)
qed

lemmas sample_worlds = queued_world_def sample_start_def world_start_def queue_with_limits_def enqueue_begin_def

lemma sample_wait:
  "\<exists>w. queue_reach sample_json sample_start w \<and> total_queued w < 2 ^ 64 \<and> qw_waits w 7 = Returned 1 \<and> qw_writer w \<noteq> Stopped
     \<and> qw_sent w = [sample_owned]"
proof -
  let ?q1 = "(qw_queue queued_world)\<lparr>dq_channel := [QRecord sample_owned]\<rparr>"
  let ?w1 = "queued_world\<lparr>qw_queue := ?q1, qw_unsent := {#}, qw_sent := [sample_owned]\<rparr>"
  have 1: "queue_step sample_json queued_world ?w1"
    using send_record [of sample_owned queued_world ?q1 sample_json] by (simp add: sample_worlds sent_queue)
  let ?w2 = "?w1\<lparr>qw_waits := (qw_waits ?w1)(7 := HasTarget 1 1)\<rparr>"
  have 2: "queue_step sample_json ?w1 ?w2"
    using begin_wait [of ?w1 7 sample_json] by (simp add: sample_worlds)
  let ?w3 = "?w2\<lparr>qw_queue := ?q1\<lparr>dq_channel := []\<rparr>,
      qw_store := write_batch sample_json 5 [(''u'', sample_owned)] True (qw_store ?w2), qw_writer := Counting 1 None,
      qw_batches := [(True, [(''u'', sample_owned)])]\<rparr>"
  have 3: "queue_step sample_json ?w2 ?w3"
    using commit_batch [of ?w2 sample_owned "[]" 0 "[]" None "[]" "[''u'']" sample_json True]
    by (simp add: sample_worlds numeral_2_eq_2)
  let ?w4 = "?w3\<lparr>qw_queue := (qw_queue ?w3)\<lparr>dq_applied := 1\<rparr>, qw_writer := Receiving, qw_handled := 1\<rparr>"
  have 4: "queue_step sample_json ?w3 ?w4"
    using count_batch [of ?w3 1 None sample_json] by (simp add: sample_worlds)
  have 5: "queue_step sample_json ?w4 (?w4\<lparr>qw_waits := (qw_waits ?w4)(7 := Returned 1)\<rparr>)"
    using wait_satisfied [of ?w4 7 1 1 sample_json] by (simp add: sample_worlds)
  have "queue_reach sample_json sample_start (?w4\<lparr>qw_waits := (qw_waits ?w4)(7 := Returned 1)\<rparr>)"
    by (rule reach_step [OF reach_step [OF reach_step [OF reach_step [OF reach_step [OF queued_reach 1] 2] 3] 4] 5])
  then show ?thesis by (intro exI conjI) (assumption, simp_all add: sample_worlds total_queued_def)
qed

theorem wait_covers_sent_witness:
  "\<exists>w. queue_reach sample_json sample_start w \<and> qw_waits w 7 = Returned 1
     \<and> take 1 (map snd (concat (map snd (qw_batches w)))) = [sample_owned]"
proof -
  obtain w where w: "queue_reach sample_json sample_start w" "total_queued w < 2 ^ 64" "qw_waits w 7 = Returned 1"
    "qw_writer w \<noteq> Stopped" "qw_sent w = [sample_owned]" using sample_wait by blast
  from wait_covers_sent [OF w(1) [unfolded sample_start_def] w(2-4)] w show ?thesis by auto
qed

text \<open>A decision that reaches the channel behind a shutdown message is accepted and then dropped: the queue call succeeded, the
  decision is in no batch, and a later wait returns all the same.\<close>

lemma shutdown_drops_decision:
  "\<exists>w. queue_reach json sample_start w \<and> qw_sent w = [sample_owned] \<and> qw_unsent w = {#} \<and> qw_writer w = Stopped
     \<and> qw_batches w = [] \<and> qw_waits w 8 = Returned 1"
proof -
  let ?q1 = "(qw_queue queued_world)\<lparr>dq_channel := [QControl (Shutdown 7)]\<rparr>"
  let ?w1 = "queued_world\<lparr>qw_queue := ?q1, qw_waits := (qw_waits queued_world)(7 := Waiting 0)\<rparr>"
  have 1: "queue_step json queued_world ?w1"
    using begin_shutdown [of queued_world 7 ?q1 json] by (simp add: sample_worlds sent_queue)
  let ?q2 = "?q1\<lparr>dq_channel := [QControl (Shutdown 7), QRecord sample_owned]\<rparr>"
  let ?w2 = "?w1\<lparr>qw_queue := ?q2, qw_unsent := {#}, qw_sent := [sample_owned]\<rparr>"
  have 2: "queue_step json ?w1 ?w2"
    using send_record [of sample_owned ?w1 ?q2 json] by (simp add: sample_worlds sent_queue)
  let ?w3 = "?w2\<lparr>qw_queue := ?q2\<lparr>dq_channel := [QRecord sample_owned]\<rparr>, qw_writer := Acknowledging (Shutdown 7)\<rparr>"
  have 3: "queue_step json ?w2 ?w3"
    using receive_control [of ?w2 "Shutdown 7" "[QRecord sample_owned]" json] by (simp add: sample_worlds)
  let ?w4 = "?w3\<lparr>qw_queue := (qw_queue ?w3)\<lparr>dq_replies := {7}, dq_receiver := False\<rparr>, qw_writer := Stopped\<rparr>"
  have 4: "queue_step json ?w3 ?w4"
    using acknowledge_shutdown [of ?w3 "Shutdown 7" "(qw_queue ?w3)\<lparr>dq_replies := {7}\<rparr>" json] by (simp add: sample_worlds)
  let ?w5 = "?w4\<lparr>qw_waits := (qw_waits ?w4)(8 := HasTarget 1 1)\<rparr>"
  have 5: "queue_step json ?w4 ?w5"
    using begin_wait [of ?w4 8 json] by (simp add: sample_worlds)
  let ?w6 = "?w5\<lparr>qw_waits := (qw_waits ?w5)(8 := MustFlush 1)\<rparr>"
  have 6: "queue_step json ?w5 ?w6"
    using wait_behind [of ?w5 8 1 1 json] by (simp add: sample_worlds)
  have 7: "queue_step json ?w6 (?w6\<lparr>qw_waits := (qw_waits ?w6)(8 := Returned 1)\<rparr>)"
    using refuse_flush [of ?w6 8 1 json] by (simp add: sample_worlds try_send_def)
  have "queue_reach json sample_start (?w6\<lparr>qw_waits := (qw_waits ?w6)(8 := Returned 1)\<rparr>)"
    by (rule reach_step [OF reach_step [OF reach_step [OF reach_step [OF reach_step [OF reach_step [OF reach_step
        [OF queued_reach 1] 2] 3] 4] 5] 6] 7])
  then show ?thesis by (intro exI conjI) (assumption, simp_all add: sample_worlds)
qed

end
