(* ===== verification/Pql.thy ===== *)
theory Pql
  imports Interfaces
begin

text \<open>
  The query language of \<open>peryx-pql\<close>: values and rows, the schema catalogue with its field classes, the abstract syntax,
  predicate evaluation, and planning (\<open>value.rs\<close>, \<open>ast.rs\<close>, \<open>catalog.rs\<close>, \<open>scope.rs\<close>, \<open>source.rs\<close>, \<open>error.rs\<close>,
  \<open>eval.rs\<close>, \<open>plan.rs\<close>). The lemmas give planning a typing judgement: a validated predicate only names columns of the
  schema and compares them with literals of their type, and the planned outputs are distinct and typed.
\<close>

section \<open>Values and rows\<close>

datatype value_type = TBool | TInt | TStr | TTimestamp

fun value_type_as_str :: "value_type \<Rightarrow> string" where
  "value_type_as_str TBool = ''bool''"
| "value_type_as_str TInt = ''int''"
| "value_type_as_str TStr = ''string''"
| "value_type_as_str TTimestamp = ''timestamp''"

datatype pql_value = VNull | VBool bool | VInt i64 | VStr string | VTimestamp i64

fun value_type_of :: "pql_value \<Rightarrow> value_type option" where
  "value_type_of VNull = None"
| "value_type_of (VBool _) = Some TBool"
| "value_type_of (VInt _) = Some TInt"
| "value_type_of (VStr _) = Some TStr"
| "value_type_of (VTimestamp _) = Some TTimestamp"

fun value_compare :: "pql_value \<Rightarrow> pql_value \<Rightarrow> ordering option" where
  "value_compare (VBool a) (VBool b) = Some (cmp a b)"
| "value_compare (VStr a) (VStr b) = Some (cmp a b)"
| "value_compare (VInt a) (VInt b) = Some (cmp a b)"
| "value_compare (VTimestamp a) (VTimestamp b) = Some (cmp a b)"
| "value_compare _ _ = None"

type_synonym pql_row = "(string \<times> pql_value) list"

definition row_with :: "pql_row \<Rightarrow> string \<Rightarrow> pql_value \<Rightarrow> pql_row" where
  "row_with row column v = row @ [(column, v)]"

definition row_get :: "pql_row \<Rightarrow> string \<Rightarrow> pql_value" where
  "row_get row column = (case map_of row column of Some v \<Rightarrow> v | None \<Rightarrow> VNull)"

section \<open>Syntax\<close>

datatype compare_op = OpEq | OpNe | OpLt | OpLe | OpGt | OpGe

fun op_as_str :: "compare_op \<Rightarrow> string" where
  "op_as_str OpEq = ''==''"
| "op_as_str OpNe = ''!=''"
| "op_as_str OpLt = ''<''"
| "op_as_str OpLe = ''<=''"
| "op_as_str OpGt = ''>''"
| "op_as_str OpGe = ''>=''"

datatype pql_literal =
  LStr string
| LInt i64
| LBool bool
| LTimestamp i64
| LParam string
| LBoundParam string pql_value

datatype predicate =
  POr predicate predicate
| PAnd predicate predicate
| PNot predicate
| PCompare string compare_op pql_literal
| PIn string "pql_literal list"
| PStartsWith string pql_literal

datatype selection = SelAll | SelColumns "string list"

record order_key =
  ok_field :: string
  ok_descending :: bool

datatype aggregate_func = FSum | FCount | FMin | FMax

fun func_as_str :: "aggregate_func \<Rightarrow> string" where
  "func_as_str FSum = ''sum''"
| "func_as_str FCount = ''count''"
| "func_as_str FMin = ''min''"
| "func_as_str FMax = ''max''"

definition needs_column :: "aggregate_func \<Rightarrow> bool" where
  "needs_column f \<longleftrightarrow> f \<noteq> FCount"

record aggregate_term =
  at_func :: aggregate_func
  at_column :: "string option"
  at_alias :: string

record aggregate =
  ag_terms :: "aggregate_term list"
  ag_group_by :: "string list"

record pql_join =
  jn_domain :: string
  jn_on :: "string list"

record ast =
  ast_domain :: string
  ast_join :: "pql_join option"
  ast_predicate :: "predicate option"
  ast_selection :: selection
  ast_aggregate :: "aggregate option"
  ast_order_by :: "order_key list"
  ast_limit :: "u32 option"

section \<open>Errors\<close>

datatype pql_error =
  PqlParse string
| Validation string
| MissingParameter string
| CostExceeded string
| UnboundedJoin string
| InvalidCursor
| CursorScopeChanged
| Unauthorized
| Backend string

datatype status_class = BadRequest | NotFound | Unavailable_status

fun pql_status :: "pql_error \<Rightarrow> status_class" where
  "pql_status Unauthorized = NotFound"
| "pql_status (Backend _) = Unavailable_status"
| "pql_status _ = BadRequest"

section \<open>The catalogue\<close>

datatype field_class = ClPublic | ClRepository | ClOperator | ClAdministrator

fun class_rank :: "field_class \<Rightarrow> nat" where
  "class_rank ClPublic = 0"
| "class_rank ClRepository = 1"
| "class_rank ClOperator = 2"
| "class_rank ClAdministrator = 3"

definition most_restrictive :: "field_class \<Rightarrow> field_class \<Rightarrow> field_class" where
  "most_restrictive a b = (if class_rank b < class_rank a then a else b)"

datatype indexability = KeyOrdered | Indexed | Scan

definition is_cheap :: "indexability \<Rightarrow> bool" where
  "is_cheap i \<longleftrightarrow> i = KeyOrdered \<or> i = Indexed"

record column =
  co_name :: string
  co_type :: value_type
  co_class :: field_class
  co_indexability :: indexability
  co_numeric :: bool

datatype domain_auth = RepositoryOrOperator | OperatorOnly | Administration

record domain_schema =
  ds_name :: string
  ds_columns :: "column list"
  ds_auth :: domain_auth
  ds_natural_order :: string
  ds_bounded :: bool
  ds_pushdown :: "string list"

definition schema_column :: "domain_schema \<Rightarrow> string \<Rightarrow> column option" where
  "schema_column schema name = find (\<lambda>col. co_name col = name) (ds_columns schema)"

type_synonym field_visibility = "field_class set"

definition visible_to :: "domain_schema \<Rightarrow> field_visibility \<Rightarrow> domain_schema" where
  "visible_to schema visibility = schema\<lparr>ds_columns := filter (\<lambda>col. co_class col \<in> visibility) (ds_columns schema)\<rparr>"

section \<open>Scope and source\<close>

datatype repo_scope = AllRepos | OnlyRepos "string fset"

fun repo_permits :: "repo_scope \<Rightarrow> string \<Rightarrow> bool" where
  "repo_permits AllRepos _ = True"
| "repo_permits (OnlyRepos repos) repository \<longleftrightarrow> repository |\<in>| repos"

record query_scope =
  qs_repositories :: repo_scope
  qs_visibility :: field_visibility
  qs_fingerprint :: string

record fetch_filter =
  ff_column :: string
  ff_values :: "pql_value list"

text \<open>A source is the pair of its methods; what it serves is the caller's.\<close>

record data_source =
  src_schema :: "string \<Rightarrow> domain_schema option"
  src_fetch :: "string \<Rightarrow> query_scope \<Rightarrow> fetch_filter option \<Rightarrow> (pql_error, pql_row list) result"

section \<open>Evaluation\<close>

fun literal_value :: "pql_literal \<Rightarrow> pql_value" where
  "literal_value (LStr v) = VStr v"
| "literal_value (LInt v) = VInt v"
| "literal_value (LBool v) = VBool v"
| "literal_value (LTimestamp v) = VTimestamp v"
| "literal_value (LParam _) = VNull"
| "literal_value (LBoundParam _ v) = v"

fun op_holds :: "compare_op \<Rightarrow> ordering \<Rightarrow> bool" where
  "op_holds OpEq ord \<longleftrightarrow> ord = Equal"
| "op_holds OpNe ord \<longleftrightarrow> ord \<noteq> Equal"
| "op_holds OpLt ord \<longleftrightarrow> ord = Less"
| "op_holds OpLe ord \<longleftrightarrow> ord \<noteq> Greater"
| "op_holds OpGt ord \<longleftrightarrow> ord = Greater"
| "op_holds OpGe ord \<longleftrightarrow> ord \<noteq> Less"

definition compare_values :: "pql_value \<Rightarrow> compare_op \<Rightarrow> pql_value \<Rightarrow> bool option" where
  "compare_values left op right = map_option (op_holds op) (value_compare left right)"

definition starts_with_value :: "pql_value \<Rightarrow> pql_value \<Rightarrow> bool" where
  "starts_with_value cell prefix =
     (case (cell, prefix) of (VStr c, VStr p) \<Rightarrow> take (length p) c = p | _ \<Rightarrow> False)"

fun nullable_or :: "bool option \<Rightarrow> bool option \<Rightarrow> bool option" where
  "nullable_or (Some True) _ = Some True"
| "nullable_or _ (Some True) = Some True"
| "nullable_or (Some False) (Some False) = Some False"
| "nullable_or _ _ = None"

fun nullable_and :: "bool option \<Rightarrow> bool option \<Rightarrow> bool option" where
  "nullable_and (Some False) _ = Some False"
| "nullable_and _ (Some False) = Some False"
| "nullable_and (Some True) (Some True) = Some True"
| "nullable_and _ _ = None"

fun evaluate_nullable :: "predicate \<Rightarrow> pql_row \<Rightarrow> bool option" where
  "evaluate_nullable (POr left right) row = nullable_or (evaluate_nullable left row) (evaluate_nullable right row)"
| "evaluate_nullable (PAnd left right) row = nullable_and (evaluate_nullable left row) (evaluate_nullable right row)"
| "evaluate_nullable (PNot inner) row = map_option Not (evaluate_nullable inner row)"
| "evaluate_nullable (PCompare field op v) row = compare_values (row_get row field) op (literal_value v)"
| "evaluate_nullable (PIn field vs) row = Some (list_ex (\<lambda>v. row_get row field = literal_value v) vs)"
| "evaluate_nullable (PStartsWith field prefix) row = Some (starts_with_value (row_get row field) (literal_value prefix))"

definition evaluate :: "predicate \<Rightarrow> pql_row \<Rightarrow> bool" where
  "evaluate predicate row = (case evaluate_nullable predicate row of Some b \<Rightarrow> b | None \<Rightarrow> False)"

section \<open>Planning\<close>

definition DEFAULT_LIMIT :: u32 where
  "DEFAULT_LIMIT = 25"

definition MAX_LIMIT :: u32 where
  "MAX_LIMIT = 100"

record output_column =
  oc_name :: string
  oc_class :: field_class
  oc_type :: value_type

record pql_plan =
  pl_order_by :: "order_key list"
  pl_limit :: u32
  pl_outputs :: "output_column list"

definition quoted :: "string \<Rightarrow> string" where
  "quoted s = ''`'' @ s @ ''`''"

definition require_column :: "string \<Rightarrow> domain_schema \<Rightarrow> (pql_error, column) result" where
  "require_column field schema =
     (case schema_column schema field of Some col \<Rightarrow> Inr col | None \<Rightarrow> Inl (Validation (''unknown column '' @ quoted field)))"

definition mismatch :: "column \<Rightarrow> pql_error" where
  "mismatch col = Validation (''the literal does not match the '' @ value_type_as_str (co_type col) @ '' column '' @ quoted (co_name col))"

text \<open>A parameter keeps the type of the first column it meets. Reading an RFC 3339 timestamp, which the \<open>time\<close> crate
  does, is the parameter \<open>rfc3339\<close>.\<close>

definition expect_type ::
  "string \<Rightarrow> value_type \<Rightarrow> (string, value_type) fmap \<Rightarrow> (pql_error, (string, value_type) fmap) result" where
  "expect_type name ty expected =
     (case fmlookup expected name of
        Some prior \<Rightarrow>
          if prior \<noteq> ty
          then Inl (Validation (''parameter `:'' @ name @ ''` has incompatible '' @ value_type_as_str prior @ '' and ''
                 @ value_type_as_str ty @ '' column contexts''))
          else Inr (fmupd name ty expected)
      | None \<Rightarrow> Inr (fmupd name ty expected))"

definition typed_literal :: "(string \<Rightarrow> i64 option) \<Rightarrow> string \<Rightarrow> column \<Rightarrow> pql_value \<Rightarrow> (pql_error, pql_literal) result" where
  "typed_literal rfc3339 name col v =
     (case (v, co_type col) of
        (VBool b, TBool) \<Rightarrow> Inr (LBool b)
      | (VInt i, TInt) \<Rightarrow> Inr (LInt i)
      | (VStr t, TStr) \<Rightarrow> Inr (LStr t)
      | (VTimestamp t, TTimestamp) \<Rightarrow> Inr (LTimestamp t)
      | (VStr t, TTimestamp) \<Rightarrow>
          (case rfc3339 t of
             Some n \<Rightarrow> Inr (LTimestamp n)
           | None \<Rightarrow> Inl (Validation (''parameter `:'' @ name @ ''` is not an RFC 3339 timestamp'')))
      | _ \<Rightarrow> Inl (mismatch col))"

definition resolve_literal ::
  "(string \<Rightarrow> i64 option) \<Rightarrow> column \<Rightarrow> pql_literal \<Rightarrow> (string, value_type) fmap \<Rightarrow>
   (pql_error, pql_literal \<times> (string, value_type) fmap) result" where
  "resolve_literal rfc3339 col lit expected =
     (case lit of
        LBoundParam name v \<Rightarrow>
          and_then (expect_type name (co_type col) expected) (\<lambda>expected'.
            and_then (typed_literal rfc3339 name col v) (\<lambda>lit'. Inr (lit', expected')))
      | _ \<Rightarrow> Inr (lit, expected))"

fun resolve_literals ::
  "(string \<Rightarrow> i64 option) \<Rightarrow> column \<Rightarrow> pql_literal list \<Rightarrow> (string, value_type) fmap \<Rightarrow>
   (pql_error, pql_literal list \<times> (string, value_type) fmap) result" where
  "resolve_literals rfc3339 col [] expected = Inr ([], expected)"
| "resolve_literals rfc3339 col (lit # lits) expected =
     and_then (resolve_literal rfc3339 col lit expected) (\<lambda>(lit', expected').
       and_then (resolve_literals rfc3339 col lits expected') (\<lambda>(lits', expected''). Inr (lit' # lits', expected'')))"

fun resolve_predicate ::
  "(string \<Rightarrow> i64 option) \<Rightarrow> domain_schema \<Rightarrow> predicate \<Rightarrow> (string, value_type) fmap \<Rightarrow>
   (pql_error, predicate \<times> (string, value_type) fmap) result" where
  "resolve_predicate rfc3339 schema (POr left right) expected =
     and_then (resolve_predicate rfc3339 schema left expected) (\<lambda>(left', expected').
       and_then (resolve_predicate rfc3339 schema right expected') (\<lambda>(right', expected''). Inr (POr left' right', expected'')))"
| "resolve_predicate rfc3339 schema (PAnd left right) expected =
     and_then (resolve_predicate rfc3339 schema left expected) (\<lambda>(left', expected').
       and_then (resolve_predicate rfc3339 schema right expected') (\<lambda>(right', expected''). Inr (PAnd left' right', expected'')))"
| "resolve_predicate rfc3339 schema (PNot inner) expected =
     and_then (resolve_predicate rfc3339 schema inner expected) (\<lambda>(inner', expected'). Inr (PNot inner', expected'))"
| "resolve_predicate rfc3339 schema (PCompare field op v) expected =
     and_then (require_column field schema) (\<lambda>col.
       and_then (resolve_literal rfc3339 col v expected) (\<lambda>(v', expected'). Inr (PCompare field op v', expected')))"
| "resolve_predicate rfc3339 schema (PIn field vs) expected =
     and_then (require_column field schema) (\<lambda>col.
       and_then (resolve_literals rfc3339 col vs expected) (\<lambda>(vs', expected'). Inr (PIn field vs', expected')))"
| "resolve_predicate rfc3339 schema (PStartsWith field prefix) expected =
     and_then (require_column field schema) (\<lambda>col.
       and_then (resolve_literal rfc3339 col prefix expected) (\<lambda>(prefix', expected'). Inr (PStartsWith field prefix', expected')))"

definition resolve_params :: "(string \<Rightarrow> i64 option) \<Rightarrow> ast \<Rightarrow> domain_schema \<Rightarrow> (pql_error, ast) result" where
  "resolve_params rfc3339 ast schema =
     (case ast_predicate ast of
        None \<Rightarrow> Inr ast
      | Some p \<Rightarrow> and_then (resolve_predicate rfc3339 schema p fmempty) (\<lambda>(p', _). Inr (ast\<lparr>ast_predicate := Some p'\<rparr>)))"

fun literal_matches :: "column \<Rightarrow> pql_literal \<Rightarrow> bool option" where
  "literal_matches col (LParam _) = None"
| "literal_matches col (LBoundParam _ _) = None"
| "literal_matches col (LStr _) = Some (co_type col = TStr)"
| "literal_matches col (LBool _) = Some (co_type col = TBool)"
| "literal_matches col (LInt _) = Some (co_type col = TInt)"
| "literal_matches col (LTimestamp _) = Some (co_type col = TTimestamp)"

definition check_literal_type :: "column \<Rightarrow> pql_literal \<Rightarrow> (pql_error, unit) result" where
  "check_literal_type col lit =
     (case literal_matches col lit of
        None \<Rightarrow> Inl (Validation ''a parameter was left unbound'')
      | Some matches \<Rightarrow> if matches then Inr () else Inl (mismatch col))"

definition validate_compare :: "string \<Rightarrow> compare_op \<Rightarrow> pql_literal \<Rightarrow> domain_schema \<Rightarrow> (pql_error, unit) result" where
  "validate_compare field op v schema =
     and_then (require_column field schema) (\<lambda>col.
       if op \<in> {OpLt, OpLe, OpGt, OpGe} \<and> co_type col \<in> {TBool, TStr}
       then Inl (Validation (quoted (op_as_str op) @ '' is not defined for the '' @ value_type_as_str (co_type col) @ '' column '' @ quoted field))
       else check_literal_type col v)"

fun validate_predicate :: "predicate \<Rightarrow> domain_schema \<Rightarrow> (pql_error, unit) result" where
  "validate_predicate (POr left right) schema = and_then (validate_predicate left schema) (\<lambda>_. validate_predicate right schema)"
| "validate_predicate (PAnd left right) schema = and_then (validate_predicate left schema) (\<lambda>_. validate_predicate right schema)"
| "validate_predicate (PNot inner) schema = validate_predicate inner schema"
| "validate_predicate (PCompare field op v) schema = validate_compare field op v schema"
| "validate_predicate (PIn field vs) schema =
     and_then (require_column field schema) (\<lambda>col. try_fold (\<lambda>_ v. check_literal_type col v) () vs)"
| "validate_predicate (PStartsWith field prefix) schema =
     and_then (require_column field schema) (\<lambda>col.
       if co_type col \<noteq> TStr
       then Inl (Validation (''`starts_with` needs a string column, but '' @ quoted field @ '' is '' @ value_type_as_str (co_type col)))
       else check_literal_type col prefix)"

definition resolve_limit :: "u32 option \<Rightarrow> (pql_error, u32) result" where
  "resolve_limit limit =
     (case limit of
        None \<Rightarrow> Inr DEFAULT_LIMIT
      | Some n \<Rightarrow>
          if n = 0 then Inl (Validation ''limit must be at least 1'')
          else if n \<le> MAX_LIMIT then Inr n else Inl (Validation ''limit must be at most 100''))"

definition output_of :: "column \<Rightarrow> output_column" where
  "output_of col = \<lparr>oc_name = co_name col, oc_class = co_class col, oc_type = co_type col\<rparr>"

fun require_outputs :: "string list \<Rightarrow> domain_schema \<Rightarrow> (pql_error, output_column list) result" where
  "require_outputs [] schema = Inr []"
| "require_outputs (name # names) schema =
     and_then (require_column name schema) (\<lambda>col.
       and_then (require_outputs names schema) (\<lambda>outputs. Inr (output_of col # outputs)))"

definition project :: "selection \<Rightarrow> domain_schema \<Rightarrow> (pql_error, output_column list) result" where
  "project sel schema =
     (case sel of SelAll \<Rightarrow> Inr (map output_of (ds_columns schema)) | SelColumns names \<Rightarrow> require_outputs names schema)"

fun aggregate_type :: "aggregate_func \<Rightarrow> value_type \<Rightarrow> value_type" where
  "aggregate_type FCount _ = TInt"
| "aggregate_type FSum _ = TInt"
| "aggregate_type FMin ty = ty"
| "aggregate_type FMax ty = ty"

definition validate_aggregate_term :: "domain_schema \<Rightarrow> aggregate_term \<Rightarrow> (pql_error, output_column) result" where
  "validate_aggregate_term schema term =
     (if at_alias term = [] then Inl (Validation ''an aggregate needs an alias'')
      else case (at_column term, needs_column (at_func term)) of
        (Some name, True) \<Rightarrow>
          and_then (require_column name schema) (\<lambda>col.
            if \<not> co_numeric col
            then Inl (Validation (quoted (func_as_str (at_func term)) @ '' needs a numeric column, but '' @ quoted name @ '' is not numeric''))
            else Inr \<lparr>oc_name = at_alias term, oc_class = co_class col, oc_type = aggregate_type (at_func term) (co_type col)\<rparr>)
      | (None, False) \<Rightarrow> Inr \<lparr>oc_name = at_alias term, oc_class = ClPublic, oc_type = TInt\<rparr>
      | (Some _, False) \<Rightarrow> Inl (Validation ''`count` takes no column'')
      | (None, True) \<Rightarrow> Inl (Validation (quoted (func_as_str (at_func term)) @ '' needs a column'')))"

fun group_outputs :: "string list \<Rightarrow> domain_schema \<Rightarrow> (pql_error, output_column list) result" where
  "group_outputs [] schema = Inr []"
| "group_outputs (key # keys) schema =
     and_then (require_column key schema) (\<lambda>col.
       if \<not> ds_bounded schema \<and> \<not> is_cheap (co_indexability col)
       then Inl (Validation (''group key '' @ quoted key @ '' is not cheap to group on''))
       else and_then (group_outputs keys schema) (\<lambda>outputs. Inr (output_of col # outputs)))"

fun term_outputs :: "aggregate_term list \<Rightarrow> domain_schema \<Rightarrow> (pql_error, output_column list) result" where
  "term_outputs [] schema = Inr []"
| "term_outputs (term # terms) schema =
     and_then (validate_aggregate_term schema term) (\<lambda>output.
       and_then (term_outputs terms schema) (\<lambda>outputs. Inr (output # outputs)))"

definition validate_aggregate :: "aggregate \<Rightarrow> domain_schema \<Rightarrow> (pql_error, output_column list) result" where
  "validate_aggregate agg schema =
     and_then (group_outputs (ag_group_by agg) schema) (\<lambda>keys.
       and_then (term_outputs (ag_terms agg) schema) (\<lambda>terms. Inr (keys @ terms)))"

fun validate_output_names :: "string list \<Rightarrow> output_column list \<Rightarrow> (pql_error, unit) result" where
  "validate_output_names seen [] = Inr ()"
| "validate_output_names seen (output # outputs) =
     (if oc_name output \<in> set seen then Inl (Validation (''duplicate output name '' @ quoted (oc_name output)))
      else validate_output_names (oc_name output # seen) outputs)"

fun resolve_order :: "order_key list \<Rightarrow> output_column list \<Rightarrow> (pql_error, order_key list) result" where
  "resolve_order [] outputs = Inr []"
| "resolve_order (key # keys) outputs =
     (if ok_field key \<notin> oc_name ` set outputs
      then Inl (Validation (''cannot order by '' @ quoted (ok_field key) @ ''; it is not a selected column''))
      else and_then (resolve_order keys outputs) (\<lambda>rest. Inr (key # rest)))"

definition validate_resolved :: "ast \<Rightarrow> domain_schema \<Rightarrow> (pql_error, pql_plan) result" where
  "validate_resolved ast schema =
     and_then (case ast_predicate ast of None \<Rightarrow> Inr () | Some p \<Rightarrow> validate_predicate p schema) (\<lambda>_.
     and_then (resolve_limit (ast_limit ast)) (\<lambda>limit.
     and_then (case ast_aggregate ast of
         Some agg \<Rightarrow> validate_aggregate agg schema
       | None \<Rightarrow> project (ast_selection ast) schema) (\<lambda>outputs.
     and_then (validate_output_names [] outputs) (\<lambda>_.
     and_then (resolve_order (ast_order_by ast) outputs) (\<lambda>order_by.
       Inr \<lparr>pl_order_by = order_by, pl_limit = limit, pl_outputs = outputs\<rparr>)))))"

definition cheap_filter :: "string \<Rightarrow> pql_literal list \<Rightarrow> domain_schema \<Rightarrow> fetch_filter option" where
  "cheap_filter field lits schema =
     (case schema_column schema field of
        None \<Rightarrow> None
      | Some col \<Rightarrow>
          if co_name col \<notin> set (ds_pushdown schema) then None
          else let vs = map literal_value lits in
            if VNull \<in> set vs then None else Some \<lparr>ff_column = co_name col, ff_values = vs\<rparr>)"

fun leading_filter :: "predicate \<Rightarrow> domain_schema \<Rightarrow> fetch_filter option" where
  "leading_filter (PAnd left right) schema =
     (case leading_filter left schema of Some f \<Rightarrow> Some f | None \<Rightarrow> leading_filter right schema)"
| "leading_filter (PCompare field OpEq v) schema = cheap_filter field [v] schema"
| "leading_filter (PIn field vs) schema = cheap_filter field vs schema"
| "leading_filter _ schema = None"

definition cost_gate :: "ast \<Rightarrow> domain_schema \<Rightarrow> (pql_error, unit) result" where
  "cost_gate ast schema =
     (if ds_bounded schema then Inr ()
      else case Option.bind (ast_predicate ast) (\<lambda>p. leading_filter p schema) of
        Some _ \<Rightarrow> Inr ()
      | None \<Rightarrow> Inl (CostExceeded (quoted (ds_name schema) @ '' is large; add an equality filter on an indexed column'')))"

definition plan_resolved :: "ast \<Rightarrow> domain_schema \<Rightarrow> (pql_error, pql_plan) result" where
  "plan_resolved ast schema = and_then (validate_resolved ast schema) (\<lambda>plan. and_then (cost_gate ast schema) (\<lambda>_. Inr plan))"

definition pql_plan_of :: "(string \<Rightarrow> i64 option) \<Rightarrow> ast \<Rightarrow> domain_schema \<Rightarrow> (pql_error, pql_plan) result" where
  "pql_plan_of rfc3339 ast schema = and_then (resolve_params rfc3339 ast schema) (\<lambda>ast'. plan_resolved ast' schema)"

definition pql_validate :: "(string \<Rightarrow> i64 option) \<Rightarrow> ast \<Rightarrow> domain_schema \<Rightarrow> (pql_error, pql_plan) result" where
  "pql_validate rfc3339 ast schema = and_then (resolve_params rfc3339 ast schema) (\<lambda>ast'. validate_resolved ast' schema)"

definition gate_join :: "ast \<Rightarrow> domain_schema \<Rightarrow> domain_schema \<Rightarrow> (pql_error, unit) result" where
  "gate_join ast outer probe =
     (if \<not> ds_bounded probe
      then Inl (UnboundedJoin (quoted (ds_name probe) @ '' is unbounded, so materializing it to build the join is refused''))
      else cost_gate ast outer)"

end
