(* ===== verification/Pql_Execute.thy ===== *)
theory Pql_Execute
  imports Pql
begin

text \<open>
  Execution of a query (\<open>execute.rs\<close>, \<open>cursor.rs\<close>): scoping, the bounded hash join, filtering, aggregation, ordering and
  cursor pagination. SHA-256, JSON and base64 of a cursor and the \<open>Debug\<close> form of a string are the record \<open>pql_fmt\<close>.
\<close>

section \<open>Cursors\<close>

record cursor_payload =
  cu_domain :: string
  cu_scope :: string
  cu_offset :: u64

text \<open>\<open>sha256_hex_of\<close>: the hex digest of some bytes. \<open>enc_cursor\<close>/\<open>dec_cursor\<close>: base64 of the JSON of a payload.
  \<open>debug_str\<close>: a string between quotes with its quotes, backslashes and control characters escaped.\<close>

record pql_fmt =
  sha256_hex_of :: "string \<Rightarrow> string"
  enc_cursor :: "cursor_payload \<Rightarrow> string"
  dec_cursor :: "string \<Rightarrow> cursor_payload option"
  debug_str :: "string \<Rightarrow> string"
  debug_int :: "i64 \<Rightarrow> string"

definition fmt_laws :: "pql_fmt \<Rightarrow> bool" where
  "fmt_laws f \<longleftrightarrow> (\<forall>p. dec_cursor f (enc_cursor f p) = Some p)
     \<and> inj (debug_str f) \<and> inj (debug_int f)
     \<and> (\<forall>s. CHR 0x01 \<notin> set (debug_str f s)) \<and> (\<forall>n. CHR 0x01 \<notin> set (debug_int f n))"

definition scope_hash :: "pql_fmt \<Rightarrow> string \<Rightarrow> query_scope \<Rightarrow> string" where
  "scope_hash f domain scope = sha256_hex_of f (domain @ [CHR 0x00] @ qs_fingerprint scope)"

definition cursor_encode :: "pql_fmt \<Rightarrow> string \<Rightarrow> query_scope \<Rightarrow> u64 \<Rightarrow> string" where
  "cursor_encode f domain scope offset = enc_cursor f \<lparr>cu_domain = domain, cu_scope = scope_hash f domain scope, cu_offset = offset\<rparr>"

definition cursor_decode :: "pql_fmt \<Rightarrow> string \<Rightarrow> string \<Rightarrow> query_scope \<Rightarrow> (pql_error, u64) result" where
  "cursor_decode f text domain scope =
     (case dec_cursor f text of
        None \<Rightarrow> Inl InvalidCursor
      | Some payload \<Rightarrow>
          if cu_domain payload \<noteq> domain then Inl InvalidCursor
          else if cu_scope payload \<noteq> scope_hash f domain scope then Inl CursorScopeChanged
          else Inr (cu_offset payload))"

definition decode_offset :: "pql_fmt \<Rightarrow> string option \<Rightarrow> string \<Rightarrow> query_scope \<Rightarrow> (pql_error, u64) result" where
  "decode_offset f cursor_text domain scope =
     (case cursor_text of None \<Rightarrow> Inr 0 | Some text \<Rightarrow> cursor_decode f text domain scope)"

section \<open>Ordering\<close>

definition resolved_order :: "pql_plan \<Rightarrow> string \<Rightarrow> order_key list" where
  "resolved_order plan natural_order =
     (if pl_order_by plan \<noteq> [] then pl_order_by plan else [\<lparr>ok_field = natural_order, ok_descending = True\<rparr>])"

fun ordering_reverse :: "ordering \<Rightarrow> ordering" where
  "ordering_reverse Less = Greater"
| "ordering_reverse Equal = Equal"
| "ordering_reverse Greater = Less"

definition compare_or_equal :: "pql_value \<Rightarrow> pql_value \<Rightarrow> bool \<Rightarrow> ordering" where
  "compare_or_equal a b descending =
     (let order = (case value_compare a b of Some order \<Rightarrow> order | None \<Rightarrow> Equal)
      in if descending then ordering_reverse order else order)"

fun compare_source_rows :: "order_key list \<Rightarrow> pql_row \<Rightarrow> pql_row \<Rightarrow> ordering" where
  "compare_source_rows [] left right = Equal"
| "compare_source_rows (key # keys) left right =
     (let order = compare_or_equal (row_get left (ok_field key)) (row_get right (ok_field key)) (ok_descending key)
      in if order \<noteq> Equal then order else compare_source_rows keys left right)"

definition order_source_rows :: "order_key list \<Rightarrow> pql_row list \<Rightarrow> pql_row list" where
  "order_source_rows order_by rows = sort_by (compare_source_rows order_by) rows"

fun compare_tuples :: "(nat \<times> bool) list \<Rightarrow> pql_value list \<Rightarrow> pql_value list \<Rightarrow> ordering" where
  "compare_tuples [] left right = Equal"
| "compare_tuples ((index, descending) # keyed) left right =
     (let order = compare_or_equal (left ! index) (right ! index) descending
      in if order \<noteq> Equal then order else compare_tuples keyed left right)"

fun output_position :: "output_column list \<Rightarrow> string \<Rightarrow> nat option" where
  "output_position [] name = None"
| "output_position (output # outputs) name =
     (if oc_name output = name then Some 0 else map_option Suc (output_position outputs name))"

definition order_positions :: "order_key list \<Rightarrow> output_column list \<Rightarrow> (nat \<times> bool) list" where
  "order_positions order_by outputs =
     List.map_filter (\<lambda>key. map_option (\<lambda>index. (index, ok_descending key)) (output_position outputs (ok_field key))) order_by"

definition order_rows :: "order_key list \<Rightarrow> output_column list \<Rightarrow> pql_value list list \<Rightarrow> pql_value list list" where
  "order_rows order_by outputs tuples =
     (if order_by = [] then tuples else sort_by (compare_tuples (order_positions order_by outputs)) tuples)"

section \<open>Aggregation\<close>

datatype accumulator = AccCount i64 | AccSum i64 | AccMin "pql_value option" | AccMax "pql_value option"

fun accumulator_new :: "aggregate_func \<Rightarrow> accumulator" where
  "accumulator_new FCount = AccCount 0"
| "accumulator_new FSum = AccSum 0"
| "accumulator_new FMin = AccMin None"
| "accumulator_new FMax = AccMax None"

fun numeric :: "pql_value \<Rightarrow> i64 option" where
  "numeric (VInt n) = Some n"
| "numeric (VTimestamp n) = Some n"
| "numeric _ = None"

definition keep :: "pql_value option \<Rightarrow> pql_value option \<Rightarrow> ordering \<Rightarrow> pql_value option" where
  "keep current v wanted =
     (case v of
        None \<Rightarrow> current
      | Some VNull \<Rightarrow> current
      | Some candidate \<Rightarrow>
          if (case current of None \<Rightarrow> True | Some held \<Rightarrow> value_compare candidate held = Some wanted)
          then Some candidate else current)"

fun observe :: "accumulator \<Rightarrow> pql_value option \<Rightarrow> accumulator" where
  "observe (AccCount n) v = AccCount (n + 1)"
| "observe (AccSum n) v =
     AccSum (case Option.bind v numeric of Some k \<Rightarrow> i64_saturating_add n k | None \<Rightarrow> n)"
| "observe (AccMin current) v = AccMin (keep current v Less)"
| "observe (AccMax current) v = AccMax (keep current v Greater)"

fun accumulator_finish :: "accumulator \<Rightarrow> pql_value" where
  "accumulator_finish (AccCount n) = VInt n"
| "accumulator_finish (AccSum n) = VInt n"
| "accumulator_finish (AccMin v) = (case v of Some x \<Rightarrow> x | None \<Rightarrow> VNull)"
| "accumulator_finish (AccMax v) = (case v of Some x \<Rightarrow> x | None \<Rightarrow> VNull)"

definition observe_term :: "pql_row \<Rightarrow> accumulator \<Rightarrow> aggregate_term \<Rightarrow> accumulator" where
  "observe_term row acc term = observe acc (map_option (row_get row) (at_column term))"

definition observe_terms :: "aggregate \<Rightarrow> pql_row \<Rightarrow> accumulator list \<Rightarrow> accumulator list" where
  "observe_terms agg row accs = map (\<lambda>(acc, term). observe_term row acc term) (zip accs (ag_terms agg))"

text \<open>The groups in the order their keys first appear; the index of a group is its position, so the pair of vector and
  hash map is the association list itself.\<close>

fun observe_group ::
  "aggregate \<Rightarrow> pql_value list \<Rightarrow> pql_row \<Rightarrow> (pql_value list \<times> accumulator list) list \<Rightarrow> (pql_value list \<times> accumulator list) list" where
  "observe_group agg key row [] = [(key, observe_terms agg row (map (\<lambda>term. accumulator_new (at_func term)) (ag_terms agg)))]"
| "observe_group agg key row ((k, accs) # groups) =
     (if k = key then (k, observe_terms agg row accs) # groups else (k, accs) # observe_group agg key row groups)"

definition group_rows :: "aggregate \<Rightarrow> pql_row list \<Rightarrow> (pql_value list \<times> accumulator list) list" where
  "group_rows agg rows =
     foldl (\<lambda>groups row. observe_group agg (map (row_get row) (ag_group_by agg)) row groups) [] rows"

definition aggregate_rows :: "pql_row list \<Rightarrow> aggregate \<Rightarrow> pql_value list list" where
  "aggregate_rows rows agg = map (\<lambda>(key, accs). key @ map accumulator_finish accs) (group_rows agg rows)"

definition project_rows :: "pql_row list \<Rightarrow> output_column list \<Rightarrow> pql_value list list" where
  "project_rows rows outputs = map (\<lambda>row. map (\<lambda>output. row_get row (oc_name output)) outputs) rows"

section \<open>Pages\<close>

record pql_page =
  pg_outputs :: "output_column list"
  pg_rows :: "pql_value list list"
  pg_next_cursor :: "string option"

definition paginate :: "pql_fmt \<Rightarrow> pql_value list list \<Rightarrow> pql_plan \<Rightarrow> string \<Rightarrow> query_scope \<Rightarrow> u64 \<Rightarrow> pql_page" where
  "paginate f rows plan domain scope offset =
     (let count = length rows;
          start = min (unat offset) count;
          stop = min (start + unat (pl_limit plan)) count
      in \<lparr>pg_outputs = pl_outputs plan, pg_rows = drop start (take stop rows),
          pg_next_cursor = (if stop < count then Some (cursor_encode f domain scope (of_nat stop)) else None)\<rparr>)"

definition pql_finish ::
  "pql_fmt \<Rightarrow> pql_row list \<Rightarrow> ast \<Rightarrow> pql_plan \<Rightarrow> string \<Rightarrow> string \<Rightarrow> query_scope \<Rightarrow> u64 \<Rightarrow> pql_page" where
  "pql_finish f matching ast plan natural_order cursor_domain scope offset =
     (let tuples = (case ast_aggregate ast of
            Some agg \<Rightarrow> order_rows (pl_order_by plan) (pl_outputs plan) (aggregate_rows matching agg)
          | None \<Rightarrow> project_rows (order_source_rows (resolved_order plan natural_order) matching) (pl_outputs plan))
      in paginate f tuples plan cursor_domain scope offset)"

definition matches_predicate :: "pql_row \<Rightarrow> predicate option \<Rightarrow> bool" where
  "matches_predicate row p = (case p of None \<Rightarrow> True | Some p \<Rightarrow> evaluate p row)"

definition retain_matching :: "pql_row list \<Rightarrow> predicate option \<Rightarrow> pql_row list" where
  "retain_matching rows p = filter (\<lambda>row. matches_predicate row p) rows"

section \<open>Scope\<close>

definition SCOPE_COLUMN :: string where
  "SCOPE_COLUMN = ''repository''"

definition in_scope :: "pql_row \<Rightarrow> query_scope \<Rightarrow> bool \<Rightarrow> bool" where
  "in_scope row scope has_scope_column =
     (if \<not> has_scope_column then True
      else case qs_repositories scope of
        AllRepos \<Rightarrow> True
      | OnlyRepos _ \<Rightarrow>
          (case row_get row SCOPE_COLUMN of
             VStr repository \<Rightarrow> repo_permits (qs_repositories scope) repository
           | _ \<Rightarrow> False))"

definition scope_filter :: "pql_row list \<Rightarrow> query_scope \<Rightarrow> domain_schema \<Rightarrow> pql_row list" where
  "scope_filter rows scope schema = filter (\<lambda>row. in_scope row scope (schema_column schema SCOPE_COLUMN \<noteq> None)) rows"

definition visible_schema :: "domain_schema \<Rightarrow> query_scope \<Rightarrow> (pql_error, domain_schema) result" where
  "visible_schema schema scope =
     (let visible = visible_to schema (qs_visibility scope) in
      if schema_column visible (ds_natural_order visible) = None then Inl Unauthorized else Inr visible)"

section \<open>Joins\<close>

definition MAX_JOIN_MATCHES :: usize where
  "MAX_JOIN_MATCHES = 25000"

text \<open>The first column of a name takes the stricter class of the two sides.\<close>

fun raise_class :: "column \<Rightarrow> column list \<Rightarrow> column list option" where
  "raise_class col [] = None"
| "raise_class col (existing # rest) =
     (if co_name existing = co_name col
      then Some (existing\<lparr>co_class := most_restrictive (co_class existing) (co_class col)\<rparr> # rest)
      else map_option ((#) existing) (raise_class col rest))"

definition merge_column :: "column list \<Rightarrow> column \<Rightarrow> column list" where
  "merge_column columns col = (case raise_class col columns of Some columns' \<Rightarrow> columns' | None \<Rightarrow> columns @ [col])"

definition merge_schemas :: "domain_schema \<Rightarrow> domain_schema \<Rightarrow> domain_schema" where
  "merge_schemas outer probe =
     \<lparr>ds_name = ds_name outer, ds_columns = foldl merge_column (ds_columns outer) (ds_columns probe), ds_auth = ds_auth outer,
      ds_natural_order = ds_natural_order outer, ds_bounded = (ds_bounded outer \<and> ds_bounded probe), ds_pushdown = ds_pushdown outer\<rparr>"

fun validate_join :: "string list \<Rightarrow> domain_schema \<Rightarrow> domain_schema \<Rightarrow> domain_schema \<Rightarrow> (pql_error, unit) result" where
  "validate_join [] outer probe visible = Inr ()"
| "validate_join (key # keys) outer probe visible =
     (case schema_column outer key of
        None \<Rightarrow> Inl (Validation (''join key '' @ quoted key @ '' is not a column of '' @ quoted (ds_name outer)))
      | Some outer_column \<Rightarrow>
     (case schema_column probe key of
        None \<Rightarrow> Inl (Validation (''join key '' @ quoted key @ '' is not a column of '' @ quoted (ds_name probe)))
      | Some probe_column \<Rightarrow>
          and_then (require_column key visible) (\<lambda>_.
            if co_type outer_column \<noteq> co_type probe_column
            then Inl (Validation (''join key '' @ quoted key @ '' type differs: '' @ quoted (ds_name outer) @ '' is ''
                   @ quoted (value_type_as_str (co_type outer_column)) @ '', '' @ quoted (ds_name probe) @ '' is ''
                   @ quoted (value_type_as_str (co_type probe_column))))
            else if \<not> is_cheap (co_indexability probe_column)
            then Inl (UnboundedJoin (quoted (ds_name probe) @ '' has no index on join key '' @ quoted key
                   @ '', so the join cannot be bounded''))
            else validate_join keys outer probe visible)))"

definition require_narrowing_keys :: "string \<Rightarrow> pql_join \<Rightarrow> query_scope \<Rightarrow> (pql_error, unit) result" where
  "require_narrowing_keys domain join scope =
     (if domain = jn_domain join
      then Inl (UnboundedJoin (quoted domain @ '' joined to itself pairs its rows with each other, so the join cannot be bounded''))
      else if jn_on join = [SCOPE_COLUMN] \<and> qs_repositories scope \<noteq> AllRepos
      then Inl (UnboundedJoin (''join key '' @ quoted SCOPE_COLUMN @ '' already pins this query, so it cannot narrow ''
             @ quoted (jn_domain join)))
      else Inr ())"

definition page_bound :: "ast \<Rightarrow> order_key list \<Rightarrow> domain_schema \<Rightarrow> u32 \<Rightarrow> u64 \<Rightarrow> usize option" where
  "page_bound ast order_by outer limit offset =
     (if ast_aggregate ast \<noteq> None \<or> list_ex (\<lambda>key. schema_column outer (ok_field key) = None) order_by then None
      else Some (min (min (2 ^ 64 - 1) (min (2 ^ 64 - 1) (unat offset + unat limit) + 1)) MAX_JOIN_MATCHES))"

fun debug_value :: "pql_fmt \<Rightarrow> pql_value \<Rightarrow> string" where
  "debug_value f VNull = ''Null''"
| "debug_value f (VBool b) = (if b then ''Bool(true)'' else ''Bool(false)'')"
| "debug_value f (VInt n) = ''Int('' @ debug_int f n @ '')''"
| "debug_value f (VStr s) = ''Str('' @ debug_str f s @ '')''"
| "debug_value f (VTimestamp n) = ''Timestamp('' @ debug_int f n @ '')''"

definition join_key :: "pql_fmt \<Rightarrow> pql_row \<Rightarrow> string list \<Rightarrow> string" where
  "join_key f row keys = concat (map (\<lambda>name. debug_value f (row_get row name) @ [CHR 0x01]) keys)"

definition merge_row :: "pql_row \<Rightarrow> pql_row \<Rightarrow> string list \<Rightarrow> pql_row" where
  "merge_row outer probe probe_only = foldl (\<lambda>row name. row_with row name (row_get probe name)) outer probe_only"

definition probe_only :: "domain_schema \<Rightarrow> domain_schema \<Rightarrow> string list" where
  "probe_only outer probe = map co_name (filter (\<lambda>col. schema_column outer (co_name col) = None) (ds_columns probe))"

text \<open>The probe rows by join key, each bucket in the order of the rows.\<close>

definition join_index :: "pql_fmt \<Rightarrow> pql_row list \<Rightarrow> string list \<Rightarrow> (string, pql_row list) fmap" where
  "join_index f probe keys =
     foldl (\<lambda>index row. let key = join_key f row keys in
       fmupd key ((case fmlookup index key of Some rows \<Rightarrow> rows | None \<Rightarrow> []) @ [row]) index) fmempty probe"

record join_progress =
  jp_walked :: usize
  jp_merged :: "pql_row list"
  jp_full :: bool

fun join_matches ::
  "pql_error \<Rightarrow> pql_row \<Rightarrow> string list \<Rightarrow> usize option \<Rightarrow> predicate option \<Rightarrow> pql_row list \<Rightarrow> join_progress \<Rightarrow> (pql_error, join_progress) result" where
  "join_matches refusal row names bound p [] st = Inr st"
| "join_matches refusal row names bound p (probe_row # matches) st =
     (let st1 = st\<lparr>jp_walked := jp_walked st + 1\<rparr> in
      if jp_walked st1 > MAX_JOIN_MATCHES then Inl refusal
      else let candidate = merge_row row probe_row names in
        if \<not> matches_predicate candidate p then join_matches refusal row names bound p matches st1
        else let st2 = st1\<lparr>jp_merged := jp_merged st1 @ [candidate]\<rparr> in
          if bound = Some (length (jp_merged st2)) then Inr (st2\<lparr>jp_full := True\<rparr>)
          else join_matches refusal row names bound p matches st2)"

fun join_outer ::
  "pql_fmt \<Rightarrow> pql_error \<Rightarrow> (string, pql_row list) fmap \<Rightarrow> string list \<Rightarrow> string list \<Rightarrow> usize option \<Rightarrow> predicate option \<Rightarrow>
   pql_row list \<Rightarrow> join_progress \<Rightarrow> (pql_error, join_progress) result" where
  "join_outer f refusal index keys names bound p [] st = Inr st"
| "join_outer f refusal index keys names bound p (row # outer) st =
     (case fmlookup index (join_key f row keys) of
        None \<Rightarrow> join_outer f refusal index keys names bound p outer st
      | Some matches \<Rightarrow>
          and_then (join_matches refusal row names bound p matches st) (\<lambda>st'.
            if jp_full st' then Inr st' else join_outer f refusal index keys names bound p outer st'))"

definition join_rows ::
  "pql_fmt \<Rightarrow> pql_row list \<Rightarrow> pql_row list \<Rightarrow> string list \<Rightarrow> domain_schema \<Rightarrow> domain_schema \<Rightarrow> usize option \<Rightarrow> predicate option \<Rightarrow>
   (pql_error, pql_row list) result" where
  "join_rows f outer probe keys schema_outer schema_probe bound p =
     (let refusal = CostExceeded (''joining '' @ quoted (ds_name schema_outer) @ '' to '' @ quoted (ds_name schema_probe)
            @ '' matches more than 25000 row pairs; add a join key that narrows it'')
      in and_then (join_outer f refusal (join_index f probe keys) keys (probe_only schema_outer schema_probe) bound p outer
             \<lparr>jp_walked = 0, jp_merged = [], jp_full = False\<rparr>)
           (\<lambda>st. Inr (jp_merged st)))"

definition join_cursor_key :: "string \<Rightarrow> string \<Rightarrow> string" where
  "join_cursor_key outer probe = outer @ [CHR 0x01] @ probe"

section \<open>Execution\<close>

definition require_schema :: "data_source \<Rightarrow> string \<Rightarrow> (pql_error, domain_schema) result" where
  "require_schema source domain = (case src_schema source domain of Some schema \<Rightarrow> Inr schema | None \<Rightarrow> Inl Unauthorized)"

definition execute_join ::
  "pql_fmt \<Rightarrow> (string \<Rightarrow> i64 option) \<Rightarrow> ast \<Rightarrow> pql_join \<Rightarrow> query_scope \<Rightarrow> string option \<Rightarrow> data_source \<Rightarrow> (pql_error, pql_page) result" where
  "execute_join f rfc3339 ast0 join scope cursor_text source =
     and_then (require_schema source (ast_domain ast0)) (\<lambda>schema_a.
     and_then (require_schema source (jn_domain join)) (\<lambda>schema_b.
     and_then (visible_schema (merge_schemas schema_a schema_b) scope) (\<lambda>merged.
     and_then (validate_join (jn_on join) schema_a schema_b merged) (\<lambda>_.
     and_then (require_narrowing_keys (ast_domain ast0) join scope) (\<lambda>_.
     and_then (resolve_params rfc3339 ast0 merged) (\<lambda>ast.
     and_then (validate_resolved ast merged) (\<lambda>plan.
     and_then (gate_join ast schema_a schema_b) (\<lambda>_.
       let cursor_domain = join_cursor_key (ast_domain ast) (jn_domain join) in
     and_then (decode_offset f cursor_text cursor_domain scope) (\<lambda>offset.
       let outer_filter = Option.bind (ast_predicate ast) (\<lambda>p. leading_filter p schema_a) in
     and_then (src_fetch source (ast_domain ast) scope outer_filter) (\<lambda>fetched.
       let scoped = scope_filter fetched scope schema_a;
           order_by = resolved_order plan (ds_natural_order merged);
           bound = page_bound ast order_by schema_a (pl_limit plan) offset;
           outer = (if bound \<noteq> None then order_source_rows order_by scoped else scoped) in
     and_then (src_fetch source (jn_domain join) scope None) (\<lambda>fetched_probe.
       let probe = scope_filter fetched_probe scope schema_b in
     and_then (join_rows f outer probe (jn_on join) schema_a schema_b bound (ast_predicate ast)) (\<lambda>candidates.
       Inr (pql_finish f candidates ast plan (ds_natural_order merged) cursor_domain scope offset)))))))))))))"

definition execute ::
  "pql_fmt \<Rightarrow> (string \<Rightarrow> i64 option) \<Rightarrow> ast \<Rightarrow> query_scope \<Rightarrow> string option \<Rightarrow> data_source \<Rightarrow> (pql_error, pql_page) result" where
  "execute f rfc3339 ast0 scope cursor_text source =
     (case ast_join ast0 of
        Some join \<Rightarrow> execute_join f rfc3339 ast0 join scope cursor_text source
      | None \<Rightarrow>
          and_then (require_schema source (ast_domain ast0)) (\<lambda>schema.
          and_then (visible_schema schema scope) (\<lambda>visible.
          and_then (resolve_params rfc3339 ast0 visible) (\<lambda>ast.
          and_then (plan_resolved ast visible) (\<lambda>plan.
            let flt = Option.bind (ast_predicate ast) (\<lambda>p. leading_filter p visible) in
          and_then (decode_offset f cursor_text (ast_domain ast) scope) (\<lambda>offset.
          and_then (src_fetch source (ast_domain ast) scope flt) (\<lambda>fetched.
            Inr (pql_finish f (retain_matching (scope_filter fetched scope schema) (ast_predicate ast)) ast plan
              (ds_natural_order visible) (ast_domain ast) scope offset))))))))"

end
