(* ===== verification/Pql_Types.thy ===== *)
theory Pql_Types
  imports Pql_Execute
begin

text \<open>
  Typing of queries: a planned query names only columns of the schema it was planned against, compares them with literals
  of their type, and produces tuples whose values have the types its outputs declare.
\<close>

section \<open>Typing of predicates\<close>

fun predicate_fields :: "predicate \<Rightarrow> string set" where
  "predicate_fields (POr left right) = predicate_fields left \<union> predicate_fields right"
| "predicate_fields (PAnd left right) = predicate_fields left \<union> predicate_fields right"
| "predicate_fields (PNot inner) = predicate_fields inner"
| "predicate_fields (PCompare field _ _) = {field}"
| "predicate_fields (PIn field _) = {field}"
| "predicate_fields (PStartsWith field _) = {field}"

definition field_type :: "domain_schema \<Rightarrow> string \<Rightarrow> value_type option" where
  "field_type schema field = map_option co_type (schema_column schema field)"

fun well_typed :: "domain_schema \<Rightarrow> predicate \<Rightarrow> bool" where
  "well_typed schema (POr left right) \<longleftrightarrow> well_typed schema left \<and> well_typed schema right"
| "well_typed schema (PAnd left right) \<longleftrightarrow> well_typed schema left \<and> well_typed schema right"
| "well_typed schema (PNot inner) \<longleftrightarrow> well_typed schema inner"
| "well_typed schema (PCompare field _ v) \<longleftrightarrow>
     field_type schema field \<noteq> None \<and> value_type_of (literal_value v) = field_type schema field"
| "well_typed schema (PIn field vs) \<longleftrightarrow>
     field_type schema field \<noteq> None \<and> (\<forall>v \<in> set vs. value_type_of (literal_value v) = field_type schema field)"
| "well_typed schema (PStartsWith field prefix) \<longleftrightarrow>
     field_type schema field = Some TStr \<and> value_type_of (literal_value prefix) = Some TStr"

lemma require_column_Inr [simp]: "require_column field schema = Inr col \<longleftrightarrow> schema_column schema field = Some col"
  by (auto simp: require_column_def split: option.splits)

lemma schema_column_Some: "schema_column schema field = Some col \<Longrightarrow> col \<in> set (ds_columns schema) \<and> co_name col = field"
  by (auto simp: schema_column_def find_Some_iff)

lemma schema_column_name: "schema_column schema field = Some col \<Longrightarrow> schema_column schema (co_name col) = Some col"
  using schema_column_Some by metis

lemma literal_type_checked: "check_literal_type col v = Inr () \<Longrightarrow> value_type_of (literal_value v) = Some (co_type col)"
  by (cases v) (auto simp: check_literal_type_def split: if_splits)

lemma checked_literals: "try_fold (\<lambda>_ v. check_literal_type col v) () vs = Inr () \<Longrightarrow> v \<in> set vs \<Longrightarrow> check_literal_type col v = Inr ()"
  by (induction vs) (auto simp: and_then_Inr_iff)

lemma validate_well_typed: "validate_predicate p schema = Inr () \<Longrightarrow> well_typed schema p"
proof (induction p)
  case (PCompare field op v)
  then show ?case using literal_type_checked
    by (auto simp: validate_compare_def and_then_Inr_iff field_type_def split: if_splits)
next
  case (PIn field vs)
  then show ?case using literal_type_checked checked_literals by (auto simp: and_then_Inr_iff field_type_def)
next
  case (PStartsWith field prefix)
  then show ?case using literal_type_checked by (auto simp: and_then_Inr_iff field_type_def split: if_splits)
qed (auto simp: and_then_Inr_iff)

lemma well_typed_fields: "well_typed schema p \<Longrightarrow> field \<in> predicate_fields p \<Longrightarrow> schema_column schema field \<noteq> None"
  by (induction p) (auto simp: field_type_def)

lemma same_type_compares: "value_type_of a = value_type_of b \<Longrightarrow> value_type_of a \<noteq> None \<Longrightarrow> value_compare a b \<noteq> None"
  by (cases a; cases b) auto

lemma nullable_defined:
  "a \<noteq> None \<Longrightarrow> b \<noteq> None \<Longrightarrow> nullable_or a b \<noteq> None" "a \<noteq> None \<Longrightarrow> b \<noteq> None \<Longrightarrow> nullable_and a b \<noteq> None"
  by (cases "(a, b)" rule: nullable_or.cases; auto; cases b; auto; metis (full_types))
     (cases "(a, b)" rule: nullable_and.cases; auto)

section \<open>Rows of a schema\<close>

definition value_ok :: "value_type \<Rightarrow> pql_value \<Rightarrow> bool" where
  "value_ok ty v \<longleftrightarrow> v = VNull \<or> value_type_of v = Some ty"

definition row_types :: "domain_schema \<Rightarrow> pql_row \<Rightarrow> bool" where
  "row_types schema row \<longleftrightarrow> (\<forall>name ty. field_type schema name = Some ty \<longrightarrow> value_ok ty (row_get row name))"

lemma row_typesD: "row_types schema row \<Longrightarrow> field_type schema name = Some ty \<Longrightarrow> value_ok ty (row_get row name)"
  by (simp add: row_types_def)

text \<open>A row that carries cells of the schema's columns only, each null or of the column's type.\<close>

definition row_conforms :: "domain_schema \<Rightarrow> pql_row \<Rightarrow> bool" where
  "row_conforms schema row \<longleftrightarrow> (\<forall>name \<in> fst ` set row. field_type schema name \<noteq> None) \<and> row_types schema row"

text \<open>On such a row a validated predicate is undecided only where a column it names is null.\<close>

lemma evaluate_decided:
  assumes "row_types schema row" "\<And>field. field \<in> predicate_fields p \<Longrightarrow> row_get row field \<noteq> VNull"
  shows "well_typed schema p \<Longrightarrow> evaluate_nullable p row \<noteq> None"
  using assms(2)
proof (induction p)
  case (PCompare field op v)
  then obtain ty where ty: "field_type schema field = Some ty" "value_type_of (literal_value v) = Some ty" by auto
  with PCompare.prems(2) row_typesD [OF assms(1) ty(1)] have "value_type_of (row_get row field) = Some ty"
    by (simp add: value_ok_def)
  then show ?case using same_type_compares [of "row_get row field" "literal_value v"] ty(2)
    by (auto simp: compare_values_def)
qed (auto simp: nullable_defined)

section \<open>Typing of tuples\<close>

definition tuple_ok :: "output_column list \<Rightarrow> pql_value list \<Rightarrow> bool" where
  "tuple_ok outputs tuple \<longleftrightarrow> list_all2 (\<lambda>output v. value_ok (oc_type output) v) outputs tuple"

lemma output_names_distinct:
  "validate_output_names seen outputs = Inr () \<Longrightarrow> distinct (map oc_name outputs) \<and> set seen \<inter> oc_name ` set outputs = {}"
  by (induction outputs arbitrary: seen) (fastforce split: if_splits)+

lemma require_outputs_typed:
  "require_outputs names schema = Inr outputs \<Longrightarrow> output \<in> set outputs \<Longrightarrow> field_type schema (oc_name output) = Some (oc_type output)"
proof (induction names arbitrary: outputs)
  case (Cons name names)
  then obtain col rest where "schema_column schema name = Some col" "require_outputs names schema = Inr rest" "outputs = output_of col # rest"
    by (auto simp: and_then_Inr_iff)
  with Cons schema_column_name [of schema name col] show ?case by (auto simp: output_of_def field_type_def)
qed simp

lemma schema_column_distinct:
  assumes "distinct (map co_name (ds_columns schema))" "col \<in> set (ds_columns schema)"
  shows "schema_column schema (co_name col) = Some col"
proof -
  have "find (\<lambda>c. co_name c = co_name col) cols = Some col" if "distinct (map co_name cols)" "col \<in> set cols" for cols
    using that by (induction cols) auto
  with assms show ?thesis by (simp add: schema_column_def)
qed

lemma project_typed:
  assumes "project sel schema = Inr outputs" "distinct (map oc_name outputs)" "output \<in> set outputs"
  shows "field_type schema (oc_name output) = Some (oc_type output)"
proof (cases sel)
  case SelAll
  with assms have "distinct (map co_name (ds_columns schema))" "\<exists>col \<in> set (ds_columns schema). output = output_of col"
    by (auto simp: project_def output_of_def comp_def)
  then show ?thesis using schema_column_distinct by (auto simp: output_of_def field_type_def)
qed (use assms require_outputs_typed in \<open>auto simp: project_def\<close>)

lemma project_rows_ok:
  assumes "\<And>output. output \<in> set outputs \<Longrightarrow> field_type schema (oc_name output) = Some (oc_type output)"
    and "\<And>row. row \<in> set rows \<Longrightarrow> row_types schema row" "tuple \<in> set (project_rows rows outputs)"
  shows "tuple_ok outputs tuple"
  using assms by (auto simp: project_rows_def tuple_ok_def list_all2_map2 row_types_def intro!: list.rel_refl_strong)

section \<open>Typing of aggregates\<close>

definition numeric_typed :: "domain_schema \<Rightarrow> bool" where
  "numeric_typed schema \<longleftrightarrow> (\<forall>col \<in> set (ds_columns schema). co_numeric col \<longrightarrow> co_type col \<in> {TInt, TTimestamp})"

fun accumulator_ok :: "value_type \<Rightarrow> accumulator \<Rightarrow> bool" where
  "accumulator_ok ty (AccCount _) \<longleftrightarrow> ty = TInt"
| "accumulator_ok ty (AccSum _) \<longleftrightarrow> ty = TInt"
| "accumulator_ok ty (AccMin v) \<longleftrightarrow> (\<forall>x. v = Some x \<longrightarrow> value_ok ty x)"
| "accumulator_ok ty (AccMax v) \<longleftrightarrow> (\<forall>x. v = Some x \<longrightarrow> value_ok ty x)"

lemma accumulator_finish_ok: "accumulator_ok ty acc \<Longrightarrow> value_ok ty (accumulator_finish acc)"
  by (cases acc) (auto simp: value_ok_def split: option.splits)

lemma keep_ok: "(\<forall>x. current = Some x \<longrightarrow> value_ok ty x) \<Longrightarrow> (\<forall>x. v = Some x \<longrightarrow> value_ok ty x) \<Longrightarrow> keep current v wanted = Some x \<Longrightarrow> value_ok ty x"
  by (auto simp: keep_def split: option.splits pql_value.splits if_splits)

fun accumulator_func :: "accumulator \<Rightarrow> aggregate_func" where
  "accumulator_func (AccCount _) = FCount"
| "accumulator_func (AccSum _) = FSum"
| "accumulator_func (AccMin _) = FMin"
| "accumulator_func (AccMax _) = FMax"

definition term_holds :: "domain_schema \<Rightarrow> aggregate_term \<Rightarrow> accumulator \<Rightarrow> bool" where
  "term_holds schema term acc \<longleftrightarrow> accumulator_func acc = at_func term
     \<and> (\<forall>output. validate_aggregate_term schema term = Inr output \<longrightarrow> accumulator_ok (oc_type output) acc)"

lemma validated_term:
  assumes "validate_aggregate_term schema term = Inr output"
  shows "oc_type output = TInt \<and> at_func term \<in> {FCount, FSum}
    \<or> at_func term \<in> {FMin, FMax} \<and> (\<exists>name. at_column term = Some name \<and> field_type schema name = Some (oc_type output))"
proof (cases "at_func term")
  case FCount
  then show ?thesis using assms by (auto simp: validate_aggregate_term_def needs_column_def split: if_splits option.splits)
qed (use assms in \<open>auto simp: validate_aggregate_term_def needs_column_def and_then_Inr_iff field_type_def split: if_splits option.splits\<close>)

lemma term_holds_new: "term_holds schema term (accumulator_new (at_func term))"
  using validated_term [of schema "term"] by (cases "at_func term") (fastforce simp: term_holds_def)+

lemma term_holds_observe:
  assumes "term_holds schema term acc" "row_types schema row"
  shows "term_holds schema term (observe_term row acc term)"
proof -
  have "accumulator_ok (oc_type oc) (observe_term row acc term)" if v: "validate_aggregate_term schema term = Inr oc" for oc
  proof -
    have ok: "accumulator_ok (oc_type oc) acc" "accumulator_func acc = at_func term" using assms(1) v by (simp_all add: term_holds_def)
    consider "oc_type oc = TInt" "at_func term \<in> {FCount, FSum}"
      | name where "at_func term \<in> {FMin, FMax}" "at_column term = Some name" "field_type schema name = Some (oc_type oc)"
      using validated_term [OF v] by blast
    then show ?thesis
    proof cases
      case 1
      with ok show ?thesis by (cases acc) (auto simp: observe_term_def)
    next
      case 2
      note cell = row_typesD [OF assms(2) 2(3)]
      show ?thesis using ok 2 keep_ok [of _ "oc_type oc" "Some (row_get row name)"] cell
        by (cases acc) (auto simp: observe_term_def)
    qed
  qed
  moreover have "accumulator_func (observe_term row acc term) = at_func term"
    using assms(1) by (cases acc) (auto simp: observe_term_def term_holds_def)
  ultimately show ?thesis by (simp add: term_holds_def)
qed

definition group_ok :: "domain_schema \<Rightarrow> aggregate \<Rightarrow> pql_value list \<times> accumulator list \<Rightarrow> bool" where
  "group_ok schema agg = (\<lambda>(key, accs).
     list_all2 (\<lambda>name v. \<forall>ty. field_type schema name = Some ty \<longrightarrow> value_ok ty v) (ag_group_by agg) key
     \<and> list_all2 (term_holds schema) (ag_terms agg) accs)"

lemma observe_terms_ok:
  assumes "list_all2 (term_holds schema) (ag_terms agg) accs" "row_types schema row"
  shows "list_all2 (term_holds schema) (ag_terms agg) (observe_terms agg row accs)"
  using assms term_holds_observe by (auto simp: observe_terms_def list_all2_conv_all_nth)

lemma observe_group_ok:
  assumes "row_types schema row" "\<forall>g \<in> set groups. group_ok schema agg g"
  shows "\<forall>g \<in> set (observe_group agg (map (row_get row) (ag_group_by agg)) row groups). group_ok schema agg g"
  using assms(2)
proof (induction groups)
  case Nil
  have "list_all2 (term_holds schema) (ag_terms agg) (map (\<lambda>term. accumulator_new (at_func term)) (ag_terms agg))"
    by (simp add: list_all2_conv_all_nth term_holds_new)
  with observe_terms_ok [OF this assms(1)] row_typesD [OF assms(1)] show ?case
    by (auto simp: group_ok_def list_all2_conv_all_nth)
next
  case (Cons g groups)
  then show ?case using observe_terms_ok [OF _ assms(1)] by (cases g) (auto simp: group_ok_def)
qed

lemma group_rows_ok:
  assumes "\<And>row. row \<in> set rows \<Longrightarrow> row_types schema row"
  shows "\<forall>g \<in> set (group_rows agg rows). group_ok schema agg g"
proof -
  let ?step = "\<lambda>groups row. observe_group agg (map (row_get row) (ag_group_by agg)) row groups"
  have "\<forall>g \<in> set (foldl ?step groups rows). group_ok schema agg g" if "\<forall>g \<in> set groups. group_ok schema agg g" for groups
    using assms that
  proof (induction rows arbitrary: groups)
    case (Cons row rows)
    then show ?case using observe_group_ok [of schema row groups agg] by simp
  qed simp
  from this [of "[]"] show ?thesis by (simp add: group_rows_def)
qed

lemma group_outputs_typed:
  "group_outputs keys schema = Inr outputs \<Longrightarrow> list_all2 (\<lambda>key output. field_type schema key = Some (oc_type output)) keys outputs"
  by (induction keys arbitrary: outputs) (auto simp: and_then_Inr_iff output_of_def field_type_def split: if_splits)

lemma term_outputs_typed:
  "term_outputs terms schema = Inr outputs \<Longrightarrow> list_all2 (\<lambda>term output. validate_aggregate_term schema term = Inr output) terms outputs"
  by (induction terms arbitrary: outputs) (auto simp: and_then_Inr_iff)

lemma aggregate_rows_ok:
  assumes "validate_aggregate agg schema = Inr outputs" "\<And>row. row \<in> set rows \<Longrightarrow> row_types schema row"
    and "tuple \<in> set (aggregate_rows rows agg)"
  shows "tuple_ok outputs tuple"
proof -
  from assms(1) obtain keys terms where o: "group_outputs (ag_group_by agg) schema = Inr keys" "term_outputs (ag_terms agg) schema = Inr terms"
    "outputs = keys @ terms" by (auto simp: validate_aggregate_def and_then_Inr_iff)
  from assms(3) obtain key accs where g: "(key, accs) \<in> set (group_rows agg rows)" "tuple = key @ map accumulator_finish accs"
    by (auto simp: aggregate_rows_def)
  then have ok: "group_ok schema agg (key, accs)" using group_rows_ok [OF assms(2)] by blast
  have "list_all2 (\<lambda>output v. value_ok (oc_type output) v) keys key"
    using ok group_outputs_typed [OF o(1)] by (simp add: group_ok_def list_all2_conv_all_nth)
  moreover have "list_all2 (\<lambda>output v. value_ok (oc_type output) v) terms (map accumulator_finish accs)"
    using ok term_outputs_typed [OF o(2)] accumulator_finish_ok
    by (auto simp: group_ok_def list_all2_conv_all_nth term_holds_def)
  ultimately show ?thesis using o(3) g(2) by (simp add: tuple_ok_def list_all2_appendI)
qed

section \<open>Merged schemas and rows\<close>

definition columns_type :: "column list \<Rightarrow> string \<Rightarrow> value_type option" where
  "columns_type cols name = map_option co_type (find (\<lambda>col. co_name col = name) cols)"

lemma field_type_columns: "field_type schema name = columns_type (ds_columns schema) name"
  by (simp add: field_type_def schema_column_def columns_type_def)

lemma columns_type_append: "columns_type (xs @ ys) name = (case columns_type xs name of Some ty \<Rightarrow> Some ty | None \<Rightarrow> columns_type ys name)"
  by (induction xs) (auto simp: columns_type_def)

lemma raise_class_type: "raise_class col cols = Some cols' \<Longrightarrow> columns_type cols' name = columns_type cols name \<and> columns_type cols (co_name col) \<noteq> None"
  by (induction cols arbitrary: cols') (auto simp: columns_type_def split: if_splits)

lemma raise_class_None: "raise_class col cols = None \<longleftrightarrow> columns_type cols (co_name col) = None"
  by (induction cols) (auto simp: columns_type_def)

lemma merge_column_type:
  "columns_type (merge_column cols col) name = (case columns_type cols name of Some ty \<Rightarrow> Some ty | None \<Rightarrow> columns_type [col] name)"
proof (cases "raise_class col cols")
  case None
  then show ?thesis by (simp add: merge_column_def columns_type_append)
next
  case (Some cols')
  then show ?thesis using raise_class_type [OF Some, of name] by (auto simp: merge_column_def columns_type_def split: option.splits)
qed

lemma merge_columns_type:
  "columns_type (foldl merge_column cols others) name = (case columns_type cols name of Some ty \<Rightarrow> Some ty | None \<Rightarrow> columns_type others name)"
proof (induction others arbitrary: cols)
  case (Cons col others)
  show ?case unfolding foldl_Cons Cons.IH merge_column_type by (auto simp: columns_type_def split: option.splits)
qed (simp add: columns_type_def split: option.splits)

lemma merge_schemas_type:
  "field_type (merge_schemas outer probe) name = (case field_type outer name of Some ty \<Rightarrow> Some ty | None \<Rightarrow> field_type probe name)"
  unfolding field_type_columns merge_schemas_def by (simp add: merge_columns_type)

lemma row_get_append: "row_get (row @ cells) name = (if name \<in> fst ` set row then row_get row name else row_get cells name)"
  by (auto simp: row_get_def map_add_def map_of_eq_None_iff split: option.splits) (metis map_of_eq_None_iff option.distinct(1))+

lemma merge_row_append: "merge_row outer probe names = outer @ map (\<lambda>name. (name, row_get probe name)) names"
  by (induction names arbitrary: outer) (simp_all add: merge_row_def row_with_def)

lemma row_get_pairs: "row_get (map (\<lambda>name. (name, g name)) names) name = (if name \<in> set names then g name else VNull)"
  by (induction names) (auto simp: row_get_def)

lemma row_get_absent: "name \<notin> fst ` set row \<Longrightarrow> row_get row name = VNull"
  by (auto simp: row_get_def map_of_eq_None_iff split: option.splits) (metis map_of_eq_None_iff option.distinct(1))

lemma set_probe_only: "name \<in> set (probe_only outer probe) \<longleftrightarrow> field_type outer name = None \<and> field_type probe name \<noteq> None"
  by (auto simp: probe_only_def field_type_def schema_column_def find_None_iff find_Some_iff dest: schema_column_Some)

text \<open>A merged row reads the outer row in the outer domain's columns and the probe row in the others.\<close>

lemma merge_row_get:
  assumes "row_conforms outer_schema outer" "row_conforms probe_schema probe"
  shows "row_get (merge_row outer probe (probe_only outer_schema probe_schema)) name =
    (if field_type outer_schema name \<noteq> None then row_get outer name else row_get probe name)"
proof (cases "name \<in> fst ` set outer")
  case True
  then have "field_type outer_schema name \<noteq> None" using assms(1) by (auto simp: row_conforms_def)
  then show ?thesis using True by (simp add: merge_row_append row_get_append)
next
  case False
  moreover have "row_get probe name = VNull" if "field_type probe_schema name = None"
  proof (rule row_get_absent)
    show "name \<notin> fst ` set probe" using that assms(2) unfolding row_conforms_def by blast
  qed
  ultimately show ?thesis by (auto simp: merge_row_append row_get_append row_get_pairs set_probe_only row_get_absent)
qed

lemma merge_row_types:
  assumes "row_conforms outer_schema outer" "row_conforms probe_schema probe"
  shows "row_types (merge_schemas outer_schema probe_schema) (merge_row outer probe (probe_only outer_schema probe_schema))"
  using assms unfolding row_types_def merge_row_get [OF assms] merge_schemas_type
  by (auto simp: row_conforms_def row_types_def split: option.splits)

lemma raise_class_names: "raise_class col cols = Some cols' \<Longrightarrow> map co_name cols' = map co_name cols"
  by (induction cols arbitrary: cols') (auto split: if_splits)

lemma columns_type_None: "columns_type cols name = None \<longleftrightarrow> name \<notin> co_name ` set cols"
  by (auto simp: columns_type_def find_None_iff)

lemma merge_schemas_distinct:
  assumes "distinct (map co_name (ds_columns outer))"
  shows "distinct (map co_name (ds_columns (merge_schemas outer probe)))"
proof -
  have "distinct (map co_name (merge_column cols col))" if "distinct (map co_name cols)" for cols col
    using that raise_class_names [of col cols] raise_class_None [of col cols]
    by (auto simp: merge_column_def columns_type_None split: option.splits)
  then have "distinct (map co_name (foldl merge_column cols others))" if "distinct (map co_name cols)" for cols others
    using that by (induction others arbitrary: cols) auto
  with assms show ?thesis by (simp add: merge_schemas_def)
qed

lemma visible_column:
  assumes "distinct (map co_name (ds_columns schema))"
  shows "schema_column (visible_to schema vis) name = Some col \<longleftrightarrow> schema_column schema name = Some col \<and> co_class col \<in> vis"
proof -
  have "find (\<lambda>c. co_name c = name) (filter (\<lambda>c. co_class c \<in> vis) cols) = Some col
      \<longleftrightarrow> find (\<lambda>c. co_name c = name) cols = Some col \<and> co_class col \<in> vis" if "distinct (map co_name cols)" for cols
    using that
  proof (induction cols)
    case (Cons c cols)
    have "find (\<lambda>c. co_name c = name) cols = None" if "co_name c = name"
      unfolding find_None_iff using that Cons.prems by (metis distinct.simps(2) image_eqI list.simps(9) set_map)
    with Cons show ?case by auto
  qed simp
  with assms show ?thesis by (simp add: schema_column_def visible_to_def)
qed

lemma visible_types:
  assumes "distinct (map co_name (ds_columns schema))" "row_types schema row"
  shows "row_types (visible_to schema vis) row"
  using assms(2) visible_column [OF assms(1)] by (auto simp: row_types_def field_type_def)

section \<open>Every page is well typed\<close>

text \<open>A source whose rows are rows of its schemas, and whose schemas name each column once.\<close>

definition source_typed :: "data_source \<Rightarrow> bool" where
  "source_typed source \<longleftrightarrow> (\<forall>domain schema. src_schema source domain = Some schema \<longrightarrow>
     distinct (map co_name (ds_columns schema))
     \<and> (\<forall>scope flt rows. src_fetch source domain scope flt = Inr rows \<longrightarrow> (\<forall>row \<in> set rows. row_conforms schema row)))"

lemma finish_outputs: "pg_outputs (pql_finish f rows ast plan natural_order domain scope offset) = pl_outputs plan"
  by (simp add: pql_finish_def paginate_def Let_def)

lemma validate_resolved_outputs:
  assumes "validate_resolved ast schema = Inr plan" "\<And>row. row \<in> set rows \<Longrightarrow> row_types schema row"
  shows "\<forall>tuple \<in> set (pg_rows (pql_finish f rows ast plan natural_order domain scope offset)). tuple_ok (pl_outputs plan) tuple"
    and "distinct (map oc_name (pl_outputs plan))" "1 \<le> unat (pl_limit plan) \<and> unat (pl_limit plan) \<le> 100"
    "length (pg_rows (pql_finish f rows ast plan natural_order domain scope offset)) \<le> unat (pl_limit plan)"
proof -
  from assms(1) obtain limit where v: "resolve_limit (ast_limit ast) = Inr limit" "pl_limit plan = limit"
    "(case ast_aggregate ast of Some agg \<Rightarrow> validate_aggregate agg schema | None \<Rightarrow> project (ast_selection ast) schema) = Inr (pl_outputs plan)"
    "validate_output_names [] (pl_outputs plan) = Inr ()"
    by (auto simp: validate_resolved_def and_then_Inr_iff)
  show names: "distinct (map oc_name (pl_outputs plan))" using output_names_distinct [OF v(4)] by simp
  show "1 \<le> unat (pl_limit plan) \<and> unat (pl_limit plan) \<le> 100"
    using v(1,2) by (auto simp: resolve_limit_def DEFAULT_LIMIT_def MAX_LIMIT_def word_le_nat_alt unat_gt_0 Suc_le_eq split: option.splits if_splits)
  show "length (pg_rows (pql_finish f rows ast plan natural_order domain scope offset)) \<le> unat (pl_limit plan)"
    by (simp add: pql_finish_def paginate_def Let_def)
  have page: "tuple \<in> set tuples" if "tuple \<in> set (pg_rows (paginate f tuples plan domain scope offset))" for tuple tuples
    using that by (auto simp: paginate_def Let_def dest!: in_set_dropD in_set_takeD)
  show "\<forall>tuple \<in> set (pg_rows (pql_finish f rows ast plan natural_order domain scope offset)). tuple_ok (pl_outputs plan) tuple"
  proof (cases "ast_aggregate ast")
    case None
    then have "\<And>oc. oc \<in> set (pl_outputs plan) \<Longrightarrow> field_type schema (oc_name oc) = Some (oc_type oc)"
      using project_typed v(3) names by auto
    from project_rows_ok [OF this, where rows = "order_source_rows (resolved_order plan natural_order) rows"] assms(2) None page
    show ?thesis by (auto simp: pql_finish_def order_source_rows_def)
  next
    case (Some agg)
    then have "validate_aggregate agg schema = Inr (pl_outputs plan)" using v(3) by simp
    from aggregate_rows_ok [OF this assms(2)] have "tuple_ok (pl_outputs plan) tuple"
      if "tuple \<in> set (order_rows (pl_order_by plan) (pl_outputs plan) (aggregate_rows rows agg))" for tuple
      using that by (auto simp: order_rows_def split: if_splits)
    with Some page show ?thesis by (auto simp: pql_finish_def Let_def)
  qed
qed

text \<open>The rows a join keeps are merges of an outer and a probe row with the same join key.\<close>

lemma join_index_bucket:
  "fmlookup (join_index f probe keys) k = (case filter (\<lambda>row. join_key f row keys = k) probe of [] \<Rightarrow> None | rows \<Rightarrow> Some rows)"
proof (induction probe rule: rev_induct)
  case (snoc row probe)
  have step: "join_index f (probe @ [row]) keys = (let key = join_key f row keys in
      fmupd key ((case fmlookup (join_index f probe keys) key of Some rows \<Rightarrow> rows | None \<Rightarrow> []) @ [row]) (join_index f probe keys))"
    by (simp add: join_index_def)
  show ?case unfolding step using snoc by (auto simp: Let_def split: list.splits)
qed (simp add: join_index_def)

definition join_pair :: "pql_fmt \<Rightarrow> string list \<Rightarrow> string list \<Rightarrow> predicate option \<Rightarrow> pql_row list \<Rightarrow> pql_row list \<Rightarrow> pql_row \<Rightarrow> bool" where
  "join_pair f keys names p outer probe row \<longleftrightarrow>
     (\<exists>a \<in> set outer. \<exists>b \<in> set probe. join_key f a keys = join_key f b keys \<and> row = merge_row a b names \<and> matches_predicate row p)"

lemma join_matches_from:
  assumes "join_matches refusal a names bound p bs st = Inr st'" "row \<in> set (jp_merged st')"
  shows "row \<in> set (jp_merged st) \<or> (\<exists>b \<in> set bs. row = merge_row a b names \<and> matches_predicate row p)"
  using assms
proof (induction bs arbitrary: st)
  case (Cons b bs)
  then show ?case by (fastforce simp: Let_def split: if_splits)
qed simp

lemma join_outer_from:
  assumes "join_outer f refusal (join_index f probe keys) keys names bound p outer st = Inr st'" "row \<in> set (jp_merged st')"
  shows "row \<in> set (jp_merged st) \<or> join_pair f keys names p outer probe row"
  using assms
proof (induction outer arbitrary: st)
  case (Cons a outer)
  show ?case
  proof (cases "fmlookup (join_index f probe keys) (join_key f a keys)")
    case None
    then show ?thesis using Cons by (fastforce simp: join_pair_def)
  next
    case (Some bs)
    then have bs: "bs = filter (\<lambda>b. join_key f b keys = join_key f a keys) probe" by (auto simp: join_index_bucket split: list.splits)
    from Cons.prems(1) Some obtain st1 where st1: "join_matches refusal a names bound p bs st = Inr st1"
      "(if jp_full st1 then Inr st1 else join_outer f refusal (join_index f probe keys) keys names bound p outer st1) = Inr st'"
      by (auto simp: and_then_Inr_iff)
    have "row \<in> set (jp_merged st1) \<or> join_pair f keys names p outer probe row"
      using Cons.IH [of st1] st1(2) Cons.prems(2) by (auto split: if_splits)
    then show ?thesis using join_matches_from [OF st1(1), of row] bs by (fastforce simp: join_pair_def)
  qed
qed simp

lemma join_rows_from:
  assumes "join_rows f outer probe keys schema_outer schema_probe bound p = Inr rows" "row \<in> set rows"
  shows "join_pair f keys (probe_only schema_outer schema_probe) p outer probe row"
  using assms join_outer_from by (fastforce simp: join_rows_def and_then_Inr_iff Let_def)

lemma resolve_params_keeps:
  "resolve_params rfc3339 ast schema = Inr ast' \<Longrightarrow> ast' = ast\<lparr>ast_predicate := ast_predicate ast'\<rparr>"
  by (auto simp: resolve_params_def and_then_Inr_iff split: option.splits)

lemma visible_schema_Inr: "visible_schema schema scope = Inr visible \<Longrightarrow> visible = visible_to schema (qs_visibility scope)"
  by (auto simp: visible_schema_def Let_def split: if_splits)

lemma require_schema_Inr [simp]: "require_schema source domain = Inr schema \<longleftrightarrow> src_schema source domain = Some schema"
  by (auto simp: require_schema_def split: option.splits)

lemma execute_plain:
  assumes "execute f rfc3339 ast scope cursor source = Inr page" "ast_join ast = None"
  obtains schema visible ast' plan offset rows where "src_schema source (ast_domain ast) = Some schema"
    "visible_schema schema scope = Inr visible" "resolve_params rfc3339 ast visible = Inr ast'" "validate_resolved ast' visible = Inr plan"
    "decode_offset f cursor (ast_domain ast) scope = Inr offset"
    "src_fetch source (ast_domain ast) scope (Option.bind (ast_predicate ast') (\<lambda>p. leading_filter p visible)) = Inr rows"
    "page = pql_finish f (retain_matching (scope_filter rows scope schema) (ast_predicate ast')) ast' plan (ds_natural_order visible) (ast_domain ast) scope offset"
proof -
  from assms obtain schema visible ast' plan offset rows where r: "src_schema source (ast_domain ast) = Some schema"
    "visible_schema schema scope = Inr visible" "resolve_params rfc3339 ast visible = Inr ast'" "plan_resolved ast' visible = Inr plan"
    "decode_offset f cursor (ast_domain ast') scope = Inr offset"
    "src_fetch source (ast_domain ast') scope (Option.bind (ast_predicate ast') (\<lambda>p. leading_filter p visible)) = Inr rows"
    "page = pql_finish f (retain_matching (scope_filter rows scope schema) (ast_predicate ast')) ast' plan (ds_natural_order visible) (ast_domain ast') scope offset"
    unfolding execute_def Let_def by (auto simp: and_then_Inr_iff)
  have "ast_domain ast' = ast_domain ast" using resolve_params_keeps [OF r(3)] by (metis ast.ext_inject ast.surjective ast.update_convs(3))
  with r that show thesis by (auto simp: plan_resolved_def and_then_Inr_iff)
qed

lemma execute_joined:
  assumes "execute f rfc3339 ast scope cursor source = Inr page" "ast_join ast = Some join"
  obtains schema_a schema_b merged ast' plan offset rows_a rows_b outer candidates where
    "src_schema source (ast_domain ast) = Some schema_a" "src_schema source (jn_domain join) = Some schema_b"
    "visible_schema (merge_schemas schema_a schema_b) scope = Inr merged" "validate_join (jn_on join) schema_a schema_b merged = Inr ()"
    "resolve_params rfc3339 ast merged = Inr ast'" "validate_resolved ast' merged = Inr plan"
    "decode_offset f cursor (join_cursor_key (ast_domain ast) (jn_domain join)) scope = Inr offset"
    "src_fetch source (ast_domain ast) scope (Option.bind (ast_predicate ast') (\<lambda>p. leading_filter p schema_a)) = Inr rows_a"
    "src_fetch source (jn_domain join) scope None = Inr rows_b"
    "outer = (if page_bound ast' (resolved_order plan (ds_natural_order merged)) schema_a (pl_limit plan) offset \<noteq> None
       then order_source_rows (resolved_order plan (ds_natural_order merged)) (scope_filter rows_a scope schema_a) else scope_filter rows_a scope schema_a)"
    "join_rows f outer (scope_filter rows_b scope schema_b) (jn_on join) schema_a schema_b
       (page_bound ast' (resolved_order plan (ds_natural_order merged)) schema_a (pl_limit plan) offset) (ast_predicate ast') = Inr candidates"
    "page = pql_finish f candidates ast' plan (ds_natural_order merged) (join_cursor_key (ast_domain ast) (jn_domain join)) scope offset"
proof -
  from assms obtain schema_a schema_b merged ast' plan offset rows_a rows_b candidates where r:
    "src_schema source (ast_domain ast) = Some schema_a" "src_schema source (jn_domain join) = Some schema_b"
    "visible_schema (merge_schemas schema_a schema_b) scope = Inr merged" "validate_join (jn_on join) schema_a schema_b merged = Inr ()"
    "resolve_params rfc3339 ast merged = Inr ast'" "validate_resolved ast' merged = Inr plan"
    "decode_offset f cursor (join_cursor_key (ast_domain ast') (jn_domain join)) scope = Inr offset"
    "src_fetch source (ast_domain ast') scope (Option.bind (ast_predicate ast') (\<lambda>p. leading_filter p schema_a)) = Inr rows_a"
    "src_fetch source (jn_domain join) scope None = Inr rows_b"
    "join_rows f (if page_bound ast' (resolved_order plan (ds_natural_order merged)) schema_a (pl_limit plan) offset \<noteq> None
       then order_source_rows (resolved_order plan (ds_natural_order merged)) (scope_filter rows_a scope schema_a) else scope_filter rows_a scope schema_a)
       (scope_filter rows_b scope schema_b) (jn_on join) schema_a schema_b
       (page_bound ast' (resolved_order plan (ds_natural_order merged)) schema_a (pl_limit plan) offset) (ast_predicate ast') = Inr candidates"
    "page = pql_finish f candidates ast' plan (ds_natural_order merged) (join_cursor_key (ast_domain ast') (jn_domain join)) scope offset"
    unfolding execute_def execute_join_def Let_def by (auto simp: and_then_Inr_iff simp del: not_None_eq)
  have dom: "ast_domain ast' = ast_domain ast"
    using resolve_params_keeps [OF r(5)] by (metis ast.ext_inject ast.surjective ast.update_convs(3))
  note r = r [unfolded dom]
  show thesis by (rule that [OF r(1-9) refl r(10,11)])
qed

text \<open>C37: Every tuple of a page has one value per output, null or of the type the output declares; output names are distinct;
  and a page holds at most its limit, which is at most a hundred.\<close>

theorem page_well_typed:
  assumes "execute f rfc3339 ast scope cursor source = Inr page" "source_typed source"
  shows "(\<forall>tuple \<in> set (pg_rows page). tuple_ok (pg_outputs page) tuple) \<and> distinct (map oc_name (pg_outputs page)) \<and> length (pg_rows page) \<le> 100"
proof -
  have finish: "(\<forall>tuple \<in> set (pg_rows page). tuple_ok (pg_outputs page) tuple) \<and> distinct (map oc_name (pg_outputs page)) \<and> length (pg_rows page) \<le> 100"
    if "validate_resolved ast' schema = Inr plan" "\<And>row. row \<in> set rows \<Longrightarrow> row_types schema row"
      "page = pql_finish f rows ast' plan natural domain scope offset" for ast' schema plan rows natural domain offset
    using validate_resolved_outputs(1,2) [OF that(1,2)] validate_resolved_outputs(3,4) [OF that(1,2)]
    unfolding that(3) finish_outputs by (meson le_trans)
  show ?thesis
  proof (cases "ast_join ast")
    case None
    obtain schema visible ast' plan offset rows where r: "src_schema source (ast_domain ast) = Some schema"
      "visible_schema schema scope = Inr visible" "resolve_params rfc3339 ast visible = Inr ast'" "validate_resolved ast' visible = Inr plan"
      "decode_offset f cursor (ast_domain ast) scope = Inr offset"
      "src_fetch source (ast_domain ast) scope (Option.bind (ast_predicate ast') (\<lambda>p. leading_filter p visible)) = Inr rows"
      "page = pql_finish f (retain_matching (scope_filter rows scope schema) (ast_predicate ast')) ast' plan (ds_natural_order visible) (ast_domain ast) scope offset"
      by (rule execute_plain [OF assms(1) None])
    have typed: "distinct (map co_name (ds_columns schema))" "\<forall>row \<in> set rows. row_conforms schema row"
      using assms(2) r(1,6) unfolding source_typed_def by blast+
    have "row_types visible row" if "row \<in> set (retain_matching (scope_filter rows scope schema) (ast_predicate ast'))" for row
      using that typed visible_types visible_schema_Inr [OF r(2)] by (auto simp: retain_matching_def scope_filter_def row_conforms_def)
    with finish [OF r(4) _ r(7)] show ?thesis by blast
  next
    case (Some join)
    obtain a b merged ast' plan offset rows_a rows_b outer candidates where r:
      "src_schema source (ast_domain ast) = Some a" "src_schema source (jn_domain join) = Some b"
      "visible_schema (merge_schemas a b) scope = Inr merged" "validate_join (jn_on join) a b merged = Inr ()"
      "resolve_params rfc3339 ast merged = Inr ast'" "validate_resolved ast' merged = Inr plan"
      "decode_offset f cursor (join_cursor_key (ast_domain ast) (jn_domain join)) scope = Inr offset"
      "src_fetch source (ast_domain ast) scope (Option.bind (ast_predicate ast') (\<lambda>p. leading_filter p a)) = Inr rows_a"
      "src_fetch source (jn_domain join) scope None = Inr rows_b"
      "outer = (if page_bound ast' (resolved_order plan (ds_natural_order merged)) a (pl_limit plan) offset \<noteq> None
         then order_source_rows (resolved_order plan (ds_natural_order merged)) (scope_filter rows_a scope a) else scope_filter rows_a scope a)"
      "join_rows f outer (scope_filter rows_b scope b) (jn_on join) a b
         (page_bound ast' (resolved_order plan (ds_natural_order merged)) a (pl_limit plan) offset) (ast_predicate ast') = Inr candidates"
      "page = pql_finish f candidates ast' plan (ds_natural_order merged) (join_cursor_key (ast_domain ast) (jn_domain join)) scope offset"
      by (rule execute_joined [OF assms(1) Some])
    have outer: "set outer \<subseteq> set rows_a" unfolding r(10) by (auto simp: order_source_rows_def scope_filter_def)
    have typed: "distinct (map co_name (ds_columns (merge_schemas a b)))" "\<forall>row \<in> set rows_a. row_conforms a row" "\<forall>row \<in> set rows_b. row_conforms b row"
      using assms(2) r(1,2,8,9) merge_schemas_distinct unfolding source_typed_def by blast+
    have "row_types merged row" if "row \<in> set candidates" for row
    proof -
      from join_rows_from [OF r(11) that] obtain x y where "x \<in> set outer" "y \<in> set rows_b" "row = merge_row x y (probe_only a b)"
        by (auto simp: join_pair_def scope_filter_def)
      then have "row_types (merge_schemas a b) row" using merge_row_types typed(2,3) outer by blast
      then show ?thesis using visible_types [OF typed(1)] visible_schema_Inr [OF r(3)] by simp
    qed
    with finish [OF r(6) _ r(12)] show ?thesis by blast
  qed
qed

end
