(* ===== verification/Pql_Source.thy ===== *)
theory Pql_Source
  imports Policy_Decision Pql_Types
begin

text \<open>
  The query source of the server (\<open>NeutralQuerySource\<close> of \<open>peryx-driver/src/http_services.rs\<close>): the policy decisions of the
  metadata store and the usage totals of the metrics (\<open>usage_totals\<close> of \<open>peryx-events/src/metrics.rs\<close>), with their schemas. The
  store may change between two pages of a scan and the scan may be cancelled at each of them, so both are functions of the
  page. The lemmas show the source well typed, its scan complete, and the filters pushed into it sound.
\<close>

section \<open>Usage totals\<close>

record resource_usage =
  ru_repository :: string
  ru_resource :: string
  ru_reads :: u64
  ru_bytes :: u64

text \<open>The hash maps of the statistics, in the order an iteration meets their entries.\<close>

type_synonym stats_tree = "(string \<times> (string \<times> (u64 \<times> u64)) list) list"

definition usage_order :: "resource_usage \<Rightarrow> resource_usage \<Rightarrow> ordering" where
  "usage_order left right =
     then_with (cmp (ru_reads right) (ru_reads left))
       (then_with (cmp (ru_repository left) (ru_repository right)) (cmp (ru_resource left) (ru_resource right)))"

definition usage_totals :: "stats_tree \<Rightarrow> string option \<Rightarrow> resource_usage list" where
  "usage_totals tree repository_filter =
     sort_by usage_order (concat (map (\<lambda>(repository, resources).
       if (case repository_filter of None \<Rightarrow> False | Some f \<Rightarrow> repository \<noteq> f) then []
       else map (\<lambda>(resource, reads, bytes). \<lparr>ru_repository = repository, ru_resource = resource, ru_reads = reads, ru_bytes = bytes\<rparr>) resources) tree))"

section \<open>Rows and schemas\<close>

definition POLICY_DOMAIN :: string where
  "POLICY_DOMAIN = ''policy.decisions''"

definition USAGE_DOMAIN :: string where
  "USAGE_DOMAIN = ''usage.reads''"

definition STORE_PAGE :: usize where
  "STORE_PAGE = 100"

definition i64_of_u64 :: "u64 \<Rightarrow> i64" where
  "i64_of_u64 n = (if uint n \<le> i64_max then uint n else i64_max)"

definition usage_row :: "resource_usage \<Rightarrow> pql_row" where
  "usage_row usage =
     row_with (row_with (row_with (row_with [] ''repository'' (VStr (ru_repository usage)))
       ''resource'' (VStr (ru_resource usage)))
       ''reads'' (VInt (i64_of_u64 (ru_reads usage))))
       ''bytes'' (VInt (i64_of_u64 (ru_bytes usage)))"

definition optional :: "string option \<Rightarrow> pql_value" where
  "optional v = (case v of None \<Rightarrow> VNull | Some t \<Rightarrow> VStr t)"

fun policy_state_name :: "policy_decision_state \<Rightarrow> string" where
  "policy_state_name Allow = ''allow''"
| "policy_state_name Deny = ''deny''"
| "policy_state_name Wait = ''wait''"

fun policy_action_name :: "policy_action \<Rightarrow> string" where
  "policy_action_name Upload = ''upload''"
| "policy_action_name Cached = ''cached''"
| "policy_action_name Serve = ''serve''"

definition policy_row :: "policy_decision_item \<Rightarrow> pql_row" where
  "policy_row item = (let rec = it_record item in
     foldl (\<lambda>row (column, v). row_with row column v) []
       [(''repository'', VStr (nd_repository rec)), (''resource'', VStr (nd_resource rec)), (''group'', optional (nd_group rec)),
        (''artifact'', optional (nd_artifact rec)), (''source'', optional (nd_source rec)),
        (''action'', VStr (policy_action_name (nd_action rec))), (''state'', VStr (policy_state_name (nd_state rec))),
        (''rule'', optional (nd_rule rec)), (''reason'', optional (nd_reason rec)),
        (''evaluated_at'', VTimestamp (nd_evaluated_at_unix rec)), (''fresh'', VBool (it_fresh item))])"

type_synonym column_declaration = "string \<times> value_type \<times> field_class \<times> indexability \<times> bool"

definition POLICY_COLUMNS :: "column_declaration list" where
  "POLICY_COLUMNS =
     [(''repository'', TStr, ClRepository, Indexed, False), (''resource'', TStr, ClRepository, Indexed, False),
      (''group'', TStr, ClRepository, Scan, False), (''artifact'', TStr, ClRepository, Scan, False),
      (''source'', TStr, ClOperator, Scan, False), (''action'', TStr, ClRepository, Scan, False),
      (''state'', TStr, ClRepository, Scan, False), (''rule'', TStr, ClOperator, Scan, False),
      (''reason'', TStr, ClOperator, Scan, False), (''evaluated_at'', TTimestamp, ClRepository, KeyOrdered, True),
      (''fresh'', TBool, ClRepository, Scan, False)]"

definition USAGE_COLUMNS :: "column_declaration list" where
  "USAGE_COLUMNS =
     [(''repository'', TStr, ClRepository, Indexed, False), (''resource'', TStr, ClRepository, Indexed, False),
      (''reads'', TInt, ClRepository, Scan, True), (''bytes'', TInt, ClOperator, Scan, True)]"

definition schema_columns :: "column_declaration list \<Rightarrow> column list" where
  "schema_columns declarations = map (\<lambda>(name, ty, cl, indexability, numeric).
     \<lparr>co_name = name, co_type = ty, co_class = cl, co_indexability = indexability, co_numeric = numeric\<rparr>) declarations"

definition policy_schema :: domain_schema where
  "policy_schema = \<lparr>ds_name = POLICY_DOMAIN, ds_columns = schema_columns POLICY_COLUMNS, ds_auth = RepositoryOrOperator,
     ds_natural_order = ''evaluated_at'', ds_bounded = True, ds_pushdown = [''resource'']\<rparr>"

definition usage_schema :: domain_schema where
  "usage_schema = \<lparr>ds_name = USAGE_DOMAIN, ds_columns = schema_columns USAGE_COLUMNS, ds_auth = RepositoryOrOperator,
     ds_natural_order = ''reads'', ds_bounded = True, ds_pushdown = []\<rparr>"

section \<open>Fetching\<close>

definition single_repository :: "query_scope \<Rightarrow> string option" where
  "single_repository scope =
     (case qs_repositories scope of
        OnlyRepos repos \<Rightarrow> (case sorted_list_of_fset repos of [repository] \<Rightarrow> Some repository | _ \<Rightarrow> None)
      | AllRepos \<Rightarrow> None)"

definition indexed_resource :: "fetch_filter option \<Rightarrow> string option" where
  "indexed_resource flt =
     (case flt of
        None \<Rightarrow> None
      | Some f \<Rightarrow> (case ff_values f of [VStr v] \<Rightarrow> if ff_column f = ''resource'' then Some v else None | _ \<Rightarrow> None))"

fun policy_query_failure :: "policy_query_error \<Rightarrow> pql_error" where
  "policy_query_failure (FilterTooLong field _) = Validation (field @ '' filter exceeds 512 bytes'')"
| "policy_query_failure InvalidDecisionLimit = Backend ''limit must be between 1 and 100''"
| "policy_query_failure InvalidPolicyCursor = Backend ''invalid policy decision cursor''"

definition fetch_query :: "string option \<Rightarrow> string option \<Rightarrow> string option \<Rightarrow> policy_decision_query" where
  "fetch_query repository resource cursor =
     policy_query_default\<lparr>pq_repository := repository, pq_resource := resource, pq_cursor := cursor, pq_limit := STORE_PAGE\<rparr>"

text \<open>How many cursors a later page may still ask for: every next cursor is below the one before it.\<close>

definition cursors_left :: "string option \<Rightarrow> nat" where
  "cursors_left cursor =
     (case cursor of
        None \<Rightarrow> card {c. valid_cursor c} + 2
      | Some c \<Rightarrow> if valid_cursor c then card {d. valid_cursor d \<and> d < c} + 1 else 0)"

lemma finite_cursors: "finite {c. valid_cursor c}"
proof (rule finite_subset)
  show "{c. valid_cursor c} \<subseteq> {xs. set xs \<subseteq> UNIV \<and> length xs = 19}" by (auto simp: valid_cursor_def)
qed (rule finite_lists_length_eq, simp)

lemma cursors_left_decreases:
  assumes "query_policy_decisions s (fetch_query repository resource cursor) = Inr page" "pp_next_cursor page = Some c"
  shows "cursors_left (Some c) < cursors_left cursor"
proof -
  have below: "none_or (\<lambda>cursor. c < cursor) cursor" and ok: "none_or valid_cursor cursor"
    using next_cursor_below [OF assms] by (auto simp: fetch_query_def policy_query_default_def validate_query_def none_or_def split: if_splits option.splits)
  show ?thesis
  proof (cases cursor)
    case None
    have "card {d. valid_cursor d \<and> d < c} \<le> card {d. valid_cursor d}" by (rule card_mono [OF finite_cursors]) auto
    then show ?thesis using None by (simp add: cursors_left_def)
  next
    case (Some c')
    then have "{d. valid_cursor d \<and> d < c} \<subset> {d. valid_cursor d \<and> d < c'}" if "valid_cursor c"
      using that below by (auto simp: none_or_def)
    then have "card {d. valid_cursor d \<and> d < c} < card {d. valid_cursor d \<and> d < c'}" if "valid_cursor c"
      using that finite_cursors by (intro psubset_card_mono) auto
    then show ?thesis using Some ok by (auto simp: cursors_left_def none_or_def)
  qed
qed

function fetch_loop ::
  "(nat \<Rightarrow> bool) \<Rightarrow> (nat \<Rightarrow> policy_store) \<Rightarrow> string option \<Rightarrow> string option \<Rightarrow> nat \<Rightarrow> string option \<Rightarrow> pql_row list \<Rightarrow> (pql_error, pql_row list) result" where
  "fetch_loop cancelled stores repository resource polls cursor rows =
     (if cancelled polls then Inl (Backend ''query cancelled'')
      else case query_policy_decisions (stores polls) (fetch_query repository resource cursor) of
        Inl e \<Rightarrow> Inl (policy_query_failure e)
      | Inr page \<Rightarrow>
          let rows' = rows @ map policy_row (pp_decisions page) in
          (case pp_next_cursor page of
             None \<Rightarrow> Inr rows'
           | Some nxt \<Rightarrow> fetch_loop cancelled stores repository resource (Suc polls) (Some nxt) rows'))"
  by auto
termination
  by (relation "measure (\<lambda>(_, _, _, _, _, cursor, _). cursors_left cursor)") (auto intro: cursors_left_decreases)

declare fetch_loop.simps [simp del]

definition fetch_policy ::
  "(nat \<Rightarrow> bool) \<Rightarrow> (nat \<Rightarrow> policy_store) \<Rightarrow> query_scope \<Rightarrow> fetch_filter option \<Rightarrow> (pql_error, pql_row list) result" where
  "fetch_policy cancelled stores scope flt =
     fetch_loop cancelled stores (single_repository scope) (indexed_resource flt) 0 None []"

definition neutral_source :: "(string \<Rightarrow> nat \<Rightarrow> bool) \<Rightarrow> (nat \<Rightarrow> policy_store) \<Rightarrow> stats_tree \<Rightarrow> data_source" where
  "neutral_source cancelled stores tree = \<lparr>
     src_schema = (\<lambda>domain.
       if domain = POLICY_DOMAIN then Some policy_schema else if domain = USAGE_DOMAIN then Some usage_schema else None),
     src_fetch = (\<lambda>domain scope flt.
       if domain = USAGE_DOMAIN
       then if cancelled domain 0 then Inl (Backend ''query cancelled'')
            else Inr (map usage_row (usage_totals tree (single_repository scope)))
       else fetch_policy (cancelled domain) stores scope flt)\<rparr>"

section \<open>The source is well typed\<close>

lemma POLICY_USAGE [simp]: "POLICY_DOMAIN \<noteq> USAGE_DOMAIN"
  by (simp add: POLICY_DOMAIN_def USAGE_DOMAIN_def)

lemma policy_row_cells:
  "policy_row item = (let rec = it_record item in
     [(''repository'', VStr (nd_repository rec)), (''resource'', VStr (nd_resource rec)), (''group'', optional (nd_group rec)),
      (''artifact'', optional (nd_artifact rec)), (''source'', optional (nd_source rec)),
      (''action'', VStr (policy_action_name (nd_action rec))), (''state'', VStr (policy_state_name (nd_state rec))),
      (''rule'', optional (nd_rule rec)), (''reason'', optional (nd_reason rec)),
      (''evaluated_at'', VTimestamp (nd_evaluated_at_unix rec)), (''fresh'', VBool (it_fresh item))])"
  by (simp add: policy_row_def row_with_def Let_def)

lemma schema_names_distinct: "distinct (map co_name (ds_columns policy_schema))" "distinct (map co_name (ds_columns usage_schema))"
  by (simp_all add: policy_schema_def usage_schema_def schema_columns_def POLICY_COLUMNS_def USAGE_COLUMNS_def)

lemma optional_ok: "value_ok TStr (optional v)"
  by (cases v) (simp_all add: value_ok_def optional_def)

text \<open>A row conforms to a schema when its cells are those of the columns, in order, each null or of the column's type.\<close>

lemma row_conformsI:
  assumes "distinct (map co_name (ds_columns schema))" "list_all2 (\<lambda>col (name, v). name = co_name col \<and> value_ok (co_type col) v) (ds_columns schema) row"
  shows "row_conforms schema row"
proof -
  have "map fst row = map co_name (ds_columns schema)"
    using assms(2) by (induction rule: list_all2_induct) auto
  moreover have "field_type schema name = Some ty \<Longrightarrow> value_ok ty (row_get row name)" for name ty
  proof -
    assume "field_type schema name = Some ty"
    then obtain col where col: "col \<in> set (ds_columns schema)" "co_name col = name" "co_type col = ty"
      by (auto simp: field_type_def dest: schema_column_Some)
    then obtain i where i: "i < length (ds_columns schema)" "ds_columns schema ! i = col" by (auto simp: in_set_conv_nth)
    obtain n v where cell: "row ! i = (n, v)" by force
    have nv: "n = name" "value_ok ty v" "i < length row"
      using list_all2_nthD [OF assms(2) i(1)] list_all2_lengthD [OF assms(2)] i col cell by auto
    have "distinct (map fst row)" using calculation assms(1) by simp
    moreover have "(name, v) \<in> set row" using nv cell nth_mem by metis
    ultimately have "map_of row name = Some v" by simp
    then show ?thesis using nv(2) by (simp add: row_get_def)
  qed
  moreover have "schema_column schema (co_name col) \<noteq> None" if "col \<in> set (ds_columns schema)" for col
    using that by (auto simp: schema_column_def find_None_iff)
  ultimately show ?thesis unfolding row_conforms_def row_types_def field_type_def by (metis (no_types, lifting) imageE list.set_map option.map_disc_iff)
qed

lemma policy_row_conforms: "row_conforms policy_schema (policy_row item)"
  by (rule row_conformsI [OF schema_names_distinct(1)])
    (simp add: policy_row_cells policy_schema_def schema_columns_def POLICY_COLUMNS_def Let_def optional_ok, simp add: value_ok_def)

lemma usage_row_conforms: "row_conforms usage_schema (usage_row usage)"
  by (rule row_conformsI [OF schema_names_distinct(2)])
    (simp add: usage_row_def row_with_def usage_schema_def schema_columns_def USAGE_COLUMNS_def value_ok_def)

lemma fetch_loop_rows:
  "fetch_loop cancelled stores repository resource polls cursor rows = Inr rows' \<Longrightarrow> \<forall>row \<in> set rows. row_conforms policy_schema row \<Longrightarrow>
   \<forall>row \<in> set rows'. row_conforms policy_schema row"
proof (induction cancelled stores repository resource polls cursor rows rule: fetch_loop.induct)
  case (1 cancelled stores repository resource polls cursor rows)
  obtain page where page: "\<not> cancelled polls" "query_policy_decisions (stores polls) (fetch_query repository resource cursor) = Inr page"
    using 1(2) by (subst (asm) fetch_loop.simps) (auto split: if_splits sum.splits)
  have step: "fetch_loop cancelled stores repository resource polls cursor rows =
      (case pp_next_cursor page of None \<Rightarrow> Inr (rows @ map policy_row (pp_decisions page))
       | Some nxt \<Rightarrow> fetch_loop cancelled stores repository resource (Suc polls) (Some nxt) (rows @ map policy_row (pp_decisions page)))"
    using page by (subst fetch_loop.simps) (simp add: Let_def)
  have conf: "\<forall>row \<in> set (rows @ map policy_row (pp_decisions page)). row_conforms policy_schema row"
    using 1(3) policy_row_conforms by auto
  show ?case
  proof (cases "pp_next_cursor page")
    case None
    then show ?thesis using 1(2) conf step by simp
  next
    case (Some nxt)
    with 1(1) [OF page refl Some _ conf] 1(2) show ?thesis unfolding step by simp
  qed
qed

lemma neutral_source_typed: "source_typed (neutral_source cancelled stores tree)"
  unfolding source_typed_def neutral_source_def
  using schema_names_distinct usage_row_conforms fetch_loop_rows
  by (auto simp: fetch_policy_def split: if_splits)

section \<open>A scan reads the whole history\<close>

lemma is_lower_hex_digit: "is_lower_hex c \<Longrightarrow> is_ascii_hexdigit c"
  by (auto simp: is_lower_hex_def is_ascii_hexdigit_def)

lemma hex16_hexdigits: "list_all is_ascii_hexdigit (hex16 n)"
  unfolding hex16_digits using digits_lt_16 HEX_lower is_lower_hex_digit by (auto simp: list_all_iff)

lemma length_digits [simp]: "length (digits k n) = k"
  by (induction k) auto

lemma valid_cursor_history_id: "valid_cursor (history_id n)"
  using hex16_hexdigits [of n] by (simp add: valid_cursor_def history_id_def hex16_digits)

definition fetched :: "policy_store \<Rightarrow> string option \<Rightarrow> string option \<Rightarrow> string option \<Rightarrow> (string \<times> policy_decision_record) list" where
  "fetched s repository resource cursor = decision_rows (fetch_query repository resource cursor) (ps_history s)"

lemma fetch_query_valid:
  "validate_query (fetch_query repository resource cursor) = Inr () \<longleftrightarrow>
     none_or valid_cursor cursor \<and> none_or (\<lambda>r. length r \<le> 512) repository \<and> none_or (\<lambda>r. length r \<le> 512) resource"
  by (auto simp: validate_query_def fetch_query_def policy_query_default_def STORE_PAGE_def DECISION_QUERY_LIMIT_def MAX_SUBJECT_BYTES_def
      none_or_def and_then_Inr_iff split: option.splits)

lemma fetch_query_cursor: "(fetch_query repository resource cursor)\<lparr>pq_cursor := c\<rparr> = fetch_query repository resource c"
  by (simp add: fetch_query_def policy_query_default_def)

lemma fetch_loop_exact:
  assumes "\<And>h r. fmlookup (ps_history s) h = Some r \<Longrightarrow> valid_cursor h" "\<And>i. \<not> cancelled i" "none_or valid_cursor cursor"
    "none_or (\<lambda>r. length r \<le> 512) repository" "none_or (\<lambda>r. length r \<le> 512) resource"
  shows "fetch_loop cancelled (\<lambda>_. s) repository resource polls cursor rows =
    Inr (rows @ map (\<lambda>row. policy_row (query_item (ps_meta s) row)) (fetched s repository resource cursor))"
  using assms(3)
proof (induction "length (fetched s repository resource cursor)" arbitrary: polls cursor rows rule: less_induct)
  case less
  let ?q = "fetch_query repository resource cursor" and ?found = "fetched s repository resource cursor"
  let ?row = "\<lambda>row. policy_row (query_item (ps_meta s) row)"
  have limit: "pq_limit ?q = 100" by (simp add: fetch_query_def STORE_PAGE_def)
  have page: "query_policy_decisions s ?q = Inr \<lparr>pp_decisions = map (query_item (ps_meta s)) (take 100 ?found),
      pp_next_cursor = (if length ?found > 100 then Some (fst (?found ! 99)) else None)\<rparr>"
    using query_page [of ?q s] less.prems assms(4,5) by (simp add: fetch_query_valid limit fetched_def Let_def)
  show ?case
  proof (cases "length ?found > 100")
    case False
    then show ?thesis using assms(2) by (subst fetch_loop.simps) (simp add: page)
  next
    case True
    let ?c = "fst (?found ! 99)"
    have rest: "fetched s repository resource (Some ?c) = drop 100 ?found"
      using decision_rows_after [of 99 ?q "ps_history s"] True by (simp add: fetched_def fetch_query_cursor)
    have "?found ! 99 \<in> set ?found" using True by simp
    then have "valid_cursor ?c" using assms(1) by (auto simp: fetched_def decision_rows_def)
    then have "fetch_loop cancelled (\<lambda>_. s) repository resource (Suc polls) (Some ?c) (rows @ map ?row (take 100 ?found)) =
        Inr ((rows @ map ?row (take 100 ?found)) @ map ?row (drop 100 ?found))"
      using less.hyps [of "Some ?c"] rest True by (simp add: none_or_def)
    then have "fetch_loop cancelled (\<lambda>_. s) repository resource (Suc polls) (Some ?c) (rows @ map ?row (take 100 ?found)) =
        Inr (rows @ map ?row ?found)" by (metis append.assoc append_take_drop_id map_append)
    then show ?thesis using assms(2) True by (subst fetch_loop.simps) (simp add: page comp_def)
  qed
qed

text \<open>The rows of a log: its retained records, newest first.\<close>

definition log_rows :: "meta_store \<Rightarrow> usize \<Rightarrow> policy_decision_record list \<Rightarrow> pql_row list" where
  "log_rows meta limit log =
     map (\<lambda>r. policy_row (item_under (policy_generation_of meta (nd_repository r)) r)) (rev (drop (length log - limit) log))"

lemma fetch_policy_exact:
  assumes "pd_matches json limit log s" "\<And>i. \<not> cancelled i"
    "none_or (\<lambda>r. length r \<le> 512) (single_repository scope)" "none_or (\<lambda>r. length r \<le> 512) (indexed_resource flt)"
  shows "fetch_policy cancelled (\<lambda>_. s) scope flt = Inr (filter (\<lambda>row.
      none_or (\<lambda>repository. row_get row ''repository'' = VStr repository) (single_repository scope)
      \<and> none_or (\<lambda>resource. row_get row ''resource'' = VStr resource) (indexed_resource flt)) (log_rows (ps_meta s) limit log))"
proof -
  let ?rows = "map (\<lambda>i. (nth_id i, log ! i)) [length log - limit ..< length log]"
  have hist: "sorted_list_of_fmap (ps_history s) = ?rows" using history_rows assms(1) unfolding pd_matches_def by blast
  have valid: "valid_cursor h" if "fmlookup (ps_history s) h = Some r" for h r
  proof -
    have "(h, r) \<in> set ?rows" using that unfolding hist [symmetric] by simp
    then obtain i where "h = nth_id i" by auto
    then show ?thesis using valid_cursor_history_id by (simp add: nth_id_def)
  qed
  have m: "matches_query r (fetch_query repository resource None) \<longleftrightarrow>
      none_or (\<lambda>repository. nd_repository r = repository) repository \<and> none_or (\<lambda>resource. nd_resource r = resource) resource" for r repository resource
    by (simp add: matches_query_def fetch_query_def policy_query_default_def none_or_def)
  have cells: "row_get (policy_row item) ''repository'' = VStr (nd_repository (it_record item))"
    "row_get (policy_row item) ''resource'' = VStr (nd_resource (it_record item))" for item
    by (simp_all add: policy_row_cells row_get_def Let_def)
  have "map snd ?rows = drop (length log - limit) log" by (simp add: comp_def) (rule nth_equalityI; simp)
  then have rev: "map snd (rev ?rows) = rev (drop (length log - limit) log)" by (metis rev_map)
  let ?keep = "\<lambda>r. none_or (\<lambda>repository. nd_repository r = repository) (single_repository scope)
      \<and> none_or (\<lambda>resource. nd_resource r = resource) (indexed_resource flt)"
  have run: "fetch_policy cancelled (\<lambda>_. s) scope flt =
      Inr (map (\<lambda>row. policy_row (query_item (ps_meta s) row)) (fetched s (single_repository scope) (indexed_resource flt) None))"
    unfolding fetch_policy_def using fetch_loop_exact [OF valid assms(2) _ assms(3,4), where cursor = None and polls = 0 and rows = "[]"] by (simp add: none_or_def)
  have found: "fetched s (single_repository scope) (indexed_resource flt) None = filter (\<lambda>row. ?keep (snd row)) (rev ?rows)"
    unfolding fetched_def decision_rows_def hist m by (simp add: fetch_query_def none_or_def case_prod_unfold)
  have all: "log_rows (ps_meta s) limit log = map (\<lambda>row. policy_row (query_item (ps_meta s) row)) (rev ?rows)"
    unfolding log_rows_def rev [symmetric] map_map by (simp add: comp_def query_item_def)
  show ?thesis unfolding run found all filter_map
    by (simp add: comp_def cells query_item_def item_under_def)
qed

section \<open>Filters pushed into the source are invisible\<close>

lemma compare_equal: "value_compare a b = Some Equal \<Longrightarrow> a = b"
  by (cases "(a, b)" rule: value_compare.cases) auto

lemma nullable_and_true: "nullable_and a b = Some True \<longleftrightarrow> a = Some True \<and> b = Some True"
  by (cases "(a, b)" rule: nullable_and.cases) auto

lemma cheap_filter_Some:
  "cheap_filter field lits schema = Some f \<Longrightarrow> ff_column f = field \<and> ff_values f = map literal_value lits"
  by (auto simp: cheap_filter_def Let_def split: option.splits if_splits dest: schema_column_Some)

text \<open>A row a predicate keeps carries one of the values of the filter its plan pushes into the source.\<close>

lemma leading_filter_sound:
  "leading_filter p schema = Some f \<Longrightarrow> evaluate_nullable p row = Some True \<Longrightarrow> row_get row (ff_column f) \<in> set (ff_values f)"
proof (induction p schema rule: leading_filter.induct)
  case (1 left right schema)
  then show ?case by (auto simp: nullable_and_true split: option.splits)
next
  case (2 field v schema)
  then show ?case by (auto simp: compare_values_def dest!: cheap_filter_Some dest: compare_equal)
next
  case (3 field vs schema)
  then show ?case by (auto simp: list_ex_iff dest!: cheap_filter_Some)
qed auto

fun literal_texts :: "pql_literal \<Rightarrow> string set" where
  "literal_texts (LStr t) = {t}"
| "literal_texts (LBoundParam _ (VStr t)) = {t}"
| "literal_texts _ = {}"

fun predicate_texts :: "predicate \<Rightarrow> string set" where
  "predicate_texts (POr left right) = predicate_texts left \<union> predicate_texts right"
| "predicate_texts (PAnd left right) = predicate_texts left \<union> predicate_texts right"
| "predicate_texts (PNot inner) = predicate_texts inner"
| "predicate_texts (PCompare _ _ v) = literal_texts v"
| "predicate_texts (PIn _ vs) = \<Union> (literal_texts ` set vs)"
| "predicate_texts (PStartsWith _ prefix) = literal_texts prefix"

lemma resolve_literal_texts: "resolve_literal rfc3339 col lit expected = Inr (lit', expected') \<Longrightarrow> literal_texts lit' \<subseteq> literal_texts lit"
  by (cases lit)
    (auto simp: resolve_literal_def and_then_Inr_iff typed_literal_def split: pql_value.splits value_type.splits option.splits)

lemma resolve_literals_texts:
  "resolve_literals rfc3339 col lits expected = Inr (lits', expected') \<Longrightarrow> \<Union> (literal_texts ` set lits') \<subseteq> \<Union> (literal_texts ` set lits)"
proof (induction lits arbitrary: expected lits' expected')
  case (Cons lit lits)
  then obtain l e ls where "resolve_literal rfc3339 col lit expected = Inr (l, e)"
    "resolve_literals rfc3339 col lits e = Inr (ls, expected')" "lits' = l # ls" by (auto simp: and_then_Inr_iff)
  then show ?case using Cons.IH resolve_literal_texts by fastforce
qed simp

lemma resolve_predicate_texts:
  "resolve_predicate rfc3339 schema p expected = Inr (p', expected') \<Longrightarrow> predicate_texts p' \<subseteq> predicate_texts p"
proof (induction p arbitrary: expected p' expected')
  case (POr left right)
  then obtain l e r where "resolve_predicate rfc3339 schema left expected = Inr (l, e)"
    "resolve_predicate rfc3339 schema right e = Inr (r, expected')" "p' = POr l r" by (auto simp: and_then_Inr_iff)
  then show ?case using POr.IH by fastforce
next
  case (PAnd left right)
  then obtain l e r where "resolve_predicate rfc3339 schema left expected = Inr (l, e)"
    "resolve_predicate rfc3339 schema right e = Inr (r, expected')" "p' = PAnd l r" by (auto simp: and_then_Inr_iff)
  then show ?case using PAnd.IH by fastforce
next
  case (PNot inner)
  then obtain i where "resolve_predicate rfc3339 schema inner expected = Inr (i, expected')" "p' = PNot i" by (auto simp: and_then_Inr_iff)
  then show ?case using PNot.IH by simp
qed (auto simp: and_then_Inr_iff dest!: resolve_literal_texts resolve_literals_texts)

lemma resolve_params_texts:
  "resolve_params rfc3339 ast schema = Inr ast' \<Longrightarrow> ast_predicate ast' = Some p' \<Longrightarrow> \<exists>p. ast_predicate ast = Some p \<and> predicate_texts p' \<subseteq> predicate_texts p"
  by (auto simp: resolve_params_def and_then_Inr_iff split: option.splits intro: subsetD [OF resolve_predicate_texts])

lemma literal_value_text: "literal_value v = VStr t \<Longrightarrow> t \<in> literal_texts v"
  by (cases v rule: literal_texts.cases) auto

lemma leading_filter_texts: "leading_filter p schema = Some f \<Longrightarrow> VStr t \<in> set (ff_values f) \<Longrightarrow> t \<in> predicate_texts p"
proof (induction p schema rule: leading_filter.induct)
  case (1 left right schema)
  then show ?case by (auto split: option.splits)
next
  case (2 field v schema)
  then show ?case by (auto dest!: cheap_filter_Some literal_value_text [OF sym])
next
  case (3 field vs schema)
  then show ?case by (force dest!: cheap_filter_Some literal_value_text [OF sym])
qed auto

text \<open>Sorting commutes with filtering, so a filter may be applied on either side of it.\<close>

context comparator
begin

lemma filter_insert_by:
  assumes "sorted_wrt (\<lambda>a b. c a b \<noteq> Greater) ys"
  shows "filter P (insert_by c x ys) = (if P x then insert_by c x (filter P ys) else filter P ys)"
  using assms
proof (induction ys)
  case (Cons y ys)
  have first: "insert_by c x zs = x # zs" if "\<forall>z \<in> set zs. c x z \<noteq> Greater" for zs using that by (cases zs) auto
  show ?case
  proof (cases "c x y = Greater")
    case True
    then show ?thesis using Cons by auto
  next
    case False
    then have "\<forall>z \<in> set (y # ys). c x z \<noteq> Greater" using Cons.prems cmp_trans by auto
    then show ?thesis using False first [of "filter P (y # ys)"] by auto
  qed
qed simp

lemma sort_by_filter: "sort_by c (filter P xs) = filter P (sort_by c xs)"
proof (induction xs)
  case (Cons x xs)
  then show ?case using filter_insert_by [OF sorted_sort_by, of P x xs] by (simp add: sort_by_def)
qed (simp add: sort_by_def)

end

interpretation usage: comparator usage_order
  unfolding usage_order_def [abs_def]
  by (rule comparator_then [OF comparator_on [where f = ru_reads, OF comparator_rev [OF comparator_cmp]]
        comparator_then [OF comparator_on [where f = ru_repository, OF comparator_cmp] comparator_on [where f = ru_resource, OF comparator_cmp]]])

lemma filter_repository:
  assumes "\<And>u. u \<in> set us \<Longrightarrow> ru_repository u = r"
  shows "filter (\<lambda>u. none_or (\<lambda>r. ru_repository u = r) repository) us = (if (case repository of None \<Rightarrow> False | Some f \<Rightarrow> r \<noteq> f) then [] else us)"
proof (cases repository)
  case (Some f)
  then have "filter (\<lambda>u. none_or (\<lambda>r. ru_repository u = r) repository) us = filter (\<lambda>u. r = f) us"
    using assms by (intro filter_cong) (auto simp: none_or_def)
  then show ?thesis using Some by simp
qed (simp add: none_or_def)

lemma usage_totals_filter:
  "usage_totals tree repository = filter (\<lambda>u. none_or (\<lambda>r. ru_repository u = r) repository) (usage_totals tree None)"
proof -
  let ?g = "\<lambda>(repository, resources). map (\<lambda>(resource, reads, bytes).
      \<lparr>ru_repository = repository, ru_resource = resource, ru_reads = reads, ru_bytes = bytes\<rparr>) resources"
  let ?out = "\<lambda>repository'. case repository of None \<Rightarrow> False | Some f \<Rightarrow> repository' \<noteq> f"
  have repo: "ru_repository u = fst entry" if "u \<in> set (?g entry)" for u entry using that by (cases entry) auto
  have one: "filter (\<lambda>u. none_or (\<lambda>r. ru_repository u = r) repository) (?g entry) = (if ?out (fst entry) then [] else ?g entry)" for entry
    by (rule filter_repository) (rule repo)
  have "concat (map (\<lambda>entry. if ?out (fst entry) then [] else ?g entry) tree) =
      filter (\<lambda>u. none_or (\<lambda>r. ru_repository u = r) repository) (concat (map ?g tree))"
    unfolding one [symmetric] by (simp add: filter_concat comp_def)
  moreover have "usage_totals tree f = sort_by usage_order (concat (map (\<lambda>entry.
      if (case f of None \<Rightarrow> False | Some f \<Rightarrow> fst entry \<noteq> f) then [] else ?g entry) tree))" for f
    unfolding usage_totals_def by (intro arg_cong [where f = "sort_by usage_order"] arg_cong [where f = concat] map_cong refl)
      (simp only: split_paired_all fst_conv prod.case)
  ultimately show ?thesis by (simp only: usage.sort_by_filter option.case if_False)
qed

lemma execute_plain_cong:
  assumes "ast_join ast = None" "src_schema a = src_schema b"
    and fetch: "\<And>schema visible ast'. src_schema a (ast_domain ast) = Some schema \<Longrightarrow> visible_schema schema scope = Inr visible \<Longrightarrow>
      resolve_params rfc3339 ast visible = Inr ast' \<Longrightarrow>
      \<exists>ra rb. src_fetch a (ast_domain ast) scope (Option.bind (ast_predicate ast') (\<lambda>p. leading_filter p visible)) = Inr ra
        \<and> src_fetch b (ast_domain ast) scope (Option.bind (ast_predicate ast') (\<lambda>p. leading_filter p visible)) = Inr rb
        \<and> retain_matching (scope_filter ra scope schema) (ast_predicate ast') = retain_matching (scope_filter rb scope schema) (ast_predicate ast')"
  shows "execute f rfc3339 ast scope cursor a = execute f rfc3339 ast scope cursor b"
proof (cases "src_schema a (ast_domain ast)")
  case None
  then show ?thesis using assms(1,2) by (simp add: execute_def require_schema_def)
next
  case (Some schema)
  have start: "execute f rfc3339 ast scope cursor c = and_then (visible_schema schema scope) (\<lambda>visible.
      and_then (resolve_params rfc3339 ast visible) (\<lambda>ast'. and_then (plan_resolved ast' visible) (\<lambda>plan.
      and_then (decode_offset f cursor (ast_domain ast') scope) (\<lambda>offset.
      and_then (src_fetch c (ast_domain ast') scope (Option.bind (ast_predicate ast') (\<lambda>p. leading_filter p visible))) (\<lambda>fetched.
        Inr (pql_finish f (retain_matching (scope_filter fetched scope schema) (ast_predicate ast')) ast' plan
          (ds_natural_order visible) (ast_domain ast') scope offset))))))" if "src_schema c (ast_domain ast) = Some schema" for c
    using assms(1) that by (simp add: execute_def require_schema_def Let_def)
  show ?thesis
  proof (cases "visible_schema schema scope")
    case vis: (Inr visible)
    show ?thesis
    proof (cases "resolve_params rfc3339 ast visible")
      case par: (Inr ast')
      have dom: "ast_domain ast' = ast_domain ast"
        using resolve_params_keeps [OF par] by (metis ast.ext_inject ast.surjective ast.update_convs(3))
      show ?thesis using fetch [OF Some vis par] Some assms(2)
        by (auto simp: start vis par dom)
    qed (use Some assms(2) vis start in simp)
  qed (use Some assms(2) start in simp)
qed

text \<open>The source that serves every retained record of the log and every total, and takes no filter.\<close>

definition log_source :: "meta_store \<Rightarrow> usize \<Rightarrow> policy_decision_record list \<Rightarrow> stats_tree \<Rightarrow> data_source" where
  "log_source meta limit log tree = \<lparr>
     src_schema = (\<lambda>domain.
       if domain = POLICY_DOMAIN then Some policy_schema else if domain = USAGE_DOMAIN then Some usage_schema else None),
     src_fetch = (\<lambda>domain scope flt.
       if domain = USAGE_DOMAIN then Inr (map usage_row (usage_totals tree None)) else Inr (log_rows meta limit log))\<rparr>"

lemma single_repository_scope:
  assumes "single_repository scope = Some r" "in_scope row scope True"
  shows "row_get row ''repository'' = VStr r"
proof -
  obtain repos where "qs_repositories scope = OnlyRepos repos" "sorted_list_of_fset repos = [r]"
    using assms(1) by (auto simp: single_repository_def split: repo_scope.splits list.splits)
  moreover from this have "repos = {|r|}" by (metis fset_of_list_simps sorted_list_of_fset_simps(2))
  ultimately show ?thesis using assms(2) by (auto simp: in_scope_def SCOPE_COLUMN_def split: pql_value.splits)
qed

lemma scope_columns: "schema_column policy_schema SCOPE_COLUMN \<noteq> None" "schema_column usage_schema SCOPE_COLUMN \<noteq> None"
  by (simp_all add: schema_column_def policy_schema_def usage_schema_def schema_columns_def POLICY_COLUMNS_def USAGE_COLUMNS_def SCOPE_COLUMN_def)

lemma indexed_resource_Some: "indexed_resource flt = Some v \<longleftrightarrow> (\<exists>f. flt = Some f \<and> ff_column f = ''resource'' \<and> ff_values f = [VStr v])"
  by (auto simp: indexed_resource_def split: option.splits list.splits pql_value.splits)

lemma matches_indexed:
  assumes "indexed_resource (Option.bind p (\<lambda>p. leading_filter p schema)) = Some v" "matches_predicate row p"
  shows "row_get row ''resource'' = VStr v"
proof -
  obtain q f where q: "p = Some q" "leading_filter q schema = Some f" "ff_column f = ''resource''" "ff_values f = [VStr v]"
    using assms(1) by (auto simp: indexed_resource_Some bind_eq_Some_conv)
  then have "evaluate_nullable q row = Some True" using assms(2) by (auto simp: matches_predicate_def evaluate_def split: option.splits)
  from leading_filter_sound [OF q(2) this] q(3,4) show ?thesis by simp
qed

lemma retain_pushed:
  assumes "\<And>row. row \<in> set rows \<Longrightarrow> in_scope row scope True \<Longrightarrow> matches_predicate row p \<Longrightarrow> P row" "schema_column schema SCOPE_COLUMN \<noteq> None"
  shows "retain_matching (scope_filter (filter P rows) scope schema) p = retain_matching (scope_filter rows scope schema) p"
  using assms unfolding retain_matching_def scope_filter_def by (auto simp: filter_filter intro!: filter_cong)


section \<open>Samples\<close>

fun sample_parse :: "string \<Rightarrow> (string \<times> string) option" where
  "sample_parse (c # r) =
     (if c = CHR ''.'' then Some ([], r)
      else case r of [] \<Rightarrow> None | d # r' \<Rightarrow> map_option (\<lambda>(t, rest). (d # t, rest)) (sample_parse r'))"
| "sample_parse [] = None"

lemma sample_parse_text: "sample_parse (sample_text t @ rest) = Some (t, rest)"
  by (induction t) auto

fun sample_escape :: "string \<Rightarrow> string" where
  "sample_escape [] = []"
| "sample_escape (c # cs) = (if c = CHR 0x01 then ''s1'' else if c = CHR ''s'' then ''ss'' else [c]) @ sample_escape cs"

lemma sample_escape_inject: "sample_escape a = sample_escape b \<longleftrightarrow> a = b"
proof (induction a arbitrary: b)
  case Nil
  then show ?case by (cases b) auto
next
  case (Cons c a)
  then show ?case by (cases b) auto
qed

lemma sample_escape_clean: "CHR 0x01 \<notin> set (sample_escape s)"
  by (induction s) auto

definition sample_fmt :: pql_fmt where
  "sample_fmt = \<lparr>sha256_hex_of = (\<lambda>s. s),
     enc_cursor = (\<lambda>p. sample_text (cu_domain p) @ sample_text (cu_scope p) @ replicate (unat (cu_offset p)) CHR ''i''),
     dec_cursor = (\<lambda>t. case sample_parse t of None \<Rightarrow> None | Some (domain, r) \<Rightarrow>
       (case sample_parse r of None \<Rightarrow> None | Some (scope, r') \<Rightarrow>
         Some \<lparr>cu_domain = domain, cu_scope = scope, cu_offset = of_nat (length r')\<rparr>)),
     debug_str = sample_escape,
     debug_int = (\<lambda>n. (if n < 0 then ''-'' else '''') @ replicate (nat \<bar>n\<bar>) CHR ''i'')\<rparr>"

lemma sample_fmt_laws: "fmt_laws sample_fmt"
proof -
  have "inj (\<lambda>n :: int. (if n < 0 then ''-'' else '''') @ replicate (nat \<bar>n\<bar>) CHR ''i'')"
  proof (rule injI)
    fix m n :: int
    assume eq: "(if m < 0 then ''-'' else '''') @ replicate (nat \<bar>m\<bar>) CHR ''i'' = (if n < 0 then ''-'' else '''') @ replicate (nat \<bar>n\<bar>) CHR ''i''"
    have head: "replicate k CHR ''i'' \<noteq> CHR ''-'' # r" for k r by (cases k) auto
    from eq show "m = n" using head head [symmetric] by (auto split: if_splits dest: arg_cong [where f = length])
  qed
  moreover have "inj sample_escape" by (rule injI) (simp add: sample_escape_inject)
  moreover have "CHR 0x01 \<notin> set ((if n < 0 then ''-'' else '''') @ replicate (nat \<bar>n\<bar>) CHR ''i'')" for n :: int by auto
  ultimately show ?thesis
    unfolding fmt_laws_def sample_fmt_def by (simp add: sample_parse_text sample_escape_clean)
qed

definition sample_scope :: query_scope where
  "sample_scope = \<lparr>qs_repositories = OnlyRepos {|''r''|}, qs_visibility = {ClPublic, ClRepository}, qs_fingerprint = ''f''\<rparr>"

definition sample_usage_query :: ast where
  "sample_usage_query = \<lparr>ast_domain = USAGE_DOMAIN, ast_join = None, ast_predicate = Some (PCompare ''reads'' OpGt (LInt 1)),
     ast_selection = SelAll, ast_aggregate = None, ast_order_by = [], ast_limit = Some 1\<rparr>"

definition sample_tree :: stats_tree where
  "sample_tree = [(''q'', [(''z'', 9, 9)]), (''r'', [(''a'', 2, 10), (''b'', 1, 20), (''c'', 3, 30)])]"

definition sample_usage_source :: data_source where
  "sample_usage_source = neutral_source (\<lambda>_ _. False) (\<lambda>_. policy_store_empty meta_store_empty) sample_tree"

lemma sample_usage_page:
  "(case execute sample_fmt (\<lambda>_. None) sample_usage_query sample_scope None sample_usage_source of
      Inr page \<Rightarrow> map oc_name (pg_outputs page) = [''repository'', ''resource'', ''reads''] \<and> pg_rows page = [[VStr ''r'', VStr ''c'', VInt 3]]
        \<and> pg_next_cursor page \<noteq> None
    | Inl _ \<Rightarrow> False)"
  by code_simp

theorem page_well_typed_witness:
  "\<exists>page. execute sample_fmt (\<lambda>_. None) sample_usage_query sample_scope None sample_usage_source = Inr page
     \<and> pg_rows page = [[VStr ''r'', VStr ''c'', VInt 3]] \<and> (\<forall>tuple \<in> set (pg_rows page). tuple_ok (pg_outputs page) tuple)"
proof -
  obtain page where page: "execute sample_fmt (\<lambda>_. None) sample_usage_query sample_scope None sample_usage_source = Inr page"
    "pg_rows page = [[VStr ''r'', VStr ''c'', VInt 3]]"
    using sample_usage_page by (auto split: sum.splits)
  have "source_typed sample_usage_source" unfolding sample_usage_source_def by (rule neutral_source_typed)
  with page_well_typed [OF page(1)] page show ?thesis by blast
qed

definition sample_policy_query :: ast where
  "sample_policy_query = \<lparr>ast_domain = POLICY_DOMAIN, ast_join = None,
     ast_predicate = Some (PAnd (PCompare ''resource'' OpEq (LStr ''p'')) (PCompare ''state'' OpNe (LStr ''deny''))),
     ast_selection = SelColumns [''resource'', ''state''], ast_aggregate = None, ast_order_by = [], ast_limit = None\<rparr>"

lemma sample_policy_page:
  "(case execute sample_fmt (\<lambda>_. None) sample_policy_query sample_scope None
       (log_source meta_store_empty 1 [sample_record ''u1'' Deny, sample_record ''u2'' Allow] []) of
      Inr page \<Rightarrow> pg_rows page = [[VStr ''p'', VStr ''allow'']] | Inl _ \<Rightarrow> False)"
  by code_simp


end
