(* ===== verification/Pql_Security.thy ===== *)
theory Pql_Security
  imports Pql_Source
begin

text \<open>
  What a caller may learn from a query: rows outside its scope and columns above its visibility never influence an answer.
  Two rows agree when they hold the same values in the columns a query may name; the lemmas carry agreement through
  evaluation, ordering, grouping and the join of \<open>peryx-pql/src/execute.rs\<close>.
\<close>

section \<open>Agreement of rows\<close>

definition visible_fields :: "domain_schema \<Rightarrow> string set" where
  "visible_fields schema = {name. schema_column schema name \<noteq> None}"

definition agree :: "string set \<Rightarrow> pql_row \<Rightarrow> pql_row \<Rightarrow> bool" where
  "agree cols x y \<longleftrightarrow> (\<forall>name \<in> cols. row_get x name = row_get y name)"

lemma agreeD: "agree cols x y \<Longrightarrow> name \<in> cols \<Longrightarrow> row_get x name = row_get y name"
  by (simp add: agree_def)

lemma evaluate_agree: "agree cols x y \<Longrightarrow> predicate_fields p \<subseteq> cols \<Longrightarrow> evaluate_nullable p x = evaluate_nullable p y"
  by (induction p) (auto simp: agree_def)

lemma matches_agree:
  "agree cols x y \<Longrightarrow> (\<And>q. p = Some q \<Longrightarrow> predicate_fields q \<subseteq> cols) \<Longrightarrow> matches_predicate x p = matches_predicate y p"
  by (auto simp: matches_predicate_def evaluate_def evaluate_agree split: option.splits)

lemma list_all2_filter:
  assumes "list_all2 R xs ys" "\<And>x y. R x y \<Longrightarrow> P x = Q y"
  shows "list_all2 R (filter P xs) (filter Q ys)"
  using assms by (induction rule: list_all2_induct) auto

lemma list_all2_insert_by:
  assumes "list_all2 R xs ys" "R x y" "\<And>a a' b b'. R a a' \<Longrightarrow> R b b' \<Longrightarrow> c a b = c' a' b'"
  shows "list_all2 R (insert_by c x xs) (insert_by c' y ys)"
  using assms by (induction rule: list_all2_induct) auto

lemma list_all2_sort_by:
  assumes "list_all2 R xs ys" "\<And>a a' b b'. R a a' \<Longrightarrow> R b b' \<Longrightarrow> c a b = c' a' b'"
  shows "list_all2 R (sort_by c xs) (sort_by c' ys)"
  using assms(1) by (induction rule: list_all2_induct) (auto simp: sort_by_def intro: list_all2_insert_by assms(2))

lemma compare_agree:
  "agree cols a a' \<Longrightarrow> agree cols b b' \<Longrightarrow> ok_field ` set keys \<subseteq> cols \<Longrightarrow> compare_source_rows keys a b = compare_source_rows keys a' b'"
  by (induction keys) (auto simp: agree_def Let_def)

lemma order_agree:
  assumes "list_all2 (agree cols) xs ys" "ok_field ` set keys \<subseteq> cols"
  shows "list_all2 (agree cols) (order_source_rows keys xs) (order_source_rows keys ys)"
  unfolding order_source_rows_def by (rule list_all2_sort_by [OF assms(1)]) (rule compare_agree [OF _ _ assms(2)])

lemma project_agree:
  assumes "list_all2 (agree cols) xs ys" "oc_name ` set outputs \<subseteq> cols"
  shows "project_rows xs outputs = project_rows ys outputs"
  using assms(1)
proof (induction rule: list_all2_induct)
  case (Cons x xs y ys)
  then show ?case using assms(2) by (auto simp: project_rows_def agree_def)
qed simp

lemma observe_terms_agree:
  assumes "agree cols x y" "\<forall>term \<in> set (ag_terms agg). \<forall>name. at_column term = Some name \<longrightarrow> name \<in> cols"
  shows "observe_terms agg x accs = observe_terms agg y accs"
proof -
  have "observe_term x acc term = observe_term y acc term" if "term \<in> set (ag_terms agg)" for acc "term"
    using that assms by (cases "at_column term") (auto simp: observe_term_def agree_def)
  then show ?thesis unfolding observe_terms_def by (auto dest: set_zip_rightD)
qed

lemma aggregate_agree:
  assumes "list_all2 (agree cols) xs ys" "set (ag_group_by agg) \<subseteq> cols"
    and "\<forall>term \<in> set (ag_terms agg). \<forall>name. at_column term = Some name \<longrightarrow> name \<in> cols"
  shows "aggregate_rows xs agg = aggregate_rows ys agg"
proof -
  let ?step = "\<lambda>groups row. observe_group agg (map (row_get row) (ag_group_by agg)) row groups"
  have one: "?step groups x = ?step groups y" if xy: "agree cols x y" for groups x y
  proof -
    have key: "map (row_get x) (ag_group_by agg) = map (row_get y) (ag_group_by agg)" using xy assms(2) by (auto simp: agree_def)
    have "observe_group agg key x groups = observe_group agg key y groups" for key
      by (induction groups) (auto simp: observe_terms_agree [OF xy assms(3)])
    then show ?thesis by (simp add: key)
  qed
  have "foldl ?step groups xs = foldl ?step groups ys" for groups
    using assms(1) by (induction arbitrary: groups rule: list_all2_induct) (auto simp: one)
  then show ?thesis by (simp add: aggregate_rows_def group_rows_def)
qed

section \<open>What a plan may name\<close>

lemma visible_fields_columns: "visible_fields schema = co_name ` set (ds_columns schema)"
  by (auto simp: visible_fields_def schema_column_def find_None_iff find_Some_iff)

lemma field_type_visible: "field_type schema name = Some ty \<Longrightarrow> name \<in> visible_fields schema"
  by (auto simp: visible_fields_def field_type_def)

lemma project_fields: "project sel schema = Inr outputs \<Longrightarrow> oc_name ` set outputs \<subseteq> visible_fields schema"
proof (cases sel)
  case SelAll
  then show "project sel schema = Inr outputs \<Longrightarrow> oc_name ` set outputs \<subseteq> visible_fields schema"
    by (auto simp: project_def output_of_def visible_fields_columns)
next
  case (SelColumns names)
  assume "project sel schema = Inr outputs"
  then have "require_outputs names schema = Inr outputs" using SelColumns by (simp add: project_def)
  then show ?thesis using require_outputs_typed field_type_visible by blast
qed

lemma aggregate_fields:
  assumes "validate_aggregate agg schema = Inr outputs"
  shows "set (ag_group_by agg) \<subseteq> visible_fields schema"
    "\<forall>term \<in> set (ag_terms agg). \<forall>name. at_column term = Some name \<longrightarrow> name \<in> visible_fields schema"
proof -
  obtain keys terms where kt: "group_outputs (ag_group_by agg) schema = Inr keys" "term_outputs (ag_terms agg) schema = Inr terms"
    using assms by (auto simp: validate_aggregate_def and_then_Inr_iff)
  have "\<exists>ty. field_type schema key = Some ty" if "key \<in> set (ag_group_by agg)" for key
    using group_outputs_typed [OF kt(1)] that by (auto simp: list_all2_conv_all_nth in_set_conv_nth)
  then show "set (ag_group_by agg) \<subseteq> visible_fields schema" using field_type_visible by blast
  have "name \<in> visible_fields schema" if "validate_aggregate_term schema term = Inr oc" "at_column term = Some name" for "term" oc name
    using that by (auto simp: validate_aggregate_term_def and_then_Inr_iff visible_fields_def split: if_splits bool.splits)
  then show "\<forall>term \<in> set (ag_terms agg). \<forall>name. at_column term = Some name \<longrightarrow> name \<in> visible_fields schema"
    using term_outputs_typed [OF kt(2)] by (fastforce simp: list_all2_conv_all_nth in_set_conv_nth)
qed

lemma resolve_order_fields: "resolve_order keys outputs = Inr keys' \<Longrightarrow> ok_field ` set keys' \<subseteq> oc_name ` set outputs"
proof (induction keys arbitrary: keys')
  case (Cons key keys)
  then obtain rest where "resolve_order keys outputs = Inr rest" "keys' = key # rest" "ok_field key \<in> oc_name ` set outputs"
    by (auto simp: and_then_Inr_iff split: if_splits)
  then show ?case using Cons.IH by simp
qed simp

lemma plan_fields:
  assumes "validate_resolved ast schema = Inr plan" "schema_column schema natural \<noteq> None"
  shows "ast_aggregate ast = None \<Longrightarrow> oc_name ` set (pl_outputs plan) \<subseteq> visible_fields schema"
    "ast_aggregate ast = None \<Longrightarrow> ok_field ` set (resolved_order plan natural) \<subseteq> visible_fields schema"
    "ast_aggregate ast = Some agg \<Longrightarrow> validate_aggregate agg schema = Inr (pl_outputs plan)"
    "ast_predicate ast = Some p \<Longrightarrow> predicate_fields p \<subseteq> visible_fields schema"
proof -
  have out: "(case ast_aggregate ast of Some agg \<Rightarrow> validate_aggregate agg schema | None \<Rightarrow> project (ast_selection ast) schema) = Inr (pl_outputs plan)"
    and order: "resolve_order (ast_order_by ast) (pl_outputs plan) = Inr (pl_order_by plan)"
    and pred: "(case ast_predicate ast of None \<Rightarrow> Inr () | Some p \<Rightarrow> validate_predicate p schema) = Inr ()"
    using assms(1) by (auto simp: validate_resolved_def and_then_Inr_iff)
  show outputs: "ast_aggregate ast = None \<Longrightarrow> oc_name ` set (pl_outputs plan) \<subseteq> visible_fields schema"
    using out project_fields by simp
  show "ast_aggregate ast = None \<Longrightarrow> ok_field ` set (resolved_order plan natural) \<subseteq> visible_fields schema"
    using subset_trans [OF resolve_order_fields [OF order] outputs] assms(2) by (simp add: resolved_order_def visible_fields_def)
  show "ast_aggregate ast = Some agg \<Longrightarrow> validate_aggregate agg schema = Inr (pl_outputs plan)" using out by simp
  show "ast_predicate ast = Some p \<Longrightarrow> predicate_fields p \<subseteq> visible_fields schema"
  proof
    fix field assume p: "ast_predicate ast = Some p" "field \<in> predicate_fields p"
    then have "well_typed schema p" using pred by (intro validate_well_typed) simp
    from well_typed_fields [OF this p(2)] show "field \<in> visible_fields schema" by (simp add: visible_fields_def)
  qed
qed

lemma finish_agree:
  assumes "validate_resolved ast schema = Inr plan" "schema_column schema natural \<noteq> None" "list_all2 (agree (visible_fields schema)) xs ys"
  shows "pql_finish f xs ast plan natural domain scope offset = pql_finish f ys ast plan natural domain scope offset"
proof (cases "ast_aggregate ast")
  case None
  have "project_rows (order_source_rows (resolved_order plan natural) xs) (pl_outputs plan) =
      project_rows (order_source_rows (resolved_order plan natural) ys) (pl_outputs plan)"
    by (rule project_agree [OF order_agree [OF assms(3) plan_fields(2) [OF assms(1,2) None]] plan_fields(1) [OF assms(1,2) None]])
  then show ?thesis using None by (simp add: pql_finish_def)
next
  case (Some agg)
  have "validate_aggregate agg schema = Inr (pl_outputs plan)" using plan_fields(3) [OF assms(1,2) Some] .
  from aggregate_agree [OF assms(3) aggregate_fields [OF this]] show ?thesis using Some by (simp add: pql_finish_def)
qed

section \<open>Merged columns are at least as restricted as both sides\<close>

definition class_at :: "column list \<Rightarrow> string \<Rightarrow> field_class option" where
  "class_at columns name = map_option co_class (find (\<lambda>col. co_name col = name) columns)"

definition restricts :: "field_class option \<Rightarrow> field_class \<Rightarrow> bool" where
  "restricts cl bound \<longleftrightarrow> (\<exists>c. cl = Some c \<and> class_rank bound \<le> class_rank c)"

lemma most_restrictive_rank: "class_rank (most_restrictive a b) = max (class_rank a) (class_rank b)"
  by (simp add: most_restrictive_def max_def)

lemma class_at_append: "class_at (xs @ ys) name = (case class_at xs name of Some c \<Rightarrow> Some c | None \<Rightarrow> class_at ys name)"
  by (induction xs) (auto simp: class_at_def)

lemma raise_class_None_at: "raise_class col columns = None \<Longrightarrow> class_at columns (co_name col) = None"
  by (induction columns) (auto simp: class_at_def split: if_splits)

lemma raise_class_at:
  "raise_class col columns = Some columns' \<Longrightarrow>
   class_at columns' name = (if name = co_name col then map_option (\<lambda>c. most_restrictive c (co_class col)) (class_at columns name) else class_at columns name)
   \<and> class_at columns (co_name col) \<noteq> None"
  by (induction columns arbitrary: columns') (auto simp: class_at_def split: if_splits)

lemma merge_column_restricts:
  "restricts (class_at columns name) bound \<Longrightarrow> restricts (class_at (merge_column columns col) name) bound"
  "restricts (class_at (merge_column columns col) (co_name col)) (co_class col)"
proof (atomize (full), cases "raise_class col columns")
  case None
  then show "(restricts (class_at columns name) bound \<longrightarrow> restricts (class_at (merge_column columns col) name) bound)
      \<and> restricts (class_at (merge_column columns col) (co_name col)) (co_class col)"
    using raise_class_None_at by (auto simp: merge_column_def restricts_def class_at_append class_at_def [of "[col]"] split: option.splits)
next
  case (Some columns')
  show "(restricts (class_at columns name) bound \<longrightarrow> restricts (class_at (merge_column columns col) name) bound)
      \<and> restricts (class_at (merge_column columns col) (co_name col)) (co_class col)"
    using raise_class_at [OF Some, of name] raise_class_at [OF Some, of "co_name col"] Some
    by (auto simp: merge_column_def restricts_def most_restrictive_rank)
qed

lemma merge_columns_restricts:
  "restricts (class_at columns name) bound \<Longrightarrow> restricts (class_at (foldl merge_column columns others) name) bound"
  by (induction others arbitrary: columns) (auto intro: merge_column_restricts)

lemma merge_schemas_restricts:
  assumes "schema_column a name = Some col \<or> schema_column b name = Some col"
  shows "restricts (class_at (ds_columns (merge_schemas a b)) name) (co_class col)"
  using assms
proof
  assume "schema_column a name = Some col"
  then have "restricts (class_at (ds_columns a) name) (co_class col)" by (simp add: restricts_def class_at_def schema_column_def)
  then show ?thesis by (simp add: merge_schemas_def merge_columns_restricts)
next
  assume "schema_column b name = Some col"
  then have col: "col \<in> set (ds_columns b)" "co_name col = name" using schema_column_Some by auto
  then obtain xs ys where b: "ds_columns b = xs @ col # ys" by (meson split_list)
  have "restricts (class_at (foldl merge_column (ds_columns a) (xs @ [col])) name) (co_class col)"
    using merge_column_restricts(2) [of _ col] col(2) by simp
  from merge_columns_restricts [OF this, of ys] show ?thesis by (simp add: merge_schemas_def b)
qed

text \<open>A caller that may read a class may read every less restricted one.\<close>

definition visibility_closed :: "field_visibility \<Rightarrow> bool" where
  "visibility_closed vis \<longleftrightarrow> (\<forall>c \<in> vis. \<forall>d. class_rank d \<le> class_rank c \<longrightarrow> d \<in> vis)"

lemma visible_field:
  assumes "distinct (map co_name (ds_columns schema))"
  shows "name \<in> visible_fields (visible_to schema vis) \<longleftrightarrow> (\<exists>col. schema_column schema name = Some col \<and> co_class col \<in> vis)"
  using visible_column [OF assms, of vis name] by (auto simp: visible_fields_def)

lemma merged_field:
  assumes "distinct (map co_name (ds_columns a))" "distinct (map co_name (ds_columns b))" "visibility_closed vis"
    and "name \<in> visible_fields (visible_to (merge_schemas a b) vis)"
  shows "schema_column a name \<noteq> None \<Longrightarrow> name \<in> visible_fields (visible_to a vis)"
    "schema_column b name \<noteq> None \<Longrightarrow> name \<in> visible_fields (visible_to b vis)"
    "schema_column a name \<noteq> None \<or> schema_column b name \<noteq> None"
proof -
  obtain m where m: "schema_column (merge_schemas a b) name = Some m" "co_class m \<in> vis"
    using assms(4) visible_field [OF merge_schemas_distinct [OF assms(1)]] by blast
  have "co_class col \<in> vis" if "schema_column a name = Some col \<or> schema_column b name = Some col" for col
    using merge_schemas_restricts [OF that] m assms(3) by (auto simp: restricts_def class_at_def schema_column_def visibility_closed_def)
  then show "schema_column a name \<noteq> None \<Longrightarrow> name \<in> visible_fields (visible_to a vis)"
    "schema_column b name \<noteq> None \<Longrightarrow> name \<in> visible_fields (visible_to b vis)"
    unfolding visible_field [OF assms(1)] visible_field [OF assms(2)] by blast+
  have "field_type (merge_schemas a b) name \<noteq> None" using m(1) by (simp add: field_type_def)
  then show "schema_column a name \<noteq> None \<or> schema_column b name \<noteq> None"
    unfolding merge_schemas_type by (auto simp: field_type_def split: option.splits)
qed

section \<open>Joins of agreeing rows\<close>

definition alike :: "domain_schema \<Rightarrow> field_visibility \<Rightarrow> pql_row \<Rightarrow> pql_row \<Rightarrow> bool" where
  "alike schema vis x y \<longleftrightarrow> agree (visible_fields (visible_to schema vis)) x y \<and> row_conforms schema x \<and> row_conforms schema y"

definition progress_alike :: "string set \<Rightarrow> join_progress \<Rightarrow> join_progress \<Rightarrow> bool" where
  "progress_alike cols s t \<longleftrightarrow> jp_walked s = jp_walked t \<and> jp_full s = jp_full t \<and> list_all2 (agree cols) (jp_merged s) (jp_merged t)"


lemma merge_agree:
  assumes "distinct (map co_name (ds_columns a))" "distinct (map co_name (ds_columns b))" "visibility_closed vis" "alike a vis x x'" "alike b vis y y'"
  shows "agree (visible_fields (visible_to (merge_schemas a b) vis)) (merge_row x y (probe_only a b)) (merge_row x' y' (probe_only a b))"
  unfolding agree_def
proof
  fix name assume name: "name \<in> visible_fields (visible_to (merge_schemas a b) vis)"
  note fields = merged_field [OF assms(1-3) name]
  have conforms: "row_conforms a x" "row_conforms a x'" "row_conforms b y" "row_conforms b y'" using assms(4,5) by (auto simp: alike_def)
  show "row_get (merge_row x y (probe_only a b)) name = row_get (merge_row x' y' (probe_only a b)) name"
  proof (cases "schema_column a name = None")
    case True
    then have "row_get y name = row_get y' name" using fields(2,3) assms(5) by (auto simp: alike_def agree_def)
    then show ?thesis using True by (simp add: merge_row_get [OF conforms(1,3)] merge_row_get [OF conforms(2,4)] field_type_def)
  next
    case False
    then have "row_get x name = row_get x' name" using fields(1) assms(4) by (auto simp: alike_def agree_def)
    then show ?thesis using False by (simp add: merge_row_get [OF conforms(1,3)] merge_row_get [OF conforms(2,4)] field_type_def)
  qed
qed

lemma join_key_agree: "agree cols x y \<Longrightarrow> set keys \<subseteq> cols \<Longrightarrow> join_key f x keys = join_key f y keys"
  unfolding join_key_def by (intro arg_cong [where f = concat] map_cong refl) (auto simp: agree_def)

lemma progress_alikeD:
  "progress_alike cols s t \<Longrightarrow> jp_walked s = jp_walked t \<and> jp_full s = jp_full t \<and> length (jp_merged s) = length (jp_merged t)"
  by (auto simp: progress_alike_def dest: list_all2_lengthD)

lemma progress_alike_step:
  "progress_alike cols s t \<Longrightarrow> progress_alike cols (s\<lparr>jp_walked := n\<rparr>) (t\<lparr>jp_walked := n\<rparr>)"
  "progress_alike cols s t \<Longrightarrow> agree cols x y \<Longrightarrow>
   progress_alike cols (s\<lparr>jp_walked := n, jp_merged := jp_merged s @ [x]\<rparr>) (t\<lparr>jp_walked := n, jp_merged := jp_merged t @ [y]\<rparr>)"
  "progress_alike cols s t \<Longrightarrow> agree cols x y \<Longrightarrow>
   progress_alike cols (s\<lparr>jp_walked := n, jp_merged := jp_merged s @ [x], jp_full := full\<rparr>) (t\<lparr>jp_walked := n, jp_merged := jp_merged t @ [y], jp_full := full\<rparr>)"
  by (auto simp: progress_alike_def intro: list_all2_appendI)

lemma join_matches_alike:
  assumes "list_all2 R bs cs" "progress_alike cols s t"
    and merge: "\<And>b c. R b c \<Longrightarrow> agree cols (merge_row x b names) (merge_row y c names)"
    and p: "\<And>q. p = Some q \<Longrightarrow> predicate_fields q \<subseteq> cols"
  shows "rel_sum (=) (progress_alike cols) (join_matches refusal x names bound p bs s) (join_matches refusal y names bound p cs t)"
  using assms(1,2)
proof (induction arbitrary: s t rule: list_all2_induct)
  case (Cons b bs c cs)
  have row: "agree cols (merge_row x b names) (merge_row y c names)" using merge Cons.hyps(1) .
  have same: "matches_predicate (merge_row x b names) p = matches_predicate (merge_row y c names) p" by (rule matches_agree [OF row p])
  show ?case using progress_alikeD [OF Cons.prems] progress_alike_step [OF Cons.prems] Cons.IH row same by (simp add: Let_def)
qed simp

lemma join_outer_alike:
  assumes "list_all2 Q xs ys" "progress_alike cols s t"
    and probe: "list_all2 R bs cs" "\<And>b c. R b c \<Longrightarrow> join_key f b keys = join_key f c keys"
    and outer: "\<And>x y. Q x y \<Longrightarrow> join_key f x keys = join_key f y keys"
    and merge: "\<And>x y b c. Q x y \<Longrightarrow> R b c \<Longrightarrow> agree cols (merge_row x b names) (merge_row y c names)"
    and p: "\<And>q. p = Some q \<Longrightarrow> predicate_fields q \<subseteq> cols"
  shows "rel_sum (=) (progress_alike cols) (join_outer f refusal (join_index f bs keys) keys names bound p xs s)
    (join_outer f refusal (join_index f cs keys) keys names bound p ys t)"
  using assms(1,2)
proof (induction arbitrary: s t rule: list_all2_induct)
  case (Cons x xs y ys)
  let ?bucket = "\<lambda>k rows. filter (\<lambda>row. join_key f row keys = k) rows"
  have key: "join_key f x keys = join_key f y keys" using outer Cons.hyps(1) .
  have bucket: "list_all2 R (?bucket (join_key f y keys) bs) (?bucket (join_key f y keys) cs)"
    using probe by (intro list_all2_filter) simp_all
  note IH = Cons.IH and st = Cons.prems
  show ?case
  proof (cases "?bucket (join_key f y keys) cs")
    case Nil
    then have "?bucket (join_key f y keys) bs = []" using bucket by simp
    with Nil IH [OF st] show ?thesis by (simp add: key join_index_bucket)
  next
    case (Cons c rest)
    then obtain b rest' where b: "?bucket (join_key f y keys) bs = b # rest'" using bucket by (auto simp: list_all2_Cons2)
    have "rel_sum (=) (progress_alike cols) (join_matches refusal x names bound p (b # rest') s) (join_matches refusal y names bound p (c # rest) t)"
      by (rule join_matches_alike [OF bucket [unfolded b Cons] st merge [OF \<open>Q x y\<close>] p])
    then show ?thesis using IH by (cases rule: rel_sum.cases) (auto simp: key join_index_bucket b Cons dest: progress_alikeD)
  qed
qed simp


lemma rel_sum_and_then:
  assumes "rel_sum (=) R r r'" "\<And>x y. R x y \<Longrightarrow> rel_sum (=) S (f x) (g y)"
  shows "rel_sum (=) S (and_then r f) (and_then r' g)"
  using assms by (cases rule: rel_sum.cases) auto

lemma join_rows_alike:
  assumes "distinct (map co_name (ds_columns a))" "distinct (map co_name (ds_columns b))" "visibility_closed vis"
    and rows: "list_all2 (alike a vis) xs ys" "list_all2 (alike b vis) bs cs"
    and keys: "set keys \<subseteq> visible_fields (visible_to a vis)" "set keys \<subseteq> visible_fields (visible_to b vis)"
    and p: "\<And>q. p = Some q \<Longrightarrow> predicate_fields q \<subseteq> visible_fields (visible_to (merge_schemas a b) vis)"
  shows "rel_sum (=) (list_all2 (agree (visible_fields (visible_to (merge_schemas a b) vis))))
    (join_rows f xs bs keys a b bound p) (join_rows f ys cs keys a b bound p)"
proof -
  let ?cols = "visible_fields (visible_to (merge_schemas a b) vis)" and ?start = "\<lparr>jp_walked = 0, jp_merged = [], jp_full = False\<rparr>"
  have "rel_sum (=) (progress_alike ?cols)
      (join_outer f refusal (join_index f bs keys) keys (probe_only a b) bound p xs ?start)
      (join_outer f refusal (join_index f cs keys) keys (probe_only a b) bound p ys ?start)" for refusal
  proof (rule join_outer_alike [OF rows(1) _ rows(2) _ _ _ p])
    show "progress_alike ?cols ?start ?start" by (simp add: progress_alike_def)
    show "join_key f x keys = join_key f y keys" if "alike a vis x y" for x y using that join_key_agree [OF _ keys(1)] by (simp add: alike_def)
    show "join_key f x keys = join_key f y keys" if "alike b vis x y" for x y using that join_key_agree [OF _ keys(2)] by (simp add: alike_def)
  qed (rule merge_agree [OF assms(1-3)])
  then show ?thesis unfolding join_rows_def Let_def by (rule rel_sum_and_then) (simp add: progress_alike_def)
qed

lemma validate_join_fields:
  "validate_join keys a b visible = Inr u \<Longrightarrow> key \<in> set keys \<Longrightarrow>
   schema_column a key \<noteq> None \<and> schema_column b key \<noteq> None \<and> key \<in> visible_fields visible"
  by (induction keys) (auto simp: and_then_Inr_iff require_column_def visible_fields_def split: option.splits if_splits)

lemma cheap_filter_field: "cheap_filter field lits schema = Some g \<Longrightarrow> ff_column g = field \<and> field \<in> visible_fields schema"
proof -
  assume g: "cheap_filter field lits schema = Some g"
  then obtain col where col: "schema_column schema field = Some col" "ff_column g = co_name col"
    by (auto simp: cheap_filter_def Let_def split: option.splits if_splits)
  then show ?thesis using schema_column_Some [OF col(1)] by (auto simp: visible_fields_def)
qed

lemma leading_filter_field: "leading_filter p schema = Some g \<Longrightarrow> ff_column g \<in> predicate_fields p \<and> ff_column g \<in> visible_fields schema"
proof (induction p schema rule: leading_filter.induct)
  case (1 left right schema)
  then show ?case by (auto split: option.splits)
qed (auto dest: cheap_filter_field)

section \<open>Hidden rows and hidden columns stay unobservable\<close>

definition filter_visible :: "domain_schema \<Rightarrow> field_visibility \<Rightarrow> fetch_filter option \<Rightarrow> bool" where
  "filter_visible schema vis flt \<longleftrightarrow> (\<forall>g. flt = Some g \<longrightarrow> ff_column g \<in> visible_fields (visible_to schema vis))"

text \<open>Two fetches fail alike, or serve rows that agree, inside the scope, in every column of a class the caller may read.\<close>

definition fetch_alike :: "domain_schema \<Rightarrow> query_scope \<Rightarrow> (pql_error, pql_row list) result \<Rightarrow> (pql_error, pql_row list) result \<Rightarrow> bool" where
  "fetch_alike schema scope = rel_sum (=) (\<lambda>xs ys.
     list_all2 (agree (visible_fields (visible_to schema (qs_visibility scope)))) (scope_filter xs scope schema) (scope_filter ys scope schema))"

definition sources_alike :: "query_scope \<Rightarrow> data_source \<Rightarrow> data_source \<Rightarrow> bool" where
  "sources_alike scope s t \<longleftrightarrow> src_schema s = src_schema t \<and>
     (\<forall>domain schema flt. src_schema s domain = Some schema \<longrightarrow> filter_visible schema (qs_visibility scope) flt \<longrightarrow>
        fetch_alike schema scope (src_fetch s domain scope flt) (src_fetch t domain scope flt))"

lemma and_then_eqI: "r = r' \<Longrightarrow> (\<And>x. r' = Inr x \<Longrightarrow> f x = g x) \<Longrightarrow> and_then r f = and_then r' g"
  by (cases r') auto

lemma and_then_relI:
  assumes "rel_sum (=) R r r'" "\<And>x y. r = Inr x \<Longrightarrow> r' = Inr y \<Longrightarrow> R x y \<Longrightarrow> f x = g y"
  shows "and_then r f = and_then r' g"
  using assms by (cases rule: rel_sum.cases) auto

lemma fetch_alike_plain:
  assumes "visible_schema schema scope = Inr visible" "plan_resolved ast visible = Inr plan"
    and "list_all2 (agree (visible_fields (visible_to schema (qs_visibility scope)))) xs ys"
  shows "pql_finish f (retain_matching xs (ast_predicate ast)) ast plan (ds_natural_order visible) domain scope offset =
    pql_finish f (retain_matching ys (ast_predicate ast)) ast plan (ds_natural_order visible) domain scope offset"
proof -
  have visible: "visible = visible_to schema (qs_visibility scope)" "schema_column visible (ds_natural_order visible) \<noteq> None"
    using assms(1) by (auto simp: visible_schema_def Let_def split: if_splits)
  have plan: "validate_resolved ast visible = Inr plan" using assms(2) by (auto simp: plan_resolved_def and_then_Inr_iff)
  have "list_all2 (agree (visible_fields visible)) (retain_matching xs (ast_predicate ast)) (retain_matching ys (ast_predicate ast))"
    unfolding retain_matching_def
    by (rule list_all2_filter [OF assms(3) [folded visible(1)]]) (rule matches_agree [OF _ plan_fields(4) [OF plan visible(2)]])
  from finish_agree [OF plan visible(2) this] show ?thesis .
qed


lemma sources_alikeD:
  assumes "sources_alike scope s t" "require_schema t domain = Inr schema" "filter_visible schema (qs_visibility scope) flt"
  shows "fetch_alike schema scope (src_fetch s domain scope flt) (src_fetch t domain scope flt)"
  using assms by (simp add: sources_alike_def)

lemma sources_alike_schema: "sources_alike scope s t \<Longrightarrow> require_schema s domain = require_schema t domain"
  by (simp add: sources_alike_def require_schema_def)

lemma resolve_params_domain: "resolve_params rfc3339 ast schema = Inr ast' \<Longrightarrow> ast_domain ast' = ast_domain ast"
  using resolve_params_keeps by (metis ast.ext_inject ast.surjective ast.update_convs(3))

lemma fetch_plain_alike:
  assumes "sources_alike scope s t" "require_schema t (ast_domain ast) = Inr schema" "visible_schema schema scope = Inr visible"
    "resolve_params rfc3339 ast visible = Inr ast'" "plan_resolved ast' visible = Inr plan"
  shows "and_then (src_fetch s (ast_domain ast') scope (Option.bind (ast_predicate ast') (\<lambda>p. leading_filter p visible))) (\<lambda>fetched.
      Inr (pql_finish f (retain_matching (scope_filter fetched scope schema) (ast_predicate ast')) ast' plan (ds_natural_order visible) (ast_domain ast') scope offset)) =
    and_then (src_fetch t (ast_domain ast') scope (Option.bind (ast_predicate ast') (\<lambda>p. leading_filter p visible))) (\<lambda>fetched.
      Inr (pql_finish f (retain_matching (scope_filter fetched scope schema) (ast_predicate ast')) ast' plan (ds_natural_order visible) (ast_domain ast') scope offset))"
proof -
  have "filter_visible schema (qs_visibility scope) (Option.bind (ast_predicate ast') (\<lambda>p. leading_filter p visible))"
    using visible_schema_Inr [OF assms(3)] by (auto simp: filter_visible_def bind_eq_Some_conv dest: leading_filter_field)
  from sources_alikeD [OF assms(1,2) this] show ?thesis unfolding resolve_params_domain [OF assms(4)] fetch_alike_def
    by (rule and_then_relI) (simp add: fetch_alike_plain [OF assms(3,5)])
qed

lemma execute_plain_alike:
  assumes "ast_join ast = None" "sources_alike scope s t"
  shows "execute f rfc3339 ast scope cursor s = execute f rfc3339 ast scope cursor t"
  unfolding execute_def assms(1) option.case Let_def
  by (rule and_then_eqI [OF sources_alike_schema [OF assms(2)]], rule and_then_eqI [OF refl], rule and_then_eqI [OF refl],
      rule and_then_eqI [OF refl], rule and_then_eqI [OF refl], rule fetch_plain_alike [OF assms(2)], assumption+)

lemma fetched_alike:
  assumes "source_typed s" "source_typed t" "src_schema s domain = Some schema" "src_schema t domain = Some schema"
    and "src_fetch s domain scope flt = Inr xs" "src_fetch t domain scope flt = Inr ys"
    and "list_all2 (agree (visible_fields (visible_to schema vis))) (scope_filter xs scope schema) (scope_filter ys scope schema)"
  shows "list_all2 (alike schema vis) (scope_filter xs scope schema) (scope_filter ys scope schema)"
proof -
  have "\<forall>row \<in> set xs. row_conforms schema row" "\<forall>row \<in> set ys. row_conforms schema row"
    using assms(1-6) unfolding source_typed_def by blast+
  then have "\<forall>row \<in> set (scope_filter xs scope schema). row_conforms schema row" "\<forall>row \<in> set (scope_filter ys scope schema). row_conforms schema row"
    by (auto simp: scope_filter_def)
  with assms(7) show ?thesis by (auto simp: list_all2_conv_all_nth alike_def)
qed

lemma order_alike:
  assumes "list_all2 (alike a vis) xs ys" "ok_field ` set keys \<subseteq> visible_fields (visible_to a vis)"
  shows "list_all2 (alike a vis) (order_source_rows keys xs) (order_source_rows keys ys)"
  unfolding order_source_rows_def
  by (rule list_all2_sort_by [OF assms(1)]) (rule compare_agree [OF _ _ assms(2)], auto simp: alike_def)

lemma join_page_alike:
  assumes names: "distinct (map co_name (ds_columns a))" "distinct (map co_name (ds_columns b))" and closed: "visibility_closed (qs_visibility scope)"
    and merged: "visible_schema (merge_schemas a b) scope = Inr merged" and join: "validate_join keys a b merged = Inr u"
    and plan: "validate_resolved ast merged = Inr plan"
    and order: "order_by = resolved_order plan (ds_natural_order merged)" and bound: "bound = page_bound ast order_by a (pl_limit plan) offset"
    and rows: "list_all2 (alike a (qs_visibility scope)) xs ys" "list_all2 (alike b (qs_visibility scope)) bs cs"
  shows "and_then (join_rows f (if bound \<noteq> None then order_source_rows order_by xs else xs) bs keys a b bound (ast_predicate ast))
      (\<lambda>rows. Inr (pql_finish f rows ast plan (ds_natural_order merged) domain scope offset)) =
    and_then (join_rows f (if bound \<noteq> None then order_source_rows order_by ys else ys) cs keys a b bound (ast_predicate ast))
      (\<lambda>rows. Inr (pql_finish f rows ast plan (ds_natural_order merged) domain scope offset))"
proof -
  have visible: "merged = visible_to (merge_schemas a b) (qs_visibility scope)" "schema_column merged (ds_natural_order merged) \<noteq> None"
    using merged by (auto simp: visible_schema_def Let_def split: if_splits)
  note field = merged_field [OF names closed, folded visible(1)]
  have keys: "set keys \<subseteq> visible_fields (visible_to a (qs_visibility scope))" "set keys \<subseteq> visible_fields (visible_to b (qs_visibility scope))"
    using validate_join_fields [OF join] field(1,2) by blast+
  have outer: "list_all2 (alike a (qs_visibility scope)) (if bound \<noteq> None then order_source_rows order_by xs else xs)
      (if bound \<noteq> None then order_source_rows order_by ys else ys)"
  proof (cases "bound = None")
    case False
    then have agg: "ast_aggregate ast = None" and cols: "\<forall>key \<in> set order_by. schema_column a (ok_field key) \<noteq> None"
      using bound by (auto simp: page_bound_def list_ex_iff split: if_splits)
    from plan_fields(2) [OF plan visible(2) agg] cols have "ok_field ` set order_by \<subseteq> visible_fields (visible_to a (qs_visibility scope))"
      using field(1) order by blast
    with False show ?thesis using order_alike [OF rows(1)] by simp
  qed (use rows(1) in simp)
  have "rel_sum (=) (list_all2 (agree (visible_fields merged)))
      (join_rows f (if bound \<noteq> None then order_source_rows order_by xs else xs) bs keys a b bound (ast_predicate ast))
      (join_rows f (if bound \<noteq> None then order_source_rows order_by ys else ys) cs keys a b bound (ast_predicate ast))"
    unfolding visible(1) by (rule join_rows_alike [OF names closed outer rows(2) keys plan_fields(4) [OF plan visible(2), unfolded visible(1)]])
  then show ?thesis by (rule and_then_relI) (simp add: finish_agree [OF plan visible(2)])
qed

lemma fetch_join_alike:
  fixes f :: pql_fmt
  assumes alike: "sources_alike scope s t" and typed: "source_typed s" "source_typed t" and closed: "visibility_closed (qs_visibility scope)"
    and schemas: "require_schema t (ast_domain ast0) = Inr a" "require_schema t (jn_domain join) = Inr b"
    and merged: "visible_schema (merge_schemas a b) scope = Inr merged" and join: "validate_join (jn_on join) a b merged = Inr u"
    and par: "resolve_params rfc3339 ast0 merged = Inr ast" and plan: "validate_resolved ast merged = Inr plan"
  defines "order_by \<equiv> resolved_order plan (ds_natural_order merged)"
  defines "bound \<equiv> \<lambda>offset. page_bound ast order_by a (pl_limit plan) offset"
  defines "tail \<equiv> \<lambda>source offset domain.
    and_then (src_fetch source (ast_domain ast) scope (Option.bind (ast_predicate ast) (\<lambda>p. leading_filter p a))) (\<lambda>xs.
    and_then (src_fetch source (jn_domain join) scope None) (\<lambda>bs.
    and_then (join_rows f (if bound offset \<noteq> None then order_source_rows order_by (scope_filter xs scope a) else scope_filter xs scope a)
        (scope_filter bs scope b) (jn_on join) a b (bound offset) (ast_predicate ast))
      (\<lambda>rows. Inr (pql_finish f rows ast plan (ds_natural_order merged) domain scope offset))))"
  shows "tail s offset domain = tail t offset domain"
proof -
  have visible: "merged = visible_to (merge_schemas a b) (qs_visibility scope)" "schema_column merged (ds_natural_order merged) \<noteq> None"
    using merged by (auto simp: visible_schema_def Let_def split: if_splits)
  have t: "src_schema t (ast_domain ast) = Some a" "src_schema t (jn_domain join) = Some b" using schemas by (simp_all add: resolve_params_domain [OF par])
  then have s: "src_schema s (ast_domain ast) = Some a" "src_schema s (jn_domain join) = Some b" using alike by (simp_all add: sources_alike_def)
  have names: "distinct (map co_name (ds_columns a))" "distinct (map co_name (ds_columns b))" using typed(2) t unfolding source_typed_def by blast+
  have "ff_column g \<in> visible_fields (visible_to a (qs_visibility scope))" if "ast_predicate ast = Some p" "leading_filter p a = Some g" for p g
  proof -
    have "ff_column g \<in> visible_fields merged" "schema_column a (ff_column g) \<noteq> None"
      using leading_filter_field [OF that(2)] plan_fields(4) [OF plan visible(2) that(1)] by (auto simp: visible_fields_def)
    then show ?thesis using merged_field(1) [OF names closed, folded visible(1)] by blast
  qed
  then have "filter_visible a (qs_visibility scope) (Option.bind (ast_predicate ast) (\<lambda>p. leading_filter p a))"
    by (auto simp: filter_visible_def bind_eq_Some_conv)
  then have outer: "fetch_alike a scope (src_fetch s (ast_domain ast) scope (Option.bind (ast_predicate ast) (\<lambda>p. leading_filter p a)))
      (src_fetch t (ast_domain ast) scope (Option.bind (ast_predicate ast) (\<lambda>p. leading_filter p a)))"
    using t(1) by (intro sources_alikeD [OF alike]) simp_all
  have probe: "fetch_alike b scope (src_fetch s (jn_domain join) scope None) (src_fetch t (jn_domain join) scope None)"
    by (rule sources_alikeD [OF alike schemas(2)]) (simp add: filter_visible_def)
  show ?thesis unfolding tail_def
    by (rule and_then_relI [OF outer [unfolded fetch_alike_def]], rule and_then_relI [OF probe [unfolded fetch_alike_def]],
      rule join_page_alike [OF names closed merged join plan order_by_def [THEN meta_eq_to_obj_eq] bound_def [THEN meta_eq_to_obj_eq, THEN fun_cong]])
      (rule fetched_alike [OF typed s(1) t(1)] fetched_alike [OF typed s(2) t(2)], assumption+)+
qed

lemma execute_join_alike:
  assumes "sources_alike scope s t" "source_typed s" "source_typed t" "visibility_closed (qs_visibility scope)"
  shows "execute_join f rfc3339 ast join scope cursor s = execute_join f rfc3339 ast join scope cursor t"
  unfolding execute_join_def Let_def
  by (rule and_then_eqI [OF sources_alike_schema [OF assms(1)]], rule and_then_eqI [OF sources_alike_schema [OF assms(1)]],
      rule and_then_eqI [OF refl], rule and_then_eqI [OF refl], rule and_then_eqI [OF refl], rule and_then_eqI [OF refl],
      rule and_then_eqI [OF refl], rule and_then_eqI [OF refl], rule and_then_eqI [OF refl], rule fetch_join_alike [OF assms], assumption+)

section \<open>The classes a caller may read\<close>

datatype identity_scope =
    RepositoryRead | RepositoryWrite | RepositoryDelete | OperatorRead | AnalyticsRead | AdministrationRead | AdministrationWrite

datatype deny_reason = NoGrant | StorageUnavailable

datatype authz_decision = AuthzAllow | AuthzDeny deny_reason

record scoped_decision =
  sd_scope :: identity_scope
  sd_decision :: authz_decision

datatype response_authorization = PublicResponse | RepositoryResponse | ScopedResponse scoped_decision

fun scope_class :: "identity_scope \<Rightarrow> field_class" where
  "scope_class OperatorRead = ClOperator"
| "scope_class AnalyticsRead = ClOperator"
| "scope_class AdministrationRead = ClAdministrator"
| "scope_class AdministrationWrite = ClAdministrator"
| "scope_class RepositoryRead = ClRepository"
| "scope_class RepositoryWrite = ClRepository"
| "scope_class RepositoryDelete = ClRepository"

text \<open>The class of the audience a response is written for; a denied decision has none.\<close>

fun classification :: "response_authorization \<Rightarrow> field_class option" where
  "classification PublicResponse = Some ClPublic"
| "classification RepositoryResponse = Some ClRepository"
| "classification (ScopedResponse d) = (if sd_decision d = AuthzAllow then Some (scope_class (sd_scope d)) else None)"

fun class_visible_to :: "field_class \<Rightarrow> field_class \<Rightarrow> bool" where
  "class_visible_to ClPublic audience = True"
| "class_visible_to ClRepository audience = (audience = ClRepository \<or> audience = ClAdministrator)"
| "class_visible_to ClOperator audience = (audience = ClOperator \<or> audience = ClAdministrator)"
| "class_visible_to ClAdministrator audience = (audience = ClAdministrator)"

definition visible_class :: "field_class \<Rightarrow> response_authorization \<Rightarrow> bool" where
  "visible_class cl response = (case classification response of None \<Rightarrow> False | Some audience \<Rightarrow> class_visible_to cl audience)"

definition visibility :: "response_authorization \<Rightarrow> field_visibility" where
  "visibility response = set (filter (\<lambda>cl. visible_class cl response) [ClPublic, ClRepository, ClOperator, ClAdministrator])"

lemma visibility_classes: "cl \<in> visibility response \<longleftrightarrow> visible_class cl response"
  by (cases cl) (simp_all add: visibility_def)

text \<open>Every audience but an operator's reads the less restricted classes of those it reads; an operator reads no repository column.\<close>

lemma visibility_closed_iff: "visibility_closed (visibility response) \<longleftrightarrow> classification response \<noteq> Some ClOperator"
proof (cases "classification response")
  case None
  then show ?thesis by (simp add: visibility_closed_def Ball_def visibility_classes visible_class_def)
next
  case (Some audience)
  have all: "(\<forall>c. P c) \<longleftrightarrow> P ClPublic \<and> P ClRepository \<and> P ClOperator \<and> P ClAdministrator" for P by (metis field_class.exhaust)
  show ?thesis using Some by (cases audience) (simp_all add: visibility_closed_def visibility_classes visible_class_def Ball_def all)
qed

text \<open>A column one side of a join classes repository and the other operator is readable to an operator in the join alone.\<close>

lemma operator_reads_merged_class:
  "visible_class (most_restrictive ClRepository ClOperator) (ScopedResponse \<lparr>sd_scope = OperatorRead, sd_decision = AuthzAllow\<rparr>)
   \<and> \<not> visible_class ClRepository (ScopedResponse \<lparr>sd_scope = OperatorRead, sd_decision = AuthzAllow\<rparr>)"
  by (simp add: visible_class_def most_restrictive_def)

section \<open>The theorem\<close>

text \<open>C11: What a caller may not read cannot shape an answer. Two typed sources that fail alike, or serve rows which
  inside the scope agree in every column of a class the caller may read, answer every query alike: same page, same cursor,
  same error. Nothing relates the rows outside the scope and the cells of hidden columns, so no filter, order, group,
  aggregate or join key reveals them. A join needs the readable classes to be closed under less restricted ones, which holds
  for every audience but an operator's (\<open>visibility_closed_iff\<close>); a query of one domain needs nothing.\<close>

theorem hidden_data_unobservable:
  assumes "source_typed s" "source_typed t" "sources_alike scope s t" "ast_join ast \<noteq> None \<Longrightarrow> visibility_closed (qs_visibility scope)"
  shows "execute f rfc3339 ast scope cursor s = execute f rfc3339 ast scope cursor t"
proof (cases "ast_join ast")
  case None
  then show ?thesis by (rule execute_plain_alike [OF _ assms(3)])
next
  case (Some join)
  then show ?thesis using execute_join_alike [OF assms(3,1,2)] assms(4) by (simp add: execute_def)
qed


lemma log_source_typed: "source_typed (log_source meta limit log tree)"
  unfolding source_typed_def log_source_def log_rows_def
  using schema_names_distinct usage_row_conforms policy_row_conforms by (auto split: if_splits)

definition sample_join_query :: ast where
  "sample_join_query = \<lparr>ast_domain = USAGE_DOMAIN, ast_join = Some \<lparr>jn_domain = POLICY_DOMAIN, jn_on = [''resource'']\<rparr>,
     ast_predicate = Some (PCompare ''resource'' OpEq (LStr ''p'')), ast_selection = SelColumns [''resource'', ''reads'', ''state''],
     ast_aggregate = None, ast_order_by = [], ast_limit = None\<rparr>"

definition sample_token_scope :: query_scope where
  "sample_token_scope = \<lparr>qs_repositories = OnlyRepos {|''r''|}, qs_visibility = visibility RepositoryResponse, qs_fingerprint = ''repository|r''\<rparr>"

definition sample_join_source :: "stats_tree \<Rightarrow> data_source" where
  "sample_join_source tree = log_source meta_store_empty 1 [sample_record ''u1'' Deny, sample_record ''u2'' Allow] tree"

definition sample_seen :: stats_tree where
  "sample_seen = [(''q'', [(''p'', 9, 9)]), (''r'', [(''p'', 2, 10), (''s'', 1, 20)])]"

definition sample_unseen :: stats_tree where
  "sample_unseen = [(''r'', [(''p'', 2, 70), (''s'', 1, 0)]), (''z'', [(''p'', 1, 1)])]"

lemma sample_seen_page:
  "(case execute sample_fmt (\<lambda>_. None) sample_usage_query sample_token_scope None (sample_join_source sample_seen) of
      Inr page \<Rightarrow> pg_rows page = [[VStr ''r'', VStr ''p'', VInt 2]] | Inl _ \<Rightarrow> False)"
  by code_simp

lemma sample_rows:
  "scope_filter (map usage_row (usage_totals sample_seen None)) sample_token_scope usage_schema =
     map usage_row [\<lparr>ru_repository = ''r'', ru_resource = ''p'', ru_reads = 2, ru_bytes = 10\<rparr>, \<lparr>ru_repository = ''r'', ru_resource = ''s'', ru_reads = 1, ru_bytes = 20\<rparr>]"
  "scope_filter (map usage_row (usage_totals sample_unseen None)) sample_token_scope usage_schema =
     map usage_row [\<lparr>ru_repository = ''r'', ru_resource = ''p'', ru_reads = 2, ru_bytes = 70\<rparr>, \<lparr>ru_repository = ''r'', ru_resource = ''s'', ru_reads = 1, ru_bytes = 0\<rparr>]"
  by code_simp+


lemma sample_sources_alike: "sources_alike sample_token_scope (sample_join_source sample_seen) (sample_join_source sample_unseen)"
proof -
  have vis: "visible_fields (visible_to usage_schema (qs_visibility sample_token_scope)) = {''repository'', ''resource'', ''reads''}"
    unfolding visible_fields_columns by code_simp
  have "fetch_alike usage_schema sample_token_scope (Inr (map usage_row (usage_totals sample_seen None))) (Inr (map usage_row (usage_totals sample_unseen None)))"
    unfolding fetch_alike_def vis by (simp add: sample_rows agree_def usage_row_def row_with_def row_get_def)
  moreover have "fetch_alike schema sample_token_scope (Inr rows) (Inr rows)" for schema rows
    by (simp add: fetch_alike_def agree_def list_all2_same)
  ultimately show ?thesis by (auto simp: sources_alike_def sample_join_source_def log_source_def)
qed

theorem hidden_data_unobservable_witness:
  "usage_totals sample_seen None \<noteq> usage_totals sample_unseen None
   \<and> execute sample_fmt (\<lambda>_. None) sample_join_query sample_token_scope None (sample_join_source sample_seen) =
       execute sample_fmt (\<lambda>_. None) sample_join_query sample_token_scope None (sample_join_source sample_unseen)
   \<and> (\<exists>page. execute sample_fmt (\<lambda>_. None) sample_usage_query sample_token_scope None (sample_join_source sample_unseen) = Inr page
        \<and> pg_rows page = [[VStr ''r'', VStr ''p'', VInt 2]])"
proof -
  have closed: "visibility_closed (qs_visibility sample_token_scope)" by (simp add: sample_token_scope_def visibility_closed_iff)
  have typed: "source_typed (sample_join_source tree)" for tree unfolding sample_join_source_def by (rule log_source_typed)
  note same = hidden_data_unobservable [OF typed typed sample_sources_alike closed]
  have "usage_totals sample_seen None \<noteq> usage_totals sample_unseen None" by code_simp
  moreover have "\<exists>page. execute sample_fmt (\<lambda>_. None) sample_usage_query sample_token_scope None (sample_join_source sample_unseen) = Inr page
      \<and> pg_rows page = [[VStr ''r'', VStr ''p'', VInt 2]]"
    using sample_seen_page unfolding same by (auto split: sum.splits)
  ultimately show ?thesis using same by blast
qed

end
