(* ===== verification/Pql_Parse.thy ===== *)
theory Pql_Parse
  imports Pql
begin

text \<open>
  The lexer, the recursive-descent parser and parameter binding of \<open>peryx-pql/src/parse.rs\<close>. The parser's methods take the
  remaining tokens and return those they leave; recursion and its loops descend on the nesting budget.
\<close>

section \<open>Binding\<close>

definition bind_literal :: "(string, pql_value) fmap \<Rightarrow> pql_literal \<Rightarrow> (pql_error, pql_literal) result" where
  "bind_literal params lit =
     (case lit of
        LParam name \<Rightarrow>
          (case fmlookup params name of
             None \<Rightarrow> Inl (MissingParameter name)
           | Some VNull \<Rightarrow> Inl (MissingParameter name)
           | Some v \<Rightarrow> Inr (LBoundParam name v))
      | _ \<Rightarrow> Inr lit)"

fun bind_literals :: "(string, pql_value) fmap \<Rightarrow> pql_literal list \<Rightarrow> (pql_error, pql_literal list) result" where
  "bind_literals params [] = Inr []"
| "bind_literals params (lit # lits) =
     and_then (bind_literal params lit) (\<lambda>lit'. and_then (bind_literals params lits) (\<lambda>lits'. Inr (lit' # lits')))"

fun bind_predicate :: "(string, pql_value) fmap \<Rightarrow> predicate \<Rightarrow> (pql_error, predicate) result" where
  "bind_predicate params (POr left right) =
     and_then (bind_predicate params left) (\<lambda>left'. and_then (bind_predicate params right) (\<lambda>right'. Inr (POr left' right')))"
| "bind_predicate params (PAnd left right) =
     and_then (bind_predicate params left) (\<lambda>left'. and_then (bind_predicate params right) (\<lambda>right'. Inr (PAnd left' right')))"
| "bind_predicate params (PNot inner) = and_then (bind_predicate params inner) (\<lambda>inner'. Inr (PNot inner'))"
| "bind_predicate params (PCompare field op v) = and_then (bind_literal params v) (\<lambda>v'. Inr (PCompare field op v'))"
| "bind_predicate params (PIn field vs) = and_then (bind_literals params vs) (\<lambda>vs'. Inr (PIn field vs'))"
| "bind_predicate params (PStartsWith field prefix) = and_then (bind_literal params prefix) (\<lambda>prefix'. Inr (PStartsWith field prefix'))"

definition pql_bind :: "ast \<Rightarrow> (string, pql_value) fmap \<Rightarrow> (pql_error, ast) result" where
  "pql_bind ast params =
     (case ast_predicate ast of
        None \<Rightarrow> Inr ast
      | Some p \<Rightarrow> and_then (bind_predicate params p) (\<lambda>p'. Inr (ast\<lparr>ast_predicate := Some p'\<rparr>)))"

section \<open>Tokens\<close>

datatype token =
  TkIdent string
| TkStr string
| TkInt i64
| TkTimestamp i64
| TkParam string
| TkOp compare_op
| TkStar
| TkLParen
| TkRParen
| TkComma

definition is_alphabetic :: "char \<Rightarrow> bool" where
  "is_alphabetic c \<longleftrightarrow> (CHR ''a'' \<le> c \<and> c \<le> CHR ''z'') \<or> (CHR ''A'' \<le> c \<and> c \<le> CHR ''Z'')"

definition is_numeric :: "char \<Rightarrow> bool" where
  "is_numeric c \<longleftrightarrow> CHR ''0'' \<le> c \<and> c \<le> CHR ''9''"

definition is_ident_start :: "char \<Rightarrow> bool" where
  "is_ident_start c \<longleftrightarrow> is_alphabetic c \<or> c = CHR ''_''"

definition is_ident_continue :: "char \<Rightarrow> bool" where
  "is_ident_continue c \<longleftrightarrow> is_alphabetic c \<or> is_numeric c \<or> c \<in> {CHR ''_'', CHR ''.'', CHR ''-'', CHR '':'', CHR ''+''}"

text \<open>\<open>token_end\<close>: the text up to the end of the token, and what follows it.\<close>

definition token_text :: "string \<Rightarrow> string \<times> string" where
  "token_text text = (takeWhile is_ident_continue text, dropWhile is_ident_continue text)"

definition lex_operator :: "string \<Rightarrow> (pql_error, compare_op \<times> string) result" where
  "lex_operator text =
     (case text of
        a # b # rest \<Rightarrow>
          if a = CHR ''='' \<and> b = CHR ''='' then Inr (OpEq, rest)
          else if a = CHR ''!'' \<and> b = CHR ''='' then Inr (OpNe, rest)
          else if a = CHR ''<'' \<and> b = CHR ''='' then Inr (OpLe, rest)
          else if a = CHR ''>'' \<and> b = CHR ''='' then Inr (OpGe, rest)
          else if a = CHR ''<'' then Inr (OpLt, b # rest)
          else if a = CHR ''>'' then Inr (OpGt, b # rest)
          else Inl (PqlParse ''unexpected operator'')
      | [a] \<Rightarrow>
          if a = CHR ''<'' then Inr (OpLt, [])
          else if a = CHR ''>'' then Inr (OpGt, [])
          else Inl (PqlParse ''unexpected operator'')
      | [] \<Rightarrow> Inl (PqlParse ''unexpected operator''))"

text \<open>After the opening quote. Quotes and backslashes are single bytes of UTF-8, so reading bytes reads characters.\<close>

fun lex_string :: "string \<Rightarrow> string \<Rightarrow> (pql_error, string \<times> string) result" where
  "lex_string acc [] = Inl (PqlParse ''unterminated string'')"
| "lex_string acc (c # rest) =
     (if c = CHR 0x22 then Inr (acc, rest)
      else if c = CHR 0x5C then
        (case rest of
           d # rest' \<Rightarrow>
             if d = CHR 0x22 \<or> d = CHR 0x5C then lex_string (acc @ [d]) rest'
             else Inl (PqlParse ''invalid string escape'')
         | [] \<Rightarrow> Inl (PqlParse ''invalid string escape''))
      else lex_string (acc @ [c]) rest)"

definition digits_value :: "string \<Rightarrow> int" where
  "digits_value ds = foldl (\<lambda>n d. 10 * n + (of_char d - 48)) 0 ds"

text \<open>\<open>str::parse::<i64>\<close>.\<close>

definition parse_i64 :: "string \<Rightarrow> i64 option" where
  "parse_i64 text =
     (let (negative, ds) = (case text of
            c # rest \<Rightarrow> if c = CHR ''-'' then (True, rest) else if c = CHR ''+'' then (False, rest) else (False, text)
          | [] \<Rightarrow> (False, []))
      in if ds = [] \<or> \<not> list_all is_numeric ds then None
         else let n = (if negative then - digits_value ds else digits_value ds)
           in if is_i64 n then Some n else None)"

definition lex_param :: "string \<Rightarrow> (pql_error, token \<times> string) result" where
  "lex_param text =
     (case token_text text of (name, rest) \<Rightarrow>
        if name = [] \<or> \<not> list_all is_ident_continue name then Inl (PqlParse ''invalid parameter name'') else Inr (TkParam name, rest))"

definition lex_number :: "string \<Rightarrow> (pql_error, token \<times> string) result" where
  "lex_number text =
     (case token_text text of (lit, rest) \<Rightarrow>
        (case parse_i64 lit of Some n \<Rightarrow> Inr (TkInt n, rest) | None \<Rightarrow> Inl (PqlParse ''invalid integer literal'')))"

definition lex_timestamp :: "(string \<Rightarrow> i64 option) \<Rightarrow> string \<Rightarrow> (pql_error, token \<times> string) result" where
  "lex_timestamp rfc3339 text =
     (case token_text text of (lit, rest) \<Rightarrow>
        (case rfc3339 lit of Some n \<Rightarrow> Inr (TkTimestamp n, rest) | None \<Rightarrow> Inl (PqlParse ''invalid timestamp literal'')))"

text \<open>The arms of the lexer's \<open>match\<close> on a byte, and one step of it: the token at the head of the text, or \<open>None\<close> for a
  space.\<close>

datatype byte_class = BySpace | ByPunct token | ByOperator | ByQuote | ByAt | ByColon | ByNumber | ByIdent | ByOther

definition byte_class_of :: "char \<Rightarrow> byte_class" where
  "byte_class_of c =
     (if c \<in> {CHR '' '', CHR 0x09, CHR 0x0D, CHR 0x0A} then BySpace
      else if c = CHR ''('' then ByPunct TkLParen
      else if c = CHR '')'' then ByPunct TkRParen
      else if c = CHR '','' then ByPunct TkComma
      else if c = CHR ''*'' then ByPunct TkStar
      else if c \<in> {CHR ''='', CHR ''!'', CHR ''<'', CHR ''>''} then ByOperator
      else if c = CHR 0x22 then ByQuote
      else if c = CHR ''@'' then ByAt
      else if c = CHR '':'' then ByColon
      else if c = CHR ''-'' \<or> is_numeric c then ByNumber
      else if is_ident_start c then ByIdent
      else ByOther)"

definition lex_token :: "(string \<Rightarrow> i64 option) \<Rightarrow> char \<Rightarrow> string \<Rightarrow> (pql_error, token option \<times> string) result" where
  "lex_token rfc3339 c rest =
     (let tok = (\<lambda>r. and_then r (\<lambda>(t, rest'). Inr (Some t, rest'))) in
      case byte_class_of c of
        BySpace \<Rightarrow> Inr (None, rest)
      | ByPunct t \<Rightarrow> Inr (Some t, rest)
      | ByOperator \<Rightarrow> and_then (lex_operator (c # rest)) (\<lambda>(op, rest'). Inr (Some (TkOp op), rest'))
      | ByQuote \<Rightarrow> and_then (lex_string [] rest) (\<lambda>(s, rest'). Inr (Some (TkStr s), rest'))
      | ByAt \<Rightarrow> tok (lex_timestamp rfc3339 rest)
      | ByColon \<Rightarrow> tok (lex_param rest)
      | ByNumber \<Rightarrow> tok (lex_number (c # rest))
      | ByIdent \<Rightarrow> (case token_text (c # rest) of (word, rest') \<Rightarrow> Inr (Some (TkIdent word), rest'))
      | ByOther \<Rightarrow> Inl (PqlParse ''unexpected character''))"

lemma lex_string_shorter: "lex_string acc input = Inr (s, rest) \<Longrightarrow> length rest < length input"
proof (induction acc input rule: lex_string.induct)
  case (2 acc c rest0)
  then show ?case by (fastforce split: if_splits list.splits)
qed simp

lemma token_text_shorter: "token_text input = (t, rest) \<Longrightarrow> length rest \<le> length input"
  by (auto simp: token_text_def length_dropWhile_le)

lemma token_text_progress: "token_text (c # input) = (t, rest) \<Longrightarrow> is_ident_continue c \<Longrightarrow> length rest \<le> length input"
  by (auto simp: token_text_def length_dropWhile_le)

lemma lex_operator_shorter: "lex_operator (c # input) = Inr (op, rest) \<Longrightarrow> length rest \<le> length input"
  by (auto simp: lex_operator_def split: list.splits if_splits)

lemma ident_continue_start:
  assumes "byte_class_of c = ByNumber \<or> byte_class_of c = ByIdent"
  shows "is_ident_continue c"
proof (rule ccontr)
  assume "\<not> is_ident_continue c"
  then have "\<not> (c = CHR ''-'' \<or> is_numeric c)" "\<not> is_ident_start c" by (auto simp: is_ident_continue_def is_ident_start_def)
  then have "byte_class_of c \<noteq> ByNumber" "byte_class_of c \<noteq> ByIdent" by (simp_all only: byte_class_of_def if_False split: if_split) simp_all
  with assms show False by simp
qed

lemma lex_number_shorter:
  "lex_number (c # input) = Inr (t, rest) \<Longrightarrow> is_ident_continue c \<Longrightarrow> length rest \<le> length input"
  by (cases "token_text (c # input)") (auto simp: lex_number_def dest!: token_text_progress split: option.splits)

lemma lex_word_shorter:
  "lex_timestamp rfc3339 input = Inr (t, rest) \<Longrightarrow> length rest \<le> length input"
  "lex_param input = Inr (t, rest) \<Longrightarrow> length rest \<le> length input"
  using token_text_shorter [of input]
  by (cases "token_text input"; auto simp: lex_timestamp_def lex_param_def split: option.splits if_splits)+

lemma lex_token_shorter: "lex_token rfc3339 c input = Inr (t, rest) \<Longrightarrow> length rest \<le> length input"
  using lex_string_shorter [of "[]" input] lex_number_shorter [of c input] token_text_progress [of c input] ident_continue_start [of c]
  by (cases "byte_class_of c")
    (auto simp: lex_token_def and_then_Inr_iff dest: lex_operator_shorter lex_word_shorter less_imp_le split: prod.splits)

function lex :: "(string \<Rightarrow> i64 option) \<Rightarrow> string \<Rightarrow> (pql_error, token list) result" where
  "lex rfc3339 [] = Inr []"
| "lex rfc3339 (c # text) =
     (case lex_token rfc3339 c text of
        Inl e \<Rightarrow> Inl e
      | Inr (t, rest) \<Rightarrow> and_then (lex rfc3339 rest) (\<lambda>tokens. Inr ((case t of None \<Rightarrow> [] | Some t \<Rightarrow> [t]) @ tokens)))"
  by pat_completeness auto
termination
  by (relation "measure (\<lambda>(_, text). length text)") (auto dest: lex_token_shorter)

section \<open>The parser\<close>

type_synonym 'a parsed = "(pql_error, 'a \<times> token list) result"

lemma and_then_cong [fundef_cong]:
  "r = r' \<Longrightarrow> (\<And>a. r' = Inr a \<Longrightarrow> f a = g a) \<Longrightarrow> and_then r f = and_then r' g"
  by (cases r') auto

definition MAX_QUERY_BYTES :: usize where
  "MAX_QUERY_BYTES = 4096"

definition MAX_PREDICATE_DEPTH :: usize where
  "MAX_PREDICATE_DEPTH = 32"

definition deepen :: "usize \<Rightarrow> (pql_error, usize) result" where
  "deepen depth = (if depth \<ge> MAX_PREDICATE_DEPTH then Inl (PqlParse ''predicate nests too deeply'') else Inr (depth + 1))"

fun p_name :: "token list \<Rightarrow> string parsed" where
  "p_name (TkIdent word # rest) = Inr (word, rest)"
| "p_name _ = Inl (PqlParse ''expected an identifier'')"

fun at_keyword :: "string \<Rightarrow> token list \<Rightarrow> bool" where
  "at_keyword expected (TkIdent word # _) \<longleftrightarrow> word = expected"
| "at_keyword expected _ \<longleftrightarrow> False"

definition p_keyword :: "string \<Rightarrow> token list \<Rightarrow> (pql_error, token list) result" where
  "p_keyword expected tokens =
     (if at_keyword expected tokens then Inr (tl tokens) else Inl (PqlParse (''expected '' @ quoted expected)))"

definition at_token :: "token \<Rightarrow> token list \<Rightarrow> bool" where
  "at_token expected tokens \<longleftrightarrow> tokens \<noteq> [] \<and> hd tokens = expected"

definition p_expect :: "token \<Rightarrow> token list \<Rightarrow> (pql_error, token list) result" where
  "p_expect expected tokens = (if at_token expected tokens then Inr (tl tokens) else Inl (PqlParse ''unexpected token''))"

fun p_literal :: "token list \<Rightarrow> pql_literal parsed" where
  "p_literal (TkStr v # rest) = Inr (LStr v, rest)"
| "p_literal (TkInt v # rest) = Inr (LInt v, rest)"
| "p_literal (TkTimestamp v # rest) = Inr (LTimestamp v, rest)"
| "p_literal (TkParam name # rest) = Inr (LParam name, rest)"
| "p_literal (TkIdent word # rest) =
     (if word = ''true'' then Inr (LBool True, rest)
      else if word = ''false'' then Inr (LBool False, rest)
      else Inl (PqlParse ''expected a literal''))"
| "p_literal _ = Inl (PqlParse ''expected a literal'')"

lemma p_name_shorter: "p_name tokens = Inr (n, rest) \<Longrightarrow> length rest < length tokens"
  by (cases tokens rule: p_name.cases) auto

lemma p_literal_shorter: "p_literal tokens = Inr (v, rest) \<Longrightarrow> length rest < length tokens"
  by (cases tokens rule: p_literal.cases) (auto split: if_splits)

lemma p_keyword_shorter: "p_keyword k tokens = Inr rest \<Longrightarrow> length rest < length tokens"
  by (cases tokens) (auto simp: p_keyword_def split: if_splits)

lemma p_expect_shorter: "p_expect t tokens = Inr rest \<Longrightarrow> length rest < length tokens"
  by (cases tokens) (auto simp: p_expect_def at_token_def split: if_splits)

lemma at_token_tl [simp]: "at_token t tokens \<Longrightarrow> length (tl tokens) < length tokens"
  by (cases tokens) (auto simp: at_token_def)

text \<open>The loops over comma-separated lists.\<close>

function p_more_names :: "string list \<Rightarrow> token list \<Rightarrow> string list parsed" where
  "p_more_names acc tokens =
     (if at_token TkComma tokens then and_then (p_name (tl tokens)) (\<lambda>(x, rest). p_more_names (acc @ [x]) rest)
      else Inr (acc, tokens))"
  by auto
termination
  by (relation "measure (\<lambda>(_, tokens). length tokens)") (auto dest!: p_name_shorter intro: less_trans)

function p_more_literals :: "pql_literal list \<Rightarrow> token list \<Rightarrow> pql_literal list parsed" where
  "p_more_literals acc tokens =
     (if at_token TkComma tokens then and_then (p_literal (tl tokens)) (\<lambda>(x, rest). p_more_literals (acc @ [x]) rest)
      else Inr (acc, tokens))"
  by auto
termination
  by (relation "measure (\<lambda>(_, tokens). length tokens)") (auto dest!: p_literal_shorter intro: less_trans)

declare p_more_names.simps [simp del] p_more_literals.simps [simp del]

definition p_names :: "token list \<Rightarrow> string list parsed" where
  "p_names tokens = and_then (p_name tokens) (\<lambda>(x, rest). p_more_names [x] rest)"

section \<open>Predicates\<close>

definition p_membership :: "string \<Rightarrow> token list \<Rightarrow> predicate parsed" where
  "p_membership field tokens =
     and_then (p_expect TkLParen tokens) (\<lambda>tokens.
     and_then (p_literal tokens) (\<lambda>(v, tokens).
     and_then (p_more_literals [v] tokens) (\<lambda>(vs, tokens).
     and_then (p_expect TkRParen tokens) (\<lambda>tokens. Inr (PIn field vs, tokens)))))"

fun p_operator :: "token list \<Rightarrow> compare_op parsed" where
  "p_operator (TkOp op # rest) = Inr (op, rest)"
| "p_operator _ = Inl (PqlParse ''expected a comparison operator'')"

definition p_comparison :: "token list \<Rightarrow> predicate parsed" where
  "p_comparison tokens =
     and_then (p_name tokens) (\<lambda>(field, tokens).
       if at_keyword ''in'' tokens then p_membership field (tl tokens)
       else if at_keyword ''starts_with'' tokens
       then and_then (p_literal (tl tokens)) (\<lambda>(prefix, tokens). Inr (PStartsWith field prefix, tokens))
       else and_then (p_operator tokens) (\<lambda>(op, tokens).
         and_then (p_literal tokens) (\<lambda>(v, tokens). Inr (PCompare field op v, tokens))))"

function p_predicate :: "usize \<Rightarrow> token list \<Rightarrow> predicate parsed"
  and p_or :: "usize \<Rightarrow> predicate \<Rightarrow> token list \<Rightarrow> predicate parsed"
  and p_and_expr :: "usize \<Rightarrow> token list \<Rightarrow> predicate parsed"
  and p_and :: "usize \<Rightarrow> predicate \<Rightarrow> token list \<Rightarrow> predicate parsed"
  and p_unary :: "usize \<Rightarrow> token list \<Rightarrow> predicate parsed" where
  "p_predicate depth tokens = and_then (p_and_expr depth tokens) (\<lambda>(left, tokens). p_or depth left tokens)"
| "p_or depth left tokens =
     (if at_keyword ''or'' tokens
      then and_then (deepen depth) (\<lambda>depth.
        and_then (p_and_expr depth (tl tokens)) (\<lambda>(right, tokens). p_or depth (POr left right) tokens))
      else Inr (left, tokens))"
| "p_and_expr depth tokens = and_then (p_unary depth tokens) (\<lambda>(left, tokens). p_and depth left tokens)"
| "p_and depth left tokens =
     (if at_keyword ''and'' tokens
      then and_then (deepen depth) (\<lambda>depth.
        and_then (p_unary depth (tl tokens)) (\<lambda>(right, tokens). p_and depth (PAnd left right) tokens))
      else Inr (left, tokens))"
| "p_unary depth tokens =
     (if at_keyword ''not'' tokens
      then and_then (deepen depth) (\<lambda>depth.
        and_then (p_unary depth (tl tokens)) (\<lambda>(inner, tokens). Inr (PNot inner, tokens)))
      else if at_token TkLParen tokens
      then and_then (deepen depth) (\<lambda>depth.
        and_then (p_predicate depth (tl tokens)) (\<lambda>(inner, tokens).
          and_then (p_expect TkRParen tokens) (\<lambda>tokens. Inr (inner, tokens))))
      else p_comparison tokens)"
  by pat_completeness auto
termination
  by (relation "measure (\<lambda>x. case x of
      Inl (Inl (depth, _)) \<Rightarrow> 4 * (MAX_PREDICATE_DEPTH - depth) + 3
    | Inl (Inr (depth, _)) \<Rightarrow> 4 * (MAX_PREDICATE_DEPTH - depth)
    | Inr (Inl (depth, _)) \<Rightarrow> 4 * (MAX_PREDICATE_DEPTH - depth) + 2
    | Inr (Inr (Inl (depth, _))) \<Rightarrow> 4 * (MAX_PREDICATE_DEPTH - depth)
    | Inr (Inr (Inr (depth, _))) \<Rightarrow> 4 * (MAX_PREDICATE_DEPTH - depth) + 1)")
    (auto simp: deepen_def split: if_splits)

declare p_predicate.simps [simp del] p_or.simps [simp del] p_and_expr.simps [simp del] p_and.simps [simp del] p_unary.simps [simp del]

section \<open>Clauses\<close>

definition p_join_clause :: "token list \<Rightarrow> pql_join option parsed" where
  "p_join_clause tokens =
     (if \<not> at_keyword ''join'' tokens then Inr (None, tokens)
      else and_then (p_name (tl tokens)) (\<lambda>(domain, tokens).
        and_then (p_keyword ''on'' tokens) (\<lambda>tokens.
          and_then (p_names tokens) (\<lambda>(on_keys, tokens). Inr (Some \<lparr>jn_domain = domain, jn_on = on_keys\<rparr>, tokens)))))"

definition p_where_clause :: "token list \<Rightarrow> predicate option parsed" where
  "p_where_clause tokens =
     (if \<not> at_keyword ''where'' tokens then Inr (None, tokens)
      else and_then (p_predicate 0 (tl tokens)) (\<lambda>(p, tokens). Inr (Some p, tokens)))"

definition aggregate_func_of :: "string \<Rightarrow> (pql_error, aggregate_func) result" where
  "aggregate_func_of word =
     (if word = ''sum'' then Inr FSum else if word = ''count'' then Inr FCount else if word = ''min'' then Inr FMin
      else if word = ''max'' then Inr FMax else Inl (PqlParse ''unknown aggregate function''))"

definition p_aggregate_column :: "token list \<Rightarrow> string option parsed" where
  "p_aggregate_column tokens =
     (if at_token TkStar tokens then Inr (None, tl tokens)
      else if at_token TkRParen tokens then Inr (None, tokens)
      else and_then (p_name tokens) (\<lambda>(name, tokens). Inr (Some name, tokens)))"

definition p_aggregate_term :: "token list \<Rightarrow> aggregate_term parsed" where
  "p_aggregate_term tokens =
     and_then (p_name tokens) (\<lambda>(word, tokens).
     and_then (aggregate_func_of word) (\<lambda>func.
     and_then (if at_token TkLParen tokens then Inr (tl tokens) else Inl (PqlParse ''aggregate needs parentheses'')) (\<lambda>tokens.
     and_then (p_aggregate_column tokens) (\<lambda>(col, tokens).
     and_then (p_expect TkRParen tokens) (\<lambda>tokens.
     and_then (p_keyword ''as'' tokens) (\<lambda>tokens.
     and_then (p_name tokens) (\<lambda>(alias, tokens).
       Inr (\<lparr>at_func = func, at_column = col, at_alias = alias\<rparr>, tokens))))))))"

lemma p_aggregate_column_shorter: "p_aggregate_column tokens = Inr (c, rest) \<Longrightarrow> length rest \<le> length tokens"
  by (auto simp: p_aggregate_column_def and_then_Inr_iff dest!: p_name_shorter split: if_splits)

lemma p_aggregate_term_shorter: "p_aggregate_term tokens = Inr (t, rest) \<Longrightarrow> length rest < length tokens"
  by (fastforce simp: p_aggregate_term_def and_then_Inr_iff
      dest!: p_name_shorter p_aggregate_column_shorter p_expect_shorter p_keyword_shorter at_token_tl split: if_splits)

function p_more_terms :: "aggregate_term list \<Rightarrow> token list \<Rightarrow> aggregate_term list parsed" where
  "p_more_terms acc tokens =
     (if at_token TkComma tokens then and_then (p_aggregate_term (tl tokens)) (\<lambda>(x, rest). p_more_terms (acc @ [x]) rest)
      else Inr (acc, tokens))"
  by auto
termination
  by (relation "measure (\<lambda>(_, tokens). length tokens)") (auto dest!: p_aggregate_term_shorter intro: less_trans)

definition p_aggregate :: "token list \<Rightarrow> aggregate parsed" where
  "p_aggregate tokens =
     and_then (p_aggregate_term tokens) (\<lambda>(term, tokens).
     and_then (p_more_terms [term] tokens) (\<lambda>(terms, tokens).
     and_then (p_keyword ''by'' tokens) (\<lambda>tokens.
     and_then (p_names tokens) (\<lambda>(group_by, tokens). Inr (\<lparr>ag_terms = terms, ag_group_by = group_by\<rparr>, tokens)))))"

definition p_projection :: "token list \<Rightarrow> (selection \<times> aggregate option) parsed" where
  "p_projection tokens =
     (if at_keyword ''aggregate'' tokens
      then and_then (p_aggregate (tl tokens)) (\<lambda>(agg, tokens). Inr ((SelAll, Some agg), tokens))
      else if \<not> at_keyword ''select'' tokens then Inr ((SelAll, None), tokens)
      else let tokens = tl tokens in
        if at_token TkStar tokens then Inr ((SelAll, None), tl tokens)
        else and_then (p_names tokens) (\<lambda>(columns, tokens). Inr ((SelColumns columns, None), tokens)))"

definition p_order_key :: "token list \<Rightarrow> order_key parsed" where
  "p_order_key tokens =
     and_then (p_name tokens) (\<lambda>(field, tokens).
       if at_keyword ''desc'' tokens then Inr (\<lparr>ok_field = field, ok_descending = True\<rparr>, tl tokens)
       else Inr (\<lparr>ok_field = field, ok_descending = False\<rparr>, if at_keyword ''asc'' tokens then tl tokens else tokens))"

lemma p_order_key_shorter: "p_order_key tokens = Inr (k, rest) \<Longrightarrow> length rest < length tokens"
  by (fastforce simp: p_order_key_def and_then_Inr_iff dest!: p_name_shorter split: if_splits)

function p_more_order_keys :: "order_key list \<Rightarrow> token list \<Rightarrow> order_key list parsed" where
  "p_more_order_keys acc tokens =
     (if at_token TkComma tokens then and_then (p_order_key (tl tokens)) (\<lambda>(x, rest). p_more_order_keys (acc @ [x]) rest)
      else Inr (acc, tokens))"
  by auto
termination
  by (relation "measure (\<lambda>(_, tokens). length tokens)") (auto dest!: p_order_key_shorter intro: less_trans)

declare p_more_terms.simps [simp del] p_more_order_keys.simps [simp del]

definition p_order_clause :: "token list \<Rightarrow> order_key list parsed" where
  "p_order_clause tokens =
     (if \<not> at_keyword ''order'' tokens then Inr ([], tokens)
      else and_then (p_keyword ''by'' (tl tokens)) (\<lambda>tokens.
        and_then (p_order_key tokens) (\<lambda>(key, tokens). p_more_order_keys [key] tokens)))"

definition limit_error :: pql_error where
  "limit_error = PqlParse ''limit must be a non-negative integer''"

definition p_limit_clause :: "token list \<Rightarrow> u32 option parsed" where
  "p_limit_clause tokens =
     (if \<not> at_keyword ''limit'' tokens then Inr (None, tokens)
      else case tl tokens of
        TkInt n # rest \<Rightarrow> if 0 \<le> n \<and> n < 2 ^ 32 then Inr (Some (of_int n), rest) else Inl limit_error
      | _ \<Rightarrow> Inl limit_error)"

definition p_query :: "token list \<Rightarrow> ast parsed" where
  "p_query tokens =
     and_then (p_keyword ''from'' tokens) (\<lambda>tokens.
     and_then (p_name tokens) (\<lambda>(domain, tokens).
     and_then (p_join_clause tokens) (\<lambda>(join, tokens).
     and_then (p_where_clause tokens) (\<lambda>(p, tokens).
     and_then (p_projection tokens) (\<lambda>((sel, agg), tokens).
     and_then (p_order_clause tokens) (\<lambda>(order_by, tokens).
     and_then (p_limit_clause tokens) (\<lambda>(limit, tokens).
       Inr (\<lparr>ast_domain = domain, ast_join = join, ast_predicate = p, ast_selection = sel, ast_aggregate = agg,
             ast_order_by = order_by, ast_limit = limit\<rparr>, tokens))))))))"

definition parse :: "(string \<Rightarrow> i64 option) \<Rightarrow> string \<Rightarrow> (pql_error, ast) result" where
  "parse rfc3339 text =
     (if length text > MAX_QUERY_BYTES then Inl (PqlParse ''query text exceeds the size limit'')
      else and_then (lex rfc3339 text) (\<lambda>tokens.
        and_then (p_query tokens) (\<lambda>(ast, rest).
          if rest \<noteq> [] then Inl (PqlParse ''unexpected trailing input'') else Inr ast)))"

end
