(* ===== verification/Spec2Isabelle.thy ===== *)
theory Spec2Isabelle
  imports Peryx_Prelude Contracts Interfaces Ownership_Safety Placement_Safety Revocation Orphan_Purge Retention Policy_Queue Pql_Security Pql_Parse
begin

text \<open>
  \<^bold>\<open>Peryx: distributed metadata, placement, reclamation and queries.\<close>

  Peryx is an artifact registry that may run as one process or as a cluster. One writer commits driver
  transactions to its metadata store; every transaction appends journal entries; replicas pull the
  journal in pages, and from a checkpoint when the writer no longer holds the pages they need. Which
  datacenter owns an artifact, and which node may run a singleton task, is a state machine replicated by
  consensus. Where the verified copies of a blob are is a table of fenced records. Blobs no row refers to
  are purged under guards. Operators read the store with a small query language.

  \<^bold>\<open>Theories.\<close> In import order; file names are relative to \<open>src/crates\<close>.

  \<^item> \<open>Peryx_Prelude\<close>: machine integers (\<open>u64\<close> as \<open>64 word\<close>, \<open>i64\<close> as \<open>int\<close> with the saturating
    operations written out), results as sums with \<open>and_then\<close> (the question mark operator), finite maps.
  \<^item> \<open>Contracts\<close>: \<open>peryx-ha/src/lib.rs\<close>, \<open>peryx-core/src/availability.rs\<close>, the values of
    \<open>peryx-identity/src/revocation.rs\<close>.
  \<^item> \<open>Interfaces\<close>: the locales the components share: a guarded and an ordered log, a decision fenced by
    the last owner of a record, optimistic retry, and comparators; paged table scans and the stable sort.
    Each locale is interpreted where its provider is.
  \<^item> \<open>Ownership\<close>: \<open>OwnershipState\<close> of \<open>peryx-ha-distributed/src/ownership.rs\<close>, every command with its
    effects and rejections. \<open>Ownership_Safety\<close>: its invariant over every run, the refinement of runs to
    an abstract home table step by step, one home per epoch, leases that fence writes, controls applied once,
    exclusive singletons.
  \<^item> \<open>Blob_Placement\<close>: the decision of \<open>peryx-ha/src/placement.rs\<close>, the table of
    \<open>peryx-storage/src/meta/blob_placement.rs\<close>, plans of \<open>placement_policy.rs\<close>, \<open>blob_placement.rs\<close>,
    \<open>placement_planning.rs\<close> and \<open>copy_planning.rs\<close>. \<open>Placement_Safety\<close>: a verified copy has evidence, fences only
    grow, retries lose no update, scans visit every row once.
  \<^item> \<open>Revocation\<close>: \<open>meta/revocation.rs\<close>: rows, status index and active count stay consistent.
  \<^item> \<open>Meta_Store\<close>: \<open>meta/index.rs\<close>, \<open>meta/placement.rs\<close>, \<open>meta/reclaim_guard.rs\<close>, \<open>meta/webhook.rs\<close>, and
    the generations of \<open>meta/policy_decision.rs\<close>: driver transactions and everything they commit.
  \<^item> \<open>Policy_Decision\<close>: the history and the current decisions of \<open>meta/policy_decision.rs\<close>: the tables answer
    as the log of decisions does, and a batch writes what direct writes would. \<open>Policy_Queue\<close>:
    \<open>meta/policy_decision_queue.rs\<close> as a relation of the atomic steps of callers and the writer thread; a
    wait returns only after every decision sent before it was in a batch.
  \<^item> \<open>Orphan_Purge\<close>: \<open>peryx-ha-distributed/src/reclaim_guard.rs\<close> as a step relation beside writers; the
    purge deletes only blobs nothing refers to.
  \<^item> \<open>Journal\<close>: \<open>meta/journal.rs\<close> and the revocation writers. \<open>Checkpoint_Codec\<close> and \<open>Checkpoint\<close>:
    \<open>meta/checkpoint.rs\<close> and \<open>meta/checkpoint_transfer.rs\<close>: encoding, cursors, publication, staging,
    installation.
  \<^item> \<open>Replica\<close>, \<open>Replication\<close>: \<open>change_page.rs\<close>, \<open>replica.rs\<close>, \<open>protocol.rs\<close>, \<open>envelope.rs\<close>. \<open>Cluster\<close>: a writer and
    its replicas as one relation of steps; a replica holds a prefix of the writer's history.
    \<open>Catch_Up\<close>: pages are full and synchronisation reaches the writer's serial. \<open>Recovery\<close>: the
    checkpoint over HTTP (\<open>http.rs\<close>, \<open>peer_http.rs\<close>), and recovery of a replica from it. \<open>Retention\<close>:
    the retention pass of \<open>peryx/src/process.rs\<close>.
  \<^item> \<open>Pql\<close>: \<open>peryx-pql/src\<close> \<open>value.rs\<close>, \<open>ast.rs\<close>, \<open>catalog.rs\<close>, \<open>scope.rs\<close>, \<open>source.rs\<close>, \<open>error.rs\<close>, \<open>eval.rs\<close>,
    \<open>plan.rs\<close>. \<open>Pql_Execute\<close>: \<open>cursor.rs\<close>, \<open>execute.rs\<close>. \<open>Pql_Parse\<close>: \<open>parse.rs\<close>. \<open>Pql_Types\<close>: planned queries are
    well typed and so is every page. \<open>Pql_Source\<close>: the \<open>NeutralQuerySource\<close> of
    \<open>peryx-driver/src/http_services.rs\<close> and \<open>usage_totals\<close> of \<open>peryx-events/src/metrics.rs\<close>; a query answers as it would
    over the log of decisions. \<open>Pql_Security\<close>: the audiences of \<open>peryx-http/src/response_security.rs\<close> and the
    visibility of \<open>handlers/pql.rs\<close>; rows outside the scope and hidden columns shape no answer.

  \<^bold>\<open>Reading the model.\<close> A redb table is a finite map of decoded rows, a transaction a function from the
  store to an error, which commits nothing, or to the new store. Storage faults and undecodable rows
  abort a transaction and are not branches. Asynchronous code is the sequence of its effects: pages,
  windows and clock readings are arguments, and where two processes interleave, a step relation lets
  either move. \<open>serde_json\<close>, \<open>hex\<close>, \<open>base64\<close>, SHA-256 and \<open>time\<close> are parameters (\<open>codecs\<close>, \<open>wire\<close>, \<open>pql_fmt\<close>,
  \<open>rfc3339\<close>, the \<open>json\<close> text of a policy subject) whose laws say that decoding inverts encoding, or that
  two subjects have two texts; each law has an instance among the witnesses.

  \<^bold>\<open>Bounds and fuel.\<close> The retention and recovery loops that wait for other processes take fuel, and the
  theorems about them say which fuel suffices; every other loop is a total function. Journal serials,
  fences, epochs and page budgets are words that wrap; where a theorem needs a counter not to have
  wrapped, it says so. The constants are those of the code.

  \<^bold>\<open>Not modelled.\<close> Sockets, HTTP framing, TLS, timers, task scheduling and telemetry, which have no
  state the theorems speak of; the files behind a blob; the consensus library, for which every order of
  commands is allowed; the PyPI and OCI protocols, archives, search, identity and the web pages, which
  meet these components only through driver transactions and the query source; and the tables of the
  metadata store that replication does not carry (quotas, users, jobs, migrations).
  How a request obtains its authorization is the caller's: a query takes its scope and visibility as arguments.
\<close>

end
